(* ===== verification/OC_Prelude.thy ===== *)
theory OC_Prelude
  imports Main "HOL-Library.Word" "HOL-Library.Multiset" "HOL-Library.Code_Target_Nat"
begin

text \<open>
  Shared vocabulary of the development: the fixed-width integers of the Rust sources, the
  saturating operations of the standard library on them, the outcome of a Rust computation
  (a value, an \<open>Err\<close>, a panic, a computation that does not return), the standard
  \<open>BinaryHeap\<close>, and the generic facts on lists and multisets the components use.
\<close>

named_theorems sat_simps \<open>saturating arithmetic read through unat\<close>
named_theorems conserve \<open>what an operation does to the multiset of queued elements\<close>
named_theorems co_simps \<open>definitions of the coroutine layer\<close>

section \<open>Machine integers\<close>

type_synonym u32 = "32 word"
type_synonym u64 = "64 word"
type_synonym i32 = "32 word"

text \<open>\<open>usize\<close> is kept as a natural number; where the code saturates, the bound is written out.\<close>

definition usize_max :: nat where
  "usize_max = 2 ^ 64 - 1"

definition usat_add :: "nat \<Rightarrow> nat \<Rightarrow> nat" where
  "usat_add a b = min (a + b) usize_max"

abbreviation u64_max :: u64 where
  "u64_max \<equiv> - 1"

definition sat_add :: "'a::len word \<Rightarrow> 'a word \<Rightarrow> 'a word" where
  "sat_add a b = (if unat a + unat b < 2 ^ LENGTH('a) then a + b else - 1)"

definition sat_sub :: "'a::len word \<Rightarrow> 'a word \<Rightarrow> 'a word" where
  "sat_sub a b = (if a \<le> b then 0 else a - b)"

definition sat_mul :: "'a::len word \<Rightarrow> 'a word \<Rightarrow> 'a word" where
  "sat_mul a b = (if unat a * unat b < 2 ^ LENGTH('a) then a * b else - 1)"

text \<open>\<open>u64::try_from\<close> of a number of nanoseconds, as a checked conversion.\<close>

definition u64_try_from :: "nat \<Rightarrow> u64 option" where
  "u64_try_from n = (if n < 2 ^ 64 then Some (of_nat n) else None)"

section \<open>Outcomes of a Rust computation\<close>

text \<open>
  \<open>Hang\<close> stands for a computation that does not return: a loop whose guard never fails, or
  a loop model that ran out of fuel.
\<close>

datatype ('e, 'a) rust = Ok 'a | Err 'e | Panic string | Hang

fun rust_bind :: "('e, 'a) rust \<Rightarrow> ('a \<Rightarrow> ('e, 'b) rust) \<Rightarrow> ('e, 'b) rust" where
  "rust_bind (Ok a) f = f a"
| "rust_bind (Err e) f = Err e"
| "rust_bind (Panic m) f = Panic m"
| "rust_bind Hang f = Hang"

definition of_loop :: "'a option \<Rightarrow> ('e, 'a) rust" where
  "of_loop r = (case r of None \<Rightarrow> Hang | Some a \<Rightarrow> Ok a)"

datatype error_kind = EK_Other | EK_TimedOut | EK_InvalidInput | EK_Unsupported
  | EK_WouldBlock | EK_Interrupted

section \<open>The standard library's BinaryHeap\<close>

text \<open>
  \<open>BinaryHeap<T>\<close> hands out a greatest element first; \<open>lt\<close> is the strict order of
  \<open>impl Ord for T\<close>. The model keeps the elements greatest first; elements that compare
  equal leave in the order they came, which the library leaves open and no property uses.
\<close>

fun heap_push :: "('a \<Rightarrow> 'a \<Rightarrow> bool) \<Rightarrow> 'a \<Rightarrow> 'a list \<Rightarrow> 'a list" where
  "heap_push lt x [] = [x]"
| "heap_push lt x (y # ys) = (if lt y x then x # y # ys else y # heap_push lt x ys)"

fun heap_peek :: "'a list \<Rightarrow> 'a option" where
  "heap_peek [] = None"
| "heap_peek (x # xs) = Some x"

fun heap_pop :: "'a list \<Rightarrow> 'a option \<times> 'a list" where
  "heap_pop [] = (None, [])"
| "heap_pop (x # xs) = (Some x, xs)"

section \<open>Lemmas\<close>

lemma usat_add_small [simp]: "a + b \<le> usize_max \<Longrightarrow> usat_add a b = a + b"
  by (simp add: usat_add_def)

lemma unat_sat_add [sat_simps]:
  fixes a :: "'a::len word"
  shows "unat (sat_add a b) = min (unat a + unat b) (2 ^ LENGTH('a) - 1)"
proof (cases "unat a + unat b < 2 ^ LENGTH('a)")
  case True
  then show ?thesis by (simp add: sat_add_def unat_word_ariths)
next
  case False
  then show ?thesis by (simp add: sat_add_def unsigned_minus_1_eq_mask mask_eq_exp_minus_1)
qed

lemma unat_sat_sub [sat_simps]: "unat (sat_sub a b) = unat a - unat b"
  by (auto simp: sat_sub_def word_le_nat_alt unat_sub)

lemma sat_sub_eq_0_iff [simp]: "sat_sub a b = 0 \<longleftrightarrow> a \<le> b"
  by (auto simp: sat_sub_def)

lemma unat_sat_mul [sat_simps]:
  fixes a :: "'a::len word"
  shows "unat (sat_mul a b) = min (unat a * unat b) (2 ^ LENGTH('a) - 1)"
proof (cases "unat a * unat b < 2 ^ LENGTH('a)")
  case True
  then show ?thesis by (simp add: sat_mul_def unat_word_ariths)
next
  case False
  then show ?thesis by (simp add: sat_mul_def unsigned_minus_1_eq_mask mask_eq_exp_minus_1)
qed

lemma sat_add_ge:
  fixes a :: "'a::len word"
  shows "a \<le> sat_add a b"
proof -
  have "unat a < 2 ^ LENGTH('a)" by (rule unsigned_less)
  then have "unat a \<le> 2 ^ LENGTH('a) - 1" by linarith
  then show ?thesis by (simp add: word_le_nat_alt sat_simps)
qed

lemma rust_bind_Ok_iff: "rust_bind m f = Ok b \<longleftrightarrow> (\<exists>a. m = Ok a \<and> f a = Ok b)"
  by (cases m) auto

lemma mset_heap_push [simp]: "mset (heap_push lt x h) = add_mset x (mset h)"
  by (induction h) auto

lemma set_heap_push [simp]: "set (heap_push lt x h) = insert x (set h)"
  by (induction h) auto

lemma heap_pop_Some_iff: "heap_pop h = (Some x, h') \<longleftrightarrow> h = x # h'"
  by (cases h) auto

text \<open>The heap order: no element is followed by a greater one.\<close>

definition heap_ordered :: "('a \<Rightarrow> 'a \<Rightarrow> bool) \<Rightarrow> 'a list \<Rightarrow> bool" where
  "heap_ordered lt h = sorted_wrt (\<lambda>x y. \<not> lt x y) h"

lemma heap_ordered_Nil [simp]: "heap_ordered lt []"
  by (simp add: heap_ordered_def)

lemma heap_ordered_Cons:
  "heap_ordered lt (x # h) \<longleftrightarrow> (\<forall>y\<in>set h. \<not> lt x y) \<and> heap_ordered lt h"
  by (simp add: heap_ordered_def)

lemma heap_ordered_push:
  assumes asym: "\<And>a b. lt a b \<Longrightarrow> \<not> lt b a"
    and negtrans: "\<And>a b c. \<not> lt a b \<Longrightarrow> \<not> lt b c \<Longrightarrow> \<not> lt a c"
    and "heap_ordered lt h"
  shows "heap_ordered lt (heap_push lt x h)"
  using assms(3)
proof (induction h)
  case Nil
  then show ?case by (simp add: heap_ordered_Cons)
next
  case (Cons y h)
  then have y: "\<forall>z\<in>set h. \<not> lt y z" and h: "heap_ordered lt (heap_push lt x h)"
    by (auto simp: heap_ordered_Cons)
  show ?case
  proof (cases "lt y x")
    case True
    then have "\<not> lt x y" by (rule asym)
    with y negtrans [of x y] have "\<forall>z\<in>set h. \<not> lt x z" by simp
    with True \<open>\<not> lt x y\<close> Cons.prems show ?thesis by (simp add: heap_ordered_Cons)
  next
    case False
    with y h show ?thesis by (simp add: heap_ordered_Cons)
  qed
qed

text \<open>Sums of multisets over a list with one element replaced.\<close>

lemma sum_list_update_multiset:
  fixes f :: "'b \<Rightarrow> 'c multiset"
  assumes "i < length xs"
  shows "sum_list (map f (xs[i := y])) + f (xs ! i) = sum_list (map f xs) + f y"
  using assms
proof (induction xs arbitrary: i)
  case (Cons x xs)
  then show ?case by (cases i) (auto simp: ac_simps)
qed simp

definition mset_option :: "'a option \<Rightarrow> 'a multiset" where
  "mset_option r = (case r of None \<Rightarrow> {#} | Some x \<Rightarrow> {#x#})"

lemma mset_option_simps [simp]: "mset_option None = {#}" "mset_option (Some x) = {#x#}"
  by (simp_all add: mset_option_def)

end
