(* ===== verification/OC_Deques.thy ===== *)
theory OC_Deques
  imports OC_Prelude
begin

text \<open>
  The containers the work-stealing queues are built from. They are third-party crates, so the
  models of the queues take their operations as arguments: a record of the operations of
  \<open>st3::fifo::Worker\<close> (a bounded FIFO a stealer can take from) and one of
  \<open>crossbeam_deque::Injector\<close> (an unbounded FIFO whose \<open>steal\<close> may ask to retry). The two
  locales state their documented behaviour for calls that do not overlap in time. The
  \<open>SkipMap\<close> with priorities as keys is an association list in key order.

  A pair of list-based instances satisfies both contracts; the witnesses run on it.
\<close>

section \<open>Operations\<close>

record ('w, 'a) worker_ops =
  wk_new :: "nat \<Rightarrow> 'w"
  wk_push :: "'a \<Rightarrow> 'w \<Rightarrow> 'w option"
  wk_pop :: "'w \<Rightarrow> 'a option \<times> 'w"
  wk_capacity :: "'w \<Rightarrow> nat"
  wk_spare_capacity :: "'w \<Rightarrow> nat"
  wk_is_empty :: "'w \<Rightarrow> bool"
  wk_steal :: "'w \<Rightarrow> 'w \<Rightarrow> (nat \<Rightarrow> nat) \<Rightarrow> ('w \<times> 'w) option"

datatype 'a steal = Steal_Empty | Steal_Success 'a | Steal_Retry

record ('i, 'a) injector_ops =
  inj_new :: 'i
  inj_push :: "'a \<Rightarrow> 'i \<Rightarrow> 'i"
  inj_steal :: "'i \<Rightarrow> 'a steal \<times> 'i"

section \<open>Contracts\<close>

text \<open>
  \<open>push\<close> hands the item back (\<open>None\<close>) only when the ring is full; \<open>steal\<close> moves
  between one and \<open>f n\<close> items, \<open>n\<close> the number available, from the head of the source to
  the tail of the destination, within its spare capacity, and otherwise changes nothing.
\<close>

locale st3_worker =
  fixes W :: "('w, 'a) worker_ops" and items :: "'w \<Rightarrow> 'a list"
  assumes wnew: "items (wk_new W c) = []" and wnew_cap: "c \<le> wk_capacity W (wk_new W c)"
    and wpush: "wk_push W x w = Some w' \<Longrightarrow>
      items w' = items w @ [x] \<and> wk_capacity W w' = wk_capacity W w"
    and wpush_room: "length (items w) < wk_capacity W w \<Longrightarrow> wk_push W x w \<noteq> None"
    and wpop_None: "wk_pop W w = (None, w') \<Longrightarrow> items w = [] \<and> items w' = []"
    and wpop_Some: "wk_pop W w = (Some x, w') \<Longrightarrow> items w = x # items w'"
    and wpop_cap: "wk_pop W w = (r, w') \<Longrightarrow> wk_capacity W w' = wk_capacity W w"
    and wspare: "wk_spare_capacity W w = wk_capacity W w - length (items w)"
    and wbound: "length (items w) \<le> wk_capacity W w"
    and wempty: "wk_is_empty W w \<longleftrightarrow> items w = []"
    and wsteal: "wk_steal W s d f = Some (s', d') \<Longrightarrow>
      \<exists>n. 0 < n \<and> n \<le> f (length (items s)) \<and> n \<le> length (items s)
        \<and> n \<le> wk_spare_capacity W d
        \<and> items s' = drop n (items s) \<and> items d' = items d @ take n (items s)
        \<and> wk_capacity W s' = wk_capacity W s \<and> wk_capacity W d' = wk_capacity W d"
begin

lemma wpop_items: "fst (wk_pop W w) = (case items w of [] \<Rightarrow> None | x # _ \<Rightarrow> Some x)"
  by (cases "wk_pop W w"; cases "fst (wk_pop W w)") (auto dest: wpop_None wpop_Some split: list.splits)

lemma wused: "wk_capacity W w - wk_spare_capacity W w = length (items w)"
  using wbound [of w] by (simp add: wspare)

end

text \<open>
  \<open>retries\<close> bounds how often \<open>steal\<close> answers \<open>Retry\<close> before it answers otherwise: a
  retry reports a lost race, and without concurrent calls races do not go on for ever.
\<close>

locale crossbeam_injector =
  fixes J :: "('i, 'a) injector_ops" and jitems :: "'i \<Rightarrow> 'a list" and retries :: "'i \<Rightarrow> nat"
  assumes jnew: "jitems (inj_new J) = []"
    and jpush: "jitems (inj_push J x j) = jitems j @ [x]"
    and jsteal_Empty: "inj_steal J j = (Steal_Empty, j') \<Longrightarrow> jitems j = [] \<and> jitems j' = []"
    and jsteal_Success: "inj_steal J j = (Steal_Success x, j') \<Longrightarrow> jitems j = x # jitems j'"
    and jsteal_Retry: "inj_steal J j = (Steal_Retry, j') \<Longrightarrow>
      jitems j' = jitems j \<and> retries j' < retries j"

locale deques = st3_worker W items + crossbeam_injector J jitems retries
  for W :: "('w, 'a) worker_ops" and items :: "'w \<Rightarrow> 'a list"
    and J :: "('i, 'a) injector_ops" and jitems :: "'i \<Rightarrow> 'a list" and retries :: "'i \<Rightarrow> nat"

section \<open>The retry loop\<close>

text \<open>The inner \<open>loop { match steal() { .. } }\<close> of both global queues; \<open>None\<close>: it spins.\<close>

partial_function (option) inj_steal_loop ::
  "('i, 'a) injector_ops \<Rightarrow> 'i \<Rightarrow> ('a option \<times> 'i) option" where
  "inj_steal_loop J j =
     (case inj_steal J j of
        (Steal_Success x, j') \<Rightarrow> Some (Some x, j')
      | (Steal_Retry, j') \<Rightarrow> inj_steal_loop J j'
      | (Steal_Empty, j') \<Rightarrow> Some (None, j'))"

declare inj_steal_loop.simps [code]

context crossbeam_injector
begin

lemma inj_steal_loop_correct:
  "\<exists>r j'. inj_steal_loop J j = Some (r, j')
     \<and> (case r of None \<Rightarrow> jitems j = [] \<and> jitems j' = [] | Some x \<Rightarrow> jitems j = x # jitems j')"
proof (induction "retries j" arbitrary: j rule: less_induct)
  case less
  obtain a j' where st: "inj_steal J j = (a, j')" by fastforce
  show ?case
  proof (cases a)
    case Steal_Empty
    with st jsteal_Empty show ?thesis by (subst inj_steal_loop.simps) auto
  next
    case (Steal_Success x)
    with st jsteal_Success show ?thesis by (subst inj_steal_loop.simps) auto
  next
    case Steal_Retry
    with st jsteal_Retry have "jitems j' = jitems j" "retries j' < retries j" by auto
    with less [of j'] st Steal_Retry show ?thesis
      by (subst inj_steal_loop.simps) (auto split: option.splits)
  qed
qed

end

section \<open>SkipMap\<close>

type_synonym 'v skipmap = "(int \<times> 'v) list"

fun sk_put :: "int \<Rightarrow> 'v \<Rightarrow> 'v skipmap \<Rightarrow> 'v skipmap" where
  "sk_put k v [] = [(k, v)]"
| "sk_put k v ((k', v') # m) =
     (if k < k' then (k, v) # (k', v') # m
      else if k = k' then (k, v) # m
      else (k', v') # sk_put k v m)"

definition get_or_insert_with :: "int \<Rightarrow> 'v \<Rightarrow> 'v skipmap \<Rightarrow> 'v \<times> 'v skipmap" where
  "get_or_insert_with k v m =
     (case map_of m k of Some v' \<Rightarrow> (v', m) | None \<Rightarrow> (v, sk_put k v m))"

definition sk_wf :: "'v skipmap \<Rightarrow> bool" where
  "sk_wf m = sorted_wrt (<) (map fst m)"

text \<open>The queued items in key order, each with its key.\<close>

definition sk_entries :: "('v \<Rightarrow> 'a list) \<Rightarrow> 'v skipmap \<Rightarrow> (int \<times> 'a) list" where
  "sk_entries f m = concat (map (\<lambda>(k, v). map (Pair k) (f v)) m)"

lemma sk_wf_Nil [simp]: "sk_wf []"
  by (simp add: sk_wf_def)

lemma sk_wf_Cons [simp]: "sk_wf ((k, v) # m) \<longleftrightarrow> (\<forall>k'\<in>fst ` set m. k < k') \<and> sk_wf m"
  by (simp add: sk_wf_def)

lemma fst_set_sk_put [simp]: "fst ` set (sk_put k v m) = insert k (fst ` set m)"
  by (induction m rule: sk_put.induct) auto

lemma sk_wf_put [simp]: "sk_wf m \<Longrightarrow> sk_wf (sk_put k v m)"
  by (induction m rule: sk_put.induct) auto

lemma map_of_sk_put: "sk_wf m \<Longrightarrow> map_of (sk_put k v m) = (map_of m)(k \<mapsto> v)"
proof (induction m rule: sk_put.induct)
  case (2 k v k' v' m)
  then show ?case
    by (auto simp: fun_eq_iff)
qed auto

lemma sk_entries_simps [simp]:
  "sk_entries f [] = []"
  "sk_entries f ((k, v) # m) = map (Pair k) (f v) @ sk_entries f m"
  by (simp_all add: sk_entries_def)

lemma sk_entries_append [simp]: "sk_entries f (m @ n) = sk_entries f m @ sk_entries f n"
  by (simp add: sk_entries_def)

lemma fst_sk_entries: "fst ` set (sk_entries f m) \<subseteq> fst ` set m"
proof (induction m)
  case (Cons e m)
  then show ?case by (cases e) auto
qed simp

text \<open>
  The abstract counterpart of a priority-indexed collection of FIFOs: a list sorted by
  priority in which a new item goes behind the items of the same priority.
\<close>

fun pq_insert :: "int \<Rightarrow> 'a \<Rightarrow> (int \<times> 'a) list \<Rightarrow> (int \<times> 'a) list" where
  "pq_insert p x [] = [(p, x)]"
| "pq_insert p x ((k, y) # l) =
     (if k \<le> p then (k, y) # pq_insert p x l else (p, x) # (k, y) # l)"

lemma mset_pq_insert [simp]: "mset (pq_insert p x l) = add_mset (p, x) (mset l)"
  by (induction p x l rule: pq_insert.induct) auto

lemma sorted_pq_insert: "sorted (map fst l) \<Longrightarrow> sorted (map fst (pq_insert p x l))"
proof (induction p x l rule: pq_insert.induct)
  case (2 p x k y l)
  have "fst ` set (pq_insert p x l) = insert p (fst ` set l)"
    by (induction p x l rule: pq_insert.induct) auto
  with 2 show ?case by auto
qed auto

lemma pq_insert_append:
  "\<forall>k\<in>fst ` set xs. k \<le> p \<Longrightarrow> pq_insert p x (xs @ ys) = xs @ pq_insert p x ys"
  by (induction xs) auto

lemma pq_insert_front:
  "\<forall>k\<in>fst ` set ys. p < k \<Longrightarrow> pq_insert p x ys = (p, x) # ys"
  by (cases ys) auto

lemma sk_entries_above:
  "\<forall>k\<in>fst ` set m. p < k \<Longrightarrow> \<forall>k\<in>fst ` set (sk_entries f m). p < k"
  using fst_sk_entries [of f m] by blast

lemma sk_wf_absent: "sk_wf ((k', v') # m) \<Longrightarrow> k \<le> k' \<Longrightarrow> map_of m k = None"
  by (auto simp: map_of_eq_None_iff)

lemma sk_entries_put_push:
  assumes "sk_wf m"
    and "f v = (case map_of m p of None \<Rightarrow> [] | Some v' \<Rightarrow> f v') @ [x]"
  shows "sk_entries f (sk_put p v m) = pq_insert p x (sk_entries f m)"
  using assms
proof (induction p v m rule: sk_put.induct)
  case (1 k v)
  then show ?case by simp
next
  case (2 k v k' v' m)
  from "2.prems"(1) have ks: "\<forall>j\<in>fst ` set (sk_entries f m). k' < j"
    by (intro sk_entries_above) simp
  consider "k < k'" | "k = k'" | "k' < k" by linarith
  then show ?case
  proof cases
    case 1
    with sk_wf_absent [OF "2.prems"(1)] have "map_of m k = None" by simp
    with 1 "2.prems"(2) have fv: "f v = [x]" by simp
    have "pq_insert k x (sk_entries f ((k', v') # m)) = (k, x) # sk_entries f ((k', v') # m)"
      using 1 ks by (intro pq_insert_front) auto
    with 1 fv show ?thesis by simp
  next
    case 2
    have "pq_insert k x (map (Pair k) (f v') @ sk_entries f m) =
        map (Pair k) (f v') @ (k, x) # sk_entries f m"
      using 2 ks by (subst pq_insert_append) (auto intro: pq_insert_front)
    with 2 "2.prems"(2) show ?thesis by simp
  next
    case 3
    with "2.prems" have "sk_entries f (sk_put k v m) = pq_insert k x (sk_entries f m)"
      by (intro "2.IH") auto
    with 3 show ?thesis by (subst sk_entries_simps) (simp add: pq_insert_append)
  qed
qed

lemma mset_sk_entries_put:
  assumes "sk_wf m" and "map_of m k = Some v0"
  shows "mset (sk_entries f (sk_put k v m)) + mset (map (Pair k) (f v0)) =
     mset (sk_entries f m) + mset (map (Pair k) (f v))"
  using assms
proof (induction k v m rule: sk_put.induct)
  case (2 k v k' v' m)
  from sk_wf_absent [OF "2.prems"(1)] have "k < k' \<Longrightarrow> map_of m k = None" by simp
  with 2 show ?case by (auto split: if_splits)
qed simp

lemma sk_entries_put_same:
  assumes "sk_wf m" and "f v = (case map_of m k of None \<Rightarrow> [] | Some v' \<Rightarrow> f v')"
  shows "sk_entries f (sk_put k v m) = sk_entries f m"
  using assms
proof (induction k v m rule: sk_put.induct)
  case (2 k v k' v' m)
  from sk_wf_absent [OF "2.prems"(1)] have "k < k' \<Longrightarrow> map_of m k = None" by simp
  with 2 show ?case by auto
qed simp

section \<open>List-based instances\<close>

text \<open>A bounded FIFO as a capacity and a list cut to it, and an unbounded one as a list.\<close>

definition fifo_items :: "nat \<times> 'a list \<Rightarrow> 'a list" where
  "fifo_items w = take (fst w) (snd w)"

definition fifo_worker :: "(nat \<times> 'a list, 'a) worker_ops" where
  "fifo_worker =
   \<lparr>wk_new = (\<lambda>c. (c, [])),
    wk_push = (\<lambda>x w. if length (fifo_items w) < fst w then Some (fst w, fifo_items w @ [x]) else None),
    wk_pop = (\<lambda>w. case fifo_items w of [] \<Rightarrow> (None, w) | x # xs \<Rightarrow> (Some x, (fst w, xs))),
    wk_capacity = fst,
    wk_spare_capacity = (\<lambda>w. fst w - length (fifo_items w)),
    wk_is_empty = (\<lambda>w. fifo_items w = []),
    wk_steal = (\<lambda>s d f.
       let n = min (f (length (fifo_items s)))
                 (min (length (fifo_items s)) (fst d - length (fifo_items d))) in
       if n = 0 then None
       else Some ((fst s, drop n (fifo_items s)), (fst d, fifo_items d @ take n (fifo_items s))))\<rparr>"

definition fifo_injector :: "('a list, 'a) injector_ops" where
  "fifo_injector =
   \<lparr>inj_new = [], inj_push = (\<lambda>x xs. xs @ [x]),
    inj_steal = (\<lambda>xs. case xs of [] \<Rightarrow> (Steal_Empty, []) | x # xs' \<Rightarrow> (Steal_Success x, xs'))\<rparr>"

lemma length_fifo_items: "length (fifo_items w) \<le> fst w"
  by (simp add: fifo_items_def)

lemma fifo_items_pair: "length xs \<le> c \<Longrightarrow> fifo_items (c, xs) = xs"
  by (simp add: fifo_items_def)

lemma fifo_worker_simps [simp]:
  "wk_new fifo_worker c = (c, [])"
  "wk_capacity fifo_worker w = fst w"
  "wk_spare_capacity fifo_worker w = fst w - length (fifo_items w)"
  "wk_is_empty fifo_worker w = (fifo_items w = [])"
  "wk_push fifo_worker x w =
     (if length (fifo_items w) < fst w then Some (fst w, fifo_items w @ [x]) else None)"
  "wk_pop fifo_worker w =
     (case fifo_items w of [] \<Rightarrow> (None, w) | x # xs \<Rightarrow> (Some x, (fst w, xs)))"
  by (simp_all add: fifo_worker_def)

lemma fifo_worker_steal:
  "wk_steal fifo_worker s d f =
     (let n = min (f (length (fifo_items s)))
                (min (length (fifo_items s)) (fst d - length (fifo_items d))) in
      if n = 0 then None
      else Some ((fst s, drop n (fifo_items s)), (fst d, fifo_items d @ take n (fifo_items s))))"
  by (simp add: fifo_worker_def)

lemma fifo_injector_simps [simp]:
  "inj_new fifo_injector = []"
  "inj_push fifo_injector x xs = xs @ [x]"
  "inj_steal fifo_injector xs =
     (case xs of [] \<Rightarrow> (Steal_Empty, []) | x # xs' \<Rightarrow> (Steal_Success x, xs'))"
  by (simp_all add: fifo_injector_def)

lemma fifo_steal_law:
  assumes "wk_steal fifo_worker s d f = Some (s', d')"
  shows "\<exists>n. 0 < n \<and> n \<le> f (length (fifo_items s)) \<and> n \<le> length (fifo_items s)
        \<and> n \<le> wk_spare_capacity fifo_worker d
        \<and> fifo_items s' = drop n (fifo_items s)
        \<and> fifo_items d' = fifo_items d @ take n (fifo_items s)
        \<and> wk_capacity fifo_worker s' = wk_capacity fifo_worker s
        \<and> wk_capacity fifo_worker d' = wk_capacity fifo_worker d"
proof -
  define n where "n = min (f (length (fifo_items s)))
                (min (length (fifo_items s)) (fst d - length (fifo_items d)))"
  have s': "s' = (fst s, drop n (fifo_items s))" and "n \<noteq> 0"
    and d': "d' = (fst d, fifo_items d @ take n (fifo_items s))"
    using assms by (auto simp: fifo_worker_steal n_def [symmetric] Let_def split: if_splits)
  have "fifo_items s' = drop n (fifo_items s)"
    unfolding s' using length_fifo_items [of s] by (intro fifo_items_pair) simp
  moreover have "fifo_items d' = fifo_items d @ take n (fifo_items s)"
    unfolding d' using length_fifo_items [of d] by (intro fifo_items_pair) (simp add: n_def)
  moreover have "n \<le> f (length (fifo_items s))" "n \<le> length (fifo_items s)"
    "n \<le> fst d - length (fifo_items d)"
    by (simp_all add: n_def)
  ultimately show ?thesis using \<open>n \<noteq> 0\<close> s' d' by (intro exI [of _ n]) simp
qed

lemma fifo_pop_law:
  "wk_pop fifo_worker w = (Some x, w') \<Longrightarrow> fifo_items w = x # fifo_items w'"
  using length_fifo_items [of w] by (auto simp: fifo_items_pair split: list.splits)

interpretation fifo: deques fifo_worker fifo_items fifo_injector "\<lambda>xs. xs" "\<lambda>_. 0"
proof (unfold_locales, goal_cases)
  case (1 c)
  show ?case by (simp add: fifo_items_def)
next
  case (3 x w w')
  then show ?case by (auto simp: fifo_items_pair split: if_splits)
next
  case (6 w x w')
  then show ?case by (rule fifo_pop_law)
next
  case (11 s d f s' d')
  then show ?case by (rule fifo_steal_law)
qed (auto simp: length_fifo_items split: list.splits if_splits)

end
