(* ===== verification/OC_Work_Steal.thy ===== *)
theory OC_Work_Steal
  imports OC_Deques
begin

text \<open>
  \<^verbatim>\<open>core/src/common/work_steal.rs\<close>: the work-stealing queue without priorities. The global queue
  owns the workers of the local queues; a local handle is the index of its worker with its
  tick and its stealing flag. As in the ordered queue, \<open>None\<close> stands for an operation that does
  not return, and here there is none: a handle reads its fill level from the worker itself.
\<close>

section \<open>The code\<close>

record ('w, 'i) wsq =
  ws_shared_queue :: 'i
  ws_len :: nat
  ws_local_queues :: "'w list"
  ws_index :: u64

record wlq =
  lq_tick :: u32
  lq_stealing :: bool
  lq_queue :: nat

definition wsq_new ::
  "('w, 'a) worker_ops \<Rightarrow> ('i, 'a) injector_ops \<Rightarrow> nat \<Rightarrow> nat \<Rightarrow> ('w, 'i) wsq" where
  "wsq_new W J local_queues_size local_capacity =
     \<lparr>ws_shared_queue = inj_new J, ws_len = 0,
      ws_local_queues = map (\<lambda>_. wk_new W local_capacity) [0..<local_queues_size], ws_index = 0\<rparr>"

definition wsq_is_empty :: "('w, 'i) wsq \<Rightarrow> bool" where
  "wsq_is_empty s \<longleftrightarrow> ws_len s = 0"

definition wsq_push :: "('i, 'a) injector_ops \<Rightarrow> 'a \<Rightarrow> ('w, 'i) wsq \<Rightarrow> ('w, 'i) wsq" where
  "wsq_push J item s =
     s\<lparr>ws_shared_queue := inj_push J item (ws_shared_queue s), ws_len := usat_add (ws_len s) 1\<rparr>"

definition wsq_pop ::
  "('i, 'a) injector_ops \<Rightarrow> ('w, 'i) wsq \<Rightarrow> ('a option \<times> ('w, 'i) wsq) option" where
  "wsq_pop J s =
     (if wsq_is_empty s then Some (None, s)
      else map_option (\<lambda>(r, j).
          (r, s\<lparr>ws_shared_queue := j,
                ws_len := (case r of None \<Rightarrow> ws_len s | Some x \<Rightarrow> ws_len s - 1)\<rparr>))
        (inj_steal_loop J (ws_shared_queue s)))"

definition wsq_local_queue :: "('w, 'i) wsq \<Rightarrow> ('e, wlq \<times> ('w, 'i) wsq) rust" where
  "wsq_local_queue s =
     (let index = ws_index s;
          s' = s\<lparr>ws_index := (if index = u64_max then 0 else index + 1)\<rparr>;
          n = length (ws_local_queues s)
      in if n = 0 then Panic ''attempt to calculate the remainder with a divisor of zero''
         else Ok (\<lparr>lq_tick = 0, lq_stealing = False, lq_queue = unat index mod n\<rparr>, s'))"

abbreviation own_worker :: "('w, 'i) wsq \<Rightarrow> wlq \<Rightarrow> 'w" where
  "own_worker s h \<equiv> ws_local_queues s ! lq_queue h"

abbreviation set_worker :: "nat \<Rightarrow> 'w \<Rightarrow> ('w, 'i) wsq \<Rightarrow> ('w, 'i) wsq" where
  "set_worker i w s \<equiv> s\<lparr>ws_local_queues := (ws_local_queues s)[i := w]\<rparr>"

definition wlq_is_empty :: "('w, 'a) worker_ops \<Rightarrow> ('w, 'i) wsq \<Rightarrow> wlq \<Rightarrow> bool" where
  "wlq_is_empty W s h \<longleftrightarrow> wk_is_empty W (own_worker s h)"

definition wlq_is_full :: "('w, 'a) worker_ops \<Rightarrow> ('w, 'i) wsq \<Rightarrow> wlq \<Rightarrow> bool" where
  "wlq_is_full W s h \<longleftrightarrow> wk_spare_capacity W (own_worker s h) = 0"

definition wlq_len :: "('w, 'a) worker_ops \<Rightarrow> ('w, 'i) wsq \<Rightarrow> wlq \<Rightarrow> nat" where
  "wlq_len W s h = wk_capacity W (own_worker s h) - wk_spare_capacity W (own_worker s h)"

definition wlq_max_steal :: "('w, 'a) worker_ops \<Rightarrow> ('w, 'i) wsq \<Rightarrow> wlq \<Rightarrow> nat" where
  "wlq_max_steal W s h = usat_add (wk_capacity W (own_worker s h)) 1 div 2 - wlq_len W s h"

definition wlq_can_steal :: "('w, 'a) worker_ops \<Rightarrow> ('w, 'i) wsq \<Rightarrow> wlq \<Rightarrow> bool" where
  "wlq_can_steal W s h \<longleftrightarrow>
     wk_spare_capacity W (own_worker s h) \<ge> usat_add (wk_capacity W (own_worker s h)) 1 div 2"

text \<open>The loop of \<open>push\<close> that moves half of a full local queue to the global one.\<close>

fun move_to_global ::
  "('w, 'a) worker_ops \<Rightarrow> ('i, 'a) injector_ops \<Rightarrow> nat \<Rightarrow> nat \<Rightarrow> ('w, 'i) wsq \<Rightarrow> ('w, 'i) wsq" where
  "move_to_global W J i 0 s = s"
| "move_to_global W J i (Suc n) s =
     (case wk_pop W (ws_local_queues s ! i) of
        (Some item, w) \<Rightarrow> move_to_global W J i n (wsq_push J item (set_worker i w s))
      | (None, w) \<Rightarrow> move_to_global W J i n (set_worker i w s))"

definition wlq_push ::
  "('w, 'a) worker_ops \<Rightarrow> ('i, 'a) injector_ops \<Rightarrow> 'a \<Rightarrow> ('w, 'i) wsq \<Rightarrow> wlq \<Rightarrow> ('w, 'i) wsq" where
  "wlq_push W J item s h =
     (case wk_push W item (own_worker s h) of
        Some w \<Rightarrow> set_worker (lq_queue h) w s
      | None \<Rightarrow> wsq_push J item (move_to_global W J (lq_queue h) (wlq_len W s h div 2) s))"

definition wlq_do_tick :: "wlq \<Rightarrow> u32 \<times> wlq" where
  "wlq_do_tick h =
     (let val = lq_tick h
      in if val = - 1 then (0, h\<lparr>lq_tick := 0\<rparr>) else (sat_add val 1, h\<lparr>lq_tick := val + 1\<rparr>))"

text \<open>
  The stealing loop. The self-steal guard compares the addresses of two reference variables and
  never holds, as in the ordered queue.
\<close>

fun wlq_steal_siblings ::
  "('w, 'a) worker_ops \<Rightarrow> nat \<Rightarrow> nat list \<Rightarrow> ('w, 'i) wsq \<Rightarrow> wlq \<Rightarrow> bool \<times> ('w, 'i) wsq" where
  "wlq_steal_siblings W start [] s h = (False, s)"
| "wlq_steal_siblings W start (i # is) s h =
     (let j = (start + i) mod length (ws_local_queues s);
          another = ws_local_queues s ! j
      in if \<not> wlq_can_steal W s h then (False, s)
         else if wk_is_empty W another then wlq_steal_siblings W start is s h
         else case wk_steal W another (own_worker s h)
                (\<lambda>n. min (min n (wlq_max_steal W s h))
                   (usat_add (wk_capacity W another - wk_spare_capacity W another) 1 div 2)) of
                None \<Rightarrow> wlq_steal_siblings W start is s h
              | Some (another', own') \<Rightarrow>
                  (True, set_worker (lq_queue h) own' (set_worker j another' s)))"

definition wlq_pop_own ::
  "('w, 'a) worker_ops \<Rightarrow> ('w, 'i) wsq \<Rightarrow> wlq \<Rightarrow> 'a option \<times> ('w, 'i) wsq" where
  "wlq_pop_own W s h =
     (let (r, w) = wk_pop W (own_worker s h) in (r, set_worker (lq_queue h) w s))"

definition wlq_pop ::
  "('w, 'a) worker_ops \<Rightarrow> ('i, 'a) injector_ops \<Rightarrow> nat \<Rightarrow> ('w, 'i) wsq \<Rightarrow> wlq
    \<Rightarrow> ('a option \<times> ('w, 'i) wsq \<times> wlq) option" where
  "wlq_pop W J start s h =
     (let (t, h1) = wlq_do_tick h;
          shared_pop = (\<lambda>s' h'. map_option (\<lambda>(r, s''). (r, s'', h')) (wsq_pop J s'))
      in case (if t mod 61 = 0 then wsq_pop J s else Some (None, s)) of
           None \<Rightarrow> None
         | Some (Some val, s1) \<Rightarrow> Some (Some val, s1, h1)
         | Some (None, s1) \<Rightarrow>
             (case wlq_pop_own W s1 h1 of
                (Some val, s2) \<Rightarrow> Some (Some val, s2, h1)
              | (None, s2) \<Rightarrow>
                  if \<not> lq_stealing h1 then
                    (case wlq_steal_siblings W start [0..<length (ws_local_queues s2)] s2
                            (h1\<lparr>lq_stealing := True\<rparr>) of
                       (True, s3) \<Rightarrow>
                         (case wlq_pop_own W s3 h1 of (r, s4) \<Rightarrow> Some (r, s4, h1\<lparr>lq_stealing := False\<rparr>))
                     | (False, s3) \<Rightarrow> shared_pop s3 (h1\<lparr>lq_stealing := False\<rparr>))
                  else shared_pop s2 h1))"

definition wlq_drop :: "('w, 'a) worker_ops \<Rightarrow> ('w, 'i) wsq \<Rightarrow> wlq \<Rightarrow> ('e, unit) rust" where
  "wlq_drop W s h =
     (if fst (wk_pop W (own_worker s h)) = None then Ok () else Panic ''local queue not empty'')"

definition wsq_drop ::
  "('w, 'a) worker_ops \<Rightarrow> ('i, 'a) injector_ops \<Rightarrow> ('w, 'i) wsq \<Rightarrow> ('e, unit) rust" where
  "wsq_drop W J s =
     (if list_all (\<lambda>w. fst (wk_pop W w) = None) (ws_local_queues s)
      then (case wsq_pop J s of
              None \<Rightarrow> Hang
            | Some (None, s') \<Rightarrow> Ok ()
            | Some (Some x, s') \<Rightarrow> Panic ''global queue not empty'')
      else Panic ''local queue not empty'')"

section \<open>Laws of the operations\<close>

definition wsq_bag :: "('w \<Rightarrow> 'a list) \<Rightarrow> ('i \<Rightarrow> 'a list) \<Rightarrow> ('w, 'i) wsq \<Rightarrow> 'a multiset" where
  "wsq_bag items jitems s =
     mset (jitems (ws_shared_queue s)) + (\<Sum>w\<leftarrow>ws_local_queues s. mset (items w))"

definition wsq_ok :: "('i \<Rightarrow> 'a list) \<Rightarrow> ('w, 'i) wsq \<Rightarrow> bool" where
  "wsq_ok jitems s \<longleftrightarrow> ws_len s = length (jitems (ws_shared_queue s))"

definition wsq_popped ::
  "('w \<Rightarrow> 'a list) \<Rightarrow> ('i \<Rightarrow> 'a list) \<Rightarrow> 'a option \<Rightarrow> ('w, 'i) wsq \<Rightarrow> ('w, 'i) wsq \<Rightarrow> bool" where
  "wsq_popped items jitems r s s' \<longleftrightarrow> wsq_ok jitems s'
     \<and> length (ws_local_queues s') = length (ws_local_queues s)
     \<and> wsq_bag items jitems s = wsq_bag items jitems s' + mset_option r"

lemma mset_set_worker:
  assumes "i < length (ws_local_queues s)"
  shows "wsq_bag items jitems (set_worker i w s) + mset (items (ws_local_queues s ! i)) =
           wsq_bag items jitems s + mset (items w)"
  using sum_list_update_multiset [OF assms, of "\<lambda>w. mset (items w)" w]
  by (simp add: wsq_bag_def)

lemma set_worker_ok [simp]: "wsq_ok jitems (s\<lparr>ws_local_queues := qs\<rparr>) = wsq_ok jitems s"
  by (simp add: wsq_ok_def)

lemma wsq_popped_after:
  assumes "wsq_popped items jitems r s1 s'" and "wsq_bag items jitems s1 = wsq_bag items jitems s"
    and "length (ws_local_queues s1) = length (ws_local_queues s)"
  shows "wsq_popped items jitems r s s'"
  using assms by (simp add: wsq_popped_def)

context deques
begin

lemma wsq_push_law:
  "wsq_ok jitems s \<Longrightarrow> length (jitems (ws_shared_queue s)) < usize_max \<Longrightarrow> wsq_ok jitems (wsq_push J x s)"
  "wsq_bag items jitems (wsq_push J x s) = add_mset x (wsq_bag items jitems s)"
  "ws_local_queues (wsq_push J x s) = ws_local_queues s"
  by (simp_all add: wsq_ok_def wsq_push_def wsq_bag_def jpush)

lemma wsq_pop_law:
  assumes "wsq_ok jitems s"
  shows "\<exists>r s'. wsq_pop J s = Some (r, s') \<and> wsq_popped items jitems r s s'
     \<and> ws_local_queues s' = ws_local_queues s \<and> (r = None \<longrightarrow> jitems (ws_shared_queue s) = [])"
proof (cases "wsq_is_empty s")
  case True
  with assms show ?thesis by (simp add: wsq_pop_def wsq_popped_def wsq_is_empty_def wsq_ok_def)
next
  case False
  obtain r j where "inj_steal_loop J (ws_shared_queue s) = Some (r, j)"
    "case r of None \<Rightarrow> jitems (ws_shared_queue s) = [] \<and> jitems j = []
      | Some x \<Rightarrow> jitems (ws_shared_queue s) = x # jitems j"
    using inj_steal_loop_correct [of "ws_shared_queue s"] by blast
  with False assms show ?thesis
    by (cases r) (simp_all add: wsq_pop_def wsq_popped_def wsq_ok_def wsq_bag_def)
qed

lemma wlq_pop_own_law:
  assumes "wsq_ok jitems s" and i: "lq_queue h < length (ws_local_queues s)"
    and pop: "wlq_pop_own W s h = (r, s')"
  shows "wsq_popped items jitems r s s'" and "r = None \<longleftrightarrow> items (own_worker s h) = []"
    and "ws_shared_queue s' = ws_shared_queue s"
    and "r = None \<Longrightarrow> items (own_worker s' h) = []"
proof -
  obtain w where w: "wk_pop W (own_worker s h) = (r, w)" and s': "s' = set_worker (lq_queue h) w s"
    using pop by (auto simp: wlq_pop_own_def Let_def split: prod.splits)
  have own: "mset (items (own_worker s h)) = mset (items w) + mset_option r"
    and e: "r = None \<longleftrightarrow> items (own_worker s h) = []" and e': "r = None \<Longrightarrow> items w = []"
    using w wpop_None [of "own_worker s h" w] wpop_Some [of "own_worker s h" _ w]
    by (cases r; simp)+
  have "wsq_bag items jitems s + mset (items w) = wsq_bag items jitems s' + mset_option r + mset (items w)"
    using mset_set_worker [OF i, of items jitems w] own by (simp add: s' ac_simps)
  then show "wsq_popped items jitems r s s'"
    using assms(1) by (simp add: wsq_popped_def s')
  show "r = None \<longleftrightarrow> items (own_worker s h) = []" by (rule e)
  show "ws_shared_queue s' = ws_shared_queue s" by (simp add: s')
  show "r = None \<Longrightarrow> items (own_worker s' h) = []" using i e' by (simp add: s')
qed

lemma move_to_global_law:
  assumes "wsq_ok jitems s" and "i < length (ws_local_queues s)"
    and "size (wsq_bag items jitems s) \<le> usize_max"
  shows "wsq_ok jitems (move_to_global W J i n s)
     \<and> wsq_bag items jitems (move_to_global W J i n s) = wsq_bag items jitems s
     \<and> length (ws_local_queues (move_to_global W J i n s)) = length (ws_local_queues s)"
  using assms
proof (induction n arbitrary: s)
  case (Suc n)
  obtain r w where pop: "wk_pop W (ws_local_queues s ! i) = (r, w)" by fastforce
  define s1 where "s1 = set_worker i w s"
  define s2 where "s2 = (case r of None \<Rightarrow> s1 | Some x \<Rightarrow> wsq_push J x s1)"
  have own: "wlq_pop_own W s \<lparr>lq_tick = 0, lq_stealing = False, lq_queue = i\<rparr> = (r, s1)"
    by (simp add: wlq_pop_own_def pop s1_def)
  have p: "wsq_popped items jitems r s s1"
    using wlq_pop_own_law(1) [OF Suc.prems(1) _ own] Suc.prems(2) by simp
  have bag: "wsq_bag items jitems s2 = wsq_bag items jitems s"
    and len: "length (ws_local_queues s2) = length (ws_local_queues s)"
    using p wsq_push_law by (cases r; simp add: s2_def wsq_popped_def)+
  have "r \<noteq> None \<Longrightarrow> size (wsq_bag items jitems s1) < usize_max"
    using p Suc.prems(3) by (auto simp: wsq_popped_def)
  then have ok: "wsq_ok jitems s2"
    using p wsq_push_law(1) [where s = s1] by (cases r) (simp_all add: s2_def wsq_popped_def wsq_bag_def)
  have "move_to_global W J i (Suc n) s = move_to_global W J i n s2"
    by (cases r) (simp_all add: pop s2_def s1_def)
  with Suc.IH [OF ok] bag len Suc.prems show ?case by simp
qed simp

text \<open>A local push always returns and adds exactly its item.\<close>

lemma wlq_push_law:
  assumes "wsq_ok jitems s" and i: "lq_queue h < length (ws_local_queues s)"
    and room: "size (wsq_bag items jitems s) < usize_max"
  shows "wsq_ok jitems (wlq_push W J x s h)
     \<and> wsq_bag items jitems (wlq_push W J x s h) = add_mset x (wsq_bag items jitems s)
     \<and> length (ws_local_queues (wlq_push W J x s h)) = length (ws_local_queues s)"
proof (cases "wk_push W x (own_worker s h)")
  case None
  define s1 where "s1 = move_to_global W J (lq_queue h) (wlq_len W s h div 2) s"
  have law: "wsq_ok jitems s1" "wsq_bag items jitems s1 = wsq_bag items jitems s"
    "length (ws_local_queues s1) = length (ws_local_queues s)"
    using move_to_global_law [OF assms(1) i, of "wlq_len W s h div 2"] room by (simp_all add: s1_def)
  moreover have "length (jitems (ws_shared_queue s1)) < usize_max"
    using room unfolding law(2) [symmetric] by (simp add: wsq_bag_def)
  ultimately show ?thesis
    using None wsq_push_law [where s = s1 and x = x] by (simp add: wlq_push_def s1_def [symmetric])
next
  case (Some w)
  then have "items w = items (own_worker s h) @ [x]" using wpush by blast
  with mset_set_worker [OF i, of items jitems w] have
    "wsq_bag items jitems (set_worker (lq_queue h) w s) = add_mset x (wsq_bag items jitems s)" by simp
  with Some assms(1) show ?thesis by (simp add: wlq_push_def)
qed

lemma steal_worker_bag:
  assumes "i < length (ws_local_queues s)" and "j < length (ws_local_queues s)" and "i \<noteq> j"
    and emp: "items (ws_local_queues s ! j) = []"
    and steal: "wk_steal W (ws_local_queues s ! i) (ws_local_queues s ! j) f = Some (a, b)"
  shows "wsq_bag items jitems (set_worker j b (set_worker i a s)) = wsq_bag items jitems s"
    and "items b \<noteq> []"
proof -
  obtain n where n: "0 < n" "n \<le> length (items (ws_local_queues s ! i))"
      "items a = drop n (items (ws_local_queues s ! i))"
      "items b = take n (items (ws_local_queues s ! i))"
    using wsteal [OF steal] emp by auto
  have split: "mset (items (ws_local_queues s ! i)) = mset (items a) + mset (items b)"
    unfolding n by (metis append_take_drop_id mset_append union_commute)
  have "wsq_bag items jitems (set_worker j b (set_worker i a s)) =
      wsq_bag items jitems (set_worker i a s) + mset (items b)"
    using mset_set_worker [of j "set_worker i a s" items jitems b] assms by simp
  moreover have "wsq_bag items jitems (set_worker i a s) + mset (items b) = wsq_bag items jitems s"
    using mset_set_worker [OF assms(1), of items jitems a] unfolding split by simp
  ultimately show "wsq_bag items jitems (set_worker j b (set_worker i a s)) = wsq_bag items jitems s"
    by simp
  show "items b \<noteq> []" using n by auto
qed

lemma wlq_steal_siblings_law:
  assumes "wsq_ok jitems s" and "lq_queue h < length (ws_local_queues s)"
    and "items (own_worker s h) = []"
    and "wlq_steal_siblings W start is s h = (b, s')"
  shows "wsq_ok jitems s' \<and> wsq_bag items jitems s' = wsq_bag items jitems s
     \<and> length (ws_local_queues s') = length (ws_local_queues s)
     \<and> ws_shared_queue s' = ws_shared_queue s \<and> (b \<longleftrightarrow> items (own_worker s' h) \<noteq> [])"
  using assms
proof (induction "is")
  case (Cons i "is")
  define j where "j = (start + i) mod length (ws_local_queues s)"
  define f where "f = (\<lambda>n. min (min n (wlq_max_steal W s h))
    (usat_add (wk_capacity W (ws_local_queues s ! j) - wk_spare_capacity W (ws_local_queues s ! j)) 1 div 2))"
  have j: "j < length (ws_local_queues s)" using Cons.prems(2) by (auto simp: j_def intro!: mod_less_divisor)
  note IH = Cons.IH [OF Cons.prems(1-3)]
  have step: "(if \<not> wlq_can_steal W s h then (False, s)
         else if items (ws_local_queues s ! j) = [] then wlq_steal_siblings W start is s h
         else case wk_steal W (ws_local_queues s ! j) (own_worker s h) f of
                None \<Rightarrow> wlq_steal_siblings W start is s h
              | Some (another', own') \<Rightarrow>
                  (True, set_worker (lq_queue h) own' (set_worker j another' s))) = (b, s')"
    using Cons.prems(4)
    unfolding wlq_steal_siblings.simps Let_def j_def [symmetric] f_def [symmetric] wempty .
  consider "\<not> wlq_can_steal W s h"
    | "wlq_steal_siblings W start is s h = (b, s')"
    | a own where "items (ws_local_queues s ! j) \<noteq> []"
        "wk_steal W (ws_local_queues s ! j) (own_worker s h) f = Some (a, own)"
        "b" "s' = set_worker (lq_queue h) own (set_worker j a s)"
    using step by (auto split: if_splits option.splits)
  then show ?case
  proof cases
    case 1
    with step Cons.prems show ?thesis by simp
  next
    case 2
    then show ?thesis by (rule IH)
  next
    case (3 a own)
    then have "j \<noteq> lq_queue h" using Cons.prems(3) by auto
    from steal_worker_bag [OF j Cons.prems(2) this Cons.prems(3) 3(2)]
      Cons.prems(1,2) 3(3) show ?thesis by (simp add: 3(4))
  qed
qed simp

text \<open>\<open>pop\<close> always returns; \<open>None\<close> means that the own and the global queue were empty.\<close>

lemma wlq_pop_law:
  assumes ok: "wsq_ok jitems s" and i: "lq_queue h < length (ws_local_queues s)"
  shows "\<exists>r s' h'. wlq_pop W J start s h = Some (r, s', h') \<and> wsq_popped items jitems r s s'
     \<and> lq_queue h' = lq_queue h \<and> lq_stealing h' = lq_stealing h
     \<and> (r = None \<longrightarrow> items (own_worker s h) = [] \<and> jitems (ws_shared_queue s) = [])"
proof -
  obtain t h1 where tick: "wlq_do_tick h = (t, h1)" by fastforce
  have h1: "lq_queue h1 = lq_queue h" "lq_stealing h1 = lq_stealing h"
    using tick by (auto simp: wlq_do_tick_def Let_def split: if_splits)
  obtain r0 s0 where pop0: "wsq_pop J s = Some (r0, s0)" "wsq_popped items jitems r0 s s0"
    "ws_local_queues s0 = ws_local_queues s" using wsq_pop_law [OF ok] by blast
  have none: "wsq_popped items jitems None s s" using ok by (simp add: wsq_popped_def)
  obtain r1 s1 where first: "(if t mod 61 = 0 then wsq_pop J s else Some (None, s)) = Some (r1, s1)"
    "wsq_popped items jitems r1 s s1" "ws_local_queues s1 = ws_local_queues s"
    using pop0 none by (cases "t mod 61 = 0") simp_all
  show ?thesis
  proof (cases r1)
    case (Some x)
    with first tick h1 show ?thesis by (simp add: wlq_pop_def)
  next
    case None
    have b1: "wsq_bag items jitems s1 = wsq_bag items jitems s" and ok1: "wsq_ok jitems s1"
      using first(2) None by (simp_all add: wsq_popped_def)
    have sh1: "jitems (ws_shared_queue s1) = [] \<Longrightarrow> jitems (ws_shared_queue s) = []"
      using b1 first(3) by (simp add: wsq_bag_def)
    have i1: "lq_queue h1 < length (ws_local_queues s1)" using i h1 first(3) by simp
    obtain r2 s2 where own: "wlq_pop_own W s1 h1 = (r2, s2)" by fastforce
    note law2 = wlq_pop_own_law [OF ok1 i1 own]
    have p2: "wsq_popped items jitems r2 s s2"
      by (rule wsq_popped_after [OF law2(1) b1]) (simp add: first(3))
    show ?thesis
    proof (cases r2)
      case (Some x)
      with None first(1) tick h1 own p2 show ?thesis by (simp add: wlq_pop_def)
    next
      case r2: None
      have b2: "wsq_bag items jitems s2 = wsq_bag items jitems s" and ok2: "wsq_ok jitems s2"
        and l2: "length (ws_local_queues s2) = length (ws_local_queues s)"
        using p2 by (simp_all add: wsq_popped_def r2)
      have emp: "items (own_worker s h) = []" using law2(2) by (simp add: r2 first(3) h1)
      have emp2: "items (own_worker s2 h1) = []" using law2(4) by (simp add: r2)
      define b3 where "b3 = (if lq_stealing h1 then (False, s2)
        else wlq_steal_siblings W start [0..<length (ws_local_queues s2)] s2 (h1\<lparr>lq_stealing := True\<rparr>))"
      obtain b s3 where bs: "b3 = (b, s3)" by fastforce
      have i2: "lq_queue h1 < length (ws_local_queues s2)" using i l2 h1 by simp
      have law3: "wsq_ok jitems s3 \<and> wsq_bag items jitems s3 = wsq_bag items jitems s2
         \<and> length (ws_local_queues s3) = length (ws_local_queues s2)
         \<and> ws_shared_queue s3 = ws_shared_queue s2 \<and> (b \<longleftrightarrow> items (own_worker s3 h1) \<noteq> [])"
      proof (cases "lq_stealing h1")
        case True
        with bs ok2 emp2 show ?thesis by (simp add: b3_def)
      next
        case False
        with bs show ?thesis
          using wlq_steal_siblings_law [of s2 "h1\<lparr>lq_stealing := True\<rparr>"] ok2 i2 emp2
          by (simp add: b3_def)
      qed
      define h3 where "h3 = (if lq_stealing h1 then h1 else h1\<lparr>lq_stealing := False\<rparr>)"
      have h3: "lq_queue h3 = lq_queue h" "lq_stealing h3 = lq_stealing h"
        using h1 by (simp_all add: h3_def)
      have eq: "wlq_pop W J start s h = (if b then (case wlq_pop_own W s3 h1 of (r, s4) \<Rightarrow> Some (r, s4, h3))
          else map_option (\<lambda>(r, s''). (r, s'', h3)) (wsq_pop J s3))"
        using tick first(1) None own r2 bs
        by (cases b; cases "lq_stealing h1") (simp_all add: wlq_pop_def b3_def h3_def)
      have i3: "lq_queue h1 < length (ws_local_queues s3)" using i2 law3 by simp
      show ?thesis
      proof (cases b)
        case True
        obtain r s4 where pop: "wlq_pop_own W s3 h1 = (r, s4)" by fastforce
        have ok3: "wsq_ok jitems s3" using law3 by blast
        note law4 = wlq_pop_own_law [OF ok3 i3 pop]
        have "wsq_popped items jitems r s s4"
          by (rule wsq_popped_after [OF law4(1)]) (use law3 b2 l2 in simp_all)
        moreover have "r \<noteq> None" using law4(2) law3 True by blast
        ultimately show ?thesis using eq True pop h3 by auto
      next
        case False
        have ok3: "wsq_ok jitems s3" using law3 by blast
        obtain r s4 where pop: "wsq_pop J s3 = Some (r, s4)" "wsq_popped items jitems r s3 s4"
          "r = None \<longrightarrow> jitems (ws_shared_queue s3) = []"
          using wsq_pop_law [OF ok3] by blast
        have "wsq_popped items jitems r s s4"
          by (rule wsq_popped_after [OF pop(2)]) (use law3 b2 l2 in simp_all)
        moreover have "r = None \<longrightarrow> jitems (ws_shared_queue s) = []"
          using pop(3) law3 law2(3) sh1 by auto
        ultimately show ?thesis using eq False pop(1) h3 emp by auto
      qed
    qed
  qed
qed

end

section \<open>The interleaved system\<close>

record ('w, 'i) wss_system =
  wy_queue :: "('w, 'i) wsq"
  wy_handles :: "wlq list"

datatype 'a wss_op =
    Ws_push 'a
  | Ws_pop
  | Ws_local_queue
  | Ws_local_push nat 'a
  | Ws_local_pop nat nat

fun wss_exec ::
  "('w, 'a) worker_ops \<Rightarrow> ('i, 'a) injector_ops \<Rightarrow> 'a wss_op \<Rightarrow> ('w, 'i) wss_system
    \<Rightarrow> ('a option \<times> ('w, 'i) wss_system) option" where
  "wss_exec W J (Ws_push x) y = Some (None, y\<lparr>wy_queue := wsq_push J x (wy_queue y)\<rparr>)"
| "wss_exec W J Ws_pop y =
     map_option (\<lambda>(r, s). (r, y\<lparr>wy_queue := s\<rparr>)) (wsq_pop J (wy_queue y))"
| "wss_exec W J Ws_local_queue y =
     (case (wsq_local_queue (wy_queue y) :: (unit, wlq \<times> ('w, 'i) wsq) rust) of
        Ok (h, s) \<Rightarrow> Some (None, \<lparr>wy_queue = s, wy_handles = wy_handles y @ [h]\<rparr>)
      | _ \<Rightarrow> None)"
| "wss_exec W J (Ws_local_push i x) y =
     (if i < length (wy_handles y)
      then Some (None, y\<lparr>wy_queue := wlq_push W J x (wy_queue y) (wy_handles y ! i)\<rparr>)
      else None)"
| "wss_exec W J (Ws_local_pop i start) y =
     (if i < length (wy_handles y)
      then map_option (\<lambda>(r, s, h). (r, \<lparr>wy_queue = s, wy_handles = (wy_handles y)[i := h]\<rparr>))
             (wlq_pop W J start (wy_queue y) (wy_handles y ! i))
      else None)"

text \<open>The operations a caller can issue: on a handle it was given, on a queue with workers.\<close>

fun wss_enabled :: "('w, 'i) wss_system \<Rightarrow> 'a wss_op \<Rightarrow> bool" where
  "wss_enabled y (Ws_local_push i x) \<longleftrightarrow> i < length (wy_handles y)"
| "wss_enabled y (Ws_local_pop i start) \<longleftrightarrow> i < length (wy_handles y)"
| "wss_enabled y Ws_local_queue \<longleftrightarrow> ws_local_queues (wy_queue y) \<noteq> []"
| "wss_enabled y _ \<longleftrightarrow> True"

fun wss_input :: "'a wss_op \<Rightarrow> 'a multiset" where
  "wss_input (Ws_push x) = {#x#}"
| "wss_input (Ws_local_push i x) = {#x#}"
| "wss_input _ = {#}"

inductive wss_reach ::
  "('w, 'a) worker_ops \<Rightarrow> ('i, 'a) injector_ops \<Rightarrow> nat \<Rightarrow> nat \<Rightarrow> 'a multiset \<Rightarrow> 'a multiset
    \<Rightarrow> ('w, 'i) wss_system \<Rightarrow> bool"
  for W J n c where
  wss_start: "wss_reach W J n c {#} {#} \<lparr>wy_queue = wsq_new W J n c, wy_handles = []\<rparr>"
| wss_step: "wss_reach W J n c inp out y \<Longrightarrow> wss_exec W J opr y = Some (r, y') \<Longrightarrow>
    wss_reach W J n c (inp + wss_input opr) (out + mset_option r) y'"

definition wss_ok :: "('i \<Rightarrow> 'a list) \<Rightarrow> ('w, 'i) wss_system \<Rightarrow> bool" where
  "wss_ok jitems y \<longleftrightarrow> wsq_ok jitems (wy_queue y)
     \<and> (\<forall>h\<in>set (wy_handles y). lq_queue h < length (ws_local_queues (wy_queue y)))"

lemma wss_ok_handle:
  "wss_ok jitems y \<Longrightarrow> i < length (wy_handles y) \<Longrightarrow>
     lq_queue (wy_handles y ! i) < length (ws_local_queues (wy_queue y))"
  by (simp add: wss_ok_def)

lemma wss_ok_update:
  assumes "wss_ok jitems y" and "wsq_ok jitems s"
    and "length (ws_local_queues s) = length (ws_local_queues (wy_queue y))"
    and "lq_queue h < length (ws_local_queues (wy_queue y))"
  shows "wss_ok jitems \<lparr>wy_queue = s, wy_handles = (wy_handles y)[i := h]\<rparr>"
  using assms set_update_subset_insert [of "wy_handles y" i h] by (auto simp: wss_ok_def)

context deques
begin

abbreviation wss_bag :: "('w, 'i) wss_system \<Rightarrow> 'a multiset" where
  "wss_bag y \<equiv> wsq_bag items jitems (wy_queue y)"

text \<open>Every enabled operation returns, keeps the invariant and accounts for every item.\<close>

lemma wss_exec_law:
  assumes ok: "wss_ok jitems y" and room: "size (wss_bag y) + size (wss_input opr) \<le> usize_max"
    and en: "wss_enabled y opr"
  shows "\<exists>r y'. wss_exec W J opr y = Some (r, y') \<and> wss_ok jitems y'
     \<and> wss_bag y + wss_input opr = wss_bag y' + mset_option r"
proof -
  have q: "wsq_ok jitems (wy_queue y)" using ok by (simp add: wss_ok_def)
  show ?thesis
  proof (cases opr)
    case (Ws_push x)
    have "length (jitems (ws_shared_queue (wy_queue y))) < usize_max"
      using room by (simp add: Ws_push wsq_bag_def)
    with Ws_push ok q show ?thesis
      using wsq_push_law [where s = "wy_queue y" and x = x] by (simp add: wss_ok_def)
  next
    case Ws_pop
    obtain r s where "wsq_pop J (wy_queue y) = Some (r, s)" "wsq_popped items jitems r (wy_queue y) s"
      using wsq_pop_law [OF q] by blast
    with Ws_pop ok show ?thesis by (simp add: wss_ok_def wsq_popped_def)
  next
    case Ws_local_queue
    with ok en show ?thesis
      by (auto simp: wsq_local_queue_def Let_def wss_ok_def wsq_ok_def wsq_bag_def)
  next
    case (Ws_local_push i x)
    with en have i: "i < length (wy_handles y)" by simp
    have "size (wsq_bag items jitems (wy_queue y)) < usize_max" using room by (simp add: Ws_local_push)
    from wlq_push_law [OF q wss_ok_handle [OF ok i] this, of x] ok i show ?thesis
      by (simp add: Ws_local_push wss_ok_def)
  next
    case (Ws_local_pop i start)
    with en have i: "i < length (wy_handles y)" by simp
    obtain r s h where pop: "wlq_pop W J start (wy_queue y) (wy_handles y ! i) = Some (r, s, h)"
      and law: "wsq_popped items jitems r (wy_queue y) s" "lq_queue h = lq_queue (wy_handles y ! i)"
      using wlq_pop_law [OF q wss_ok_handle [OF ok i]] by blast
    have "wss_ok jitems \<lparr>wy_queue = s, wy_handles = (wy_handles y)[i := h]\<rparr>"
      using law wss_ok_handle [OF ok i] by (intro wss_ok_update [OF ok]) (simp_all add: wsq_popped_def)
    with pop law i show ?thesis by (simp add: Ws_local_pop wsq_popped_def)
  qed
qed

lemma wss_exec_enabled: "wss_exec W J opr y = Some r \<Longrightarrow> wss_enabled y opr"
  by (cases opr) (auto simp: wsq_local_queue_def split: if_splits)

lemma wss_reach_law:
  assumes "wss_reach W J n c inp out y" and "size inp \<le> usize_max"
  shows "wss_ok jitems y \<and> inp = out + wss_bag y"
  using assms
proof (induction rule: wss_reach.induct)
  case wss_start
  have "(\<Sum>w\<leftarrow>map (\<lambda>_. wk_new W c) [0..<n]. mset (items w)) = {#}"
    by (induction n) (simp_all add: wnew)
  then show ?case by (simp add: wss_ok_def wsq_ok_def wsq_new_def wsq_bag_def jnew comp_def)
next
  case (wss_step inp out y opr r y')
  have IH: "wss_ok jitems y" "inp = out + wss_bag y" using wss_step.IH wss_step.prems by simp_all
  have "size (wss_bag y) + size (wss_input opr) \<le> usize_max"
    using wss_step.prems IH(2) by simp
  from wss_exec_law [OF IH(1) this wss_exec_enabled [OF wss_step.hyps(2)]] wss_step.hyps(2)
  show ?case unfolding IH(2) by (auto simp: ac_simps)
qed

end

section \<open>Properties\<close>

text \<open>
  C6. The queue without priorities loses and duplicates nothing, and none of its operations
  blocks: in every system reached by any interleaving, the items pushed are those popped plus
  those queued, and every further operation a caller can issue returns.
\<close>

theorem work_steal_conservation:
  assumes "deques W items J jitems retries"
    and "wss_reach W J n c inp out y" and "size inp < usize_max"
  shows "inp = out + wsq_bag items jitems (wy_queue y)
    \<and> (wss_enabled y opr \<longrightarrow> wss_exec W J opr y \<noteq> None)"
proof -
  have law: "wss_ok jitems y \<and> inp = out + wsq_bag items jitems (wy_queue y)"
    using deques.wss_reach_law [OF assms(1,2)] assms(3) by simp
  have "size (wss_input opr) \<le> 1" by (cases opr) simp_all
  with law assms(3) have "size (wsq_bag items jitems (wy_queue y)) + size (wss_input opr) \<le> usize_max"
    by simp
  with law deques.wss_exec_law [OF assms(1), of y opr] show ?thesis by auto
qed

definition wss_demo :: "(nat \<times> nat list, nat list) wss_system" where
  "wss_demo =
     \<lparr>wy_queue = \<lparr>ws_shared_queue = [7], ws_len = 1, ws_local_queues = [(2, []), (2, [])], ws_index = 1\<rparr>,
      wy_handles = [\<lparr>lq_tick = 0, lq_stealing = False, lq_queue = 0\<rparr>]\<rparr>"

lemma wss_demo_reach: "wss_reach fifo_worker fifo_injector 2 2 {#7#} {#} wss_demo"
proof -
  have "wss_exec fifo_worker fifo_injector Ws_local_queue
      \<lparr>wy_queue = wsq_new fifo_worker fifo_injector 2 2, wy_handles = []\<rparr> =
      Some (None, \<lparr>wy_queue = \<lparr>ws_shared_queue = [], ws_len = 0,
         ws_local_queues = [(2, []), (2, [])], ws_index = 1\<rparr>,
         wy_handles = [\<lparr>lq_tick = 0, lq_stealing = False, lq_queue = 0\<rparr>]\<rparr> ::
           (nat \<times> nat list, nat list) wss_system)"
    by code_simp
  from wss_step [OF wss_step [OF wss_start this], of "Ws_push 7" None wss_demo]
  show ?thesis by (simp add: wss_demo_def wsq_push_def usize_max_def)
qed

theorem work_steal_conservation_witness:
  "{#7#} = {#} + wsq_bag fifo_items (\<lambda>xs. xs) (wy_queue wss_demo)
    \<and> wss_exec fifo_worker fifo_injector (Ws_local_pop 0 1) wss_demo \<noteq> None"
  using work_steal_conservation [OF fifo.deques_axioms wss_demo_reach, of "Ws_local_pop 0 1"]
  by (simp add: usize_max_def wss_demo_def)

end
