(* ===== verification/OC_Constants.thy ===== *)
theory OC_Constants
  imports OC_Prelude
begin

text \<open>
  The enumerations and constants of \<^verbatim>\<open>core/src/common/constants.rs\<close>: pool state, syscall name,
  syscall state and coroutine state. Constructors carry a prefix (\<open>Ps_\<close>, \<open>Sn_\<close>, \<open>Ss_\<close>,
  \<open>Cs_\<close>) because the Rust enums share variant names. \<open>syscall_name\<close> holds the variants of
  every platform; the platform that selects among them is an argument of \<open>nio\<close>.
\<close>

definition DEFAULT_STACK_SIZE :: nat where
  "DEFAULT_STACK_SIZE = 128 * 1024"

definition IO_URING_TIMEOUT_USERDATA :: u64 where
  "IO_URING_TIMEOUT_USERDATA = u64_max - 1"

text \<open>A \<open>Duration\<close> is its number of nanoseconds; \<open>SLICE\<close> is 10 ms.\<close>

definition SLICE :: nat where
  "SLICE = 10 * 1000000"

datatype pool_state = Ps_Running | Ps_Stopping | Ps_Stopped

datatype syscall_name =
    Sn_Sleep | Sn_sleep | Sn_usleep | Sn_nanosleep | Sn_poll | Sn_select | Sn_accept4
  | Sn_epoll_ctl | Sn_epoll_wait | Sn_io_uring_enter | Sn_kevent | Sn_iocp | Sn_setsockopt
  | Sn_recv | Sn_WSARecv | Sn_recvfrom | Sn_read | Sn_pread | Sn_readv | Sn_preadv | Sn_recvmsg
  | Sn_connect | Sn_listen | Sn_accept | Sn_WSAAccept | Sn_shutdown | Sn_close | Sn_socket
  | Sn_WSASocketW | Sn_ioctlsocket | Sn_send | Sn_WSASend | Sn_sendto | Sn_write | Sn_pwrite
  | Sn_writev | Sn_pwritev | Sn_sendmsg | Sn_fsync | Sn_renameat | Sn_renameat2 | Sn_mkdir
  | Sn_mkdirat | Sn_rmdir | Sn_lseek | Sn_openat | Sn_link | Sn_unlink
  | Sn_pthread_cond_timedwait | Sn_pthread_mutex_trylock | Sn_pthread_mutex_lock
  | Sn_pthread_mutex_unlock | Sn_CreateFileW | Sn_SetFilePointerEx | Sn_WaitOnAddress
  | Sn_WSAPoll | Sn_panicking

datatype target_os = Linux | Bsd_like | Windows

fun nio :: "target_os \<Rightarrow> syscall_name" where
  "nio Linux = Sn_epoll_wait"
| "nio Bsd_like = Sn_kevent"
| "nio Windows = Sn_iocp"

datatype syscall_state = Ss_Executing | Ss_Suspend u64 | Ss_Timeout | Ss_Callback

datatype ('y, 'r) coroutine_state =
    Cs_Ready
  | Cs_Running
  | Cs_Suspend 'y u64
  | Cs_Syscall 'y syscall_name syscall_state
  | Cs_Cancelled
  | Cs_Complete 'r
  | Cs_Error string

text \<open>The states a coroutine never leaves.\<close>

fun terminal :: "('y, 'r) coroutine_state \<Rightarrow> bool" where
  "terminal Cs_Cancelled = True"
| "terminal (Cs_Complete r) = True"
| "terminal (Cs_Error m) = True"
| "terminal _ = False"

lemma terminal_iff:
  "terminal s \<longleftrightarrow> s = Cs_Cancelled \<or> (\<exists>r. s = Cs_Complete r) \<or> (\<exists>m. s = Cs_Error m)"
  by (cases s) auto

end
