(* ===== verification/OC_Common.thy ===== *)
theory OC_Common
  imports OC_Constants "HOL-Library.While_Combinator"
begin

text \<open>
  \<^verbatim>\<open>core/src/common/mod.rs\<close>: the kernel version code, the clock-based helpers, time slices, the
  cached page size and red zone, and the condition-variable blocker; and
  \<^verbatim>\<open>core/src/config.rs\<close>. The wall clock, the page size the operating system reports and the
  kernel's own version code are arguments.
\<close>

unbundle bit_operations_syntax

section \<open>Kernel version\<close>

definition kernel_version :: "i32 \<Rightarrow> i32 \<Rightarrow> i32 \<Rightarrow> i32" where
  "kernel_version major patchlevel sublevel =
     push_bit 16 major + push_bit 8 patchlevel +
     (if sint sublevel > 255 then 255 else sublevel)"

section \<open>Clock helpers\<close>

text \<open>
  \<open>now\<close> reads the nanoseconds since the epoch, of which the system may report more than a
  \<open>u64\<close> holds; a clock before the epoch panics.
\<close>

definition now :: "nat option \<Rightarrow> ('e, u64) rust" where
  "now since_epoch = (case since_epoch of
       None \<Rightarrow> Panic ''1970-01-01 00:00:00 UTC was {} seconds ago!''
     | Some ns \<Rightarrow> Ok (case u64_try_from ns of None \<Rightarrow> u64_max | Some t \<Rightarrow> t))"

text \<open>The remaining models take the value of \<open>now()\<close> itself.\<close>

definition get_timeout_time :: "u64 \<Rightarrow> nat \<Rightarrow> u64" where
  "get_timeout_time t dur = (case u64_try_from dur of None \<Rightarrow> u64_max | Some d \<Rightarrow> sat_add d t)"

text \<open>
  \<open>get_slices\<close>: the \<open>while\<close> loop, which never ends on an empty slice.
  \<open>checked_sub\<close> cannot fail under the guard.
\<close>

partial_function (option) get_slices_loop :: "nat \<Rightarrow> nat \<Rightarrow> nat list \<Rightarrow> nat list option" where
  "get_slices_loop left_tot slc result =
     (if left_tot > slc
      then get_slices_loop (left_tot - slc) slc (result @ [slc])
      else Some (result @ [left_tot]))"

declare get_slices_loop.simps [code]

definition get_slices :: "nat \<Rightarrow> nat \<Rightarrow> nat list option" where
  "get_slices tot slc = (if tot = 0 then Some [] else get_slices_loop tot slc [])"

section \<open>Cached sizes\<close>

text \<open>The static \<open>AtomicUsize\<close> holds 0 until the first call stores the value.\<close>

definition page_size :: "nat \<Rightarrow> nat \<Rightarrow> nat \<times> nat" where
  "page_size os_page cache = (if cache = 0 then (os_page, os_page) else (cache, cache))"

definition default_red_zone :: "target_os \<Rightarrow> nat \<Rightarrow> nat \<times> nat \<Rightarrow> nat \<times> (nat \<times> nat)" where
  "default_red_zone os os_page caches =
     (let (zone_cache, page_cache) = caches in
      if zone_cache = 0 then
        (let (page, page_cache') = page_size os_page page_cache;
             ret = (if os = Windows then 32 * 1024 + page * 3 else 16 * 1024 + page)
         in (ret, (ret, page_cache')))
      else (zone_cache, caches))"

section \<open>CondvarBlocker\<close>

text \<open>
  The mutex protects one flag. \<open>block\<close> waits while the flag is unset, at most for the given
  time, and clears the flag; \<open>notified\<close> says whether a \<open>notify\<close> arrives during the wait. The result
  tells whether the full time was waited.
\<close>

definition blocker_block :: "bool \<Rightarrow> bool \<Rightarrow> bool \<times> bool" where
  "blocker_block notified condition = (\<not> condition \<and> \<not> notified, False)"

definition blocker_notify :: "bool \<Rightarrow> bool" where
  "blocker_notify condition = True"

section \<open>Config\<close>

record config =
  cf_event_loop_size :: nat
  cf_stack_size :: nat
  cf_min_size :: nat
  cf_max_size :: nat
  cf_keep_alive_time :: u64
  cf_min_memory_count :: nat
  cf_memory_keep_alive_time :: u64
  cf_hook :: bool

definition config_new ::
  "nat \<Rightarrow> nat \<Rightarrow> nat \<Rightarrow> nat \<Rightarrow> u64 \<Rightarrow> nat \<Rightarrow> u64 \<Rightarrow> bool \<Rightarrow> config" where
  "config_new event_loop_size stack_size min_size max_size keep_alive_time min_memory_count
     memory_keep_alive_time hook =
   \<lparr>cf_event_loop_size = event_loop_size, cf_stack_size = stack_size, cf_min_size = min_size,
    cf_max_size = max_size, cf_keep_alive_time = keep_alive_time,
    cf_min_memory_count = min_memory_count,
    cf_memory_keep_alive_time = memory_keep_alive_time, cf_hook = hook\<rparr>"

definition config_single :: config where
  "config_single = config_new 1 DEFAULT_STACK_SIZE 0 65536 0 0 0 True"

definition config_default :: "nat \<Rightarrow> config" where
  "config_default cpu_count = config_new cpu_count DEFAULT_STACK_SIZE 0 65536 0 0 0 True"

definition set_event_loop_size :: "nat \<Rightarrow> config \<Rightarrow> (unit, config) rust" where
  "set_event_loop_size n c =
     (if n > 0 then Ok (c\<lparr>cf_event_loop_size := n\<rparr>)
      else Panic ''event_loop_size must be greater than 0'')"

definition set_stack_size :: "nat \<Rightarrow> config \<Rightarrow> (unit, config) rust" where
  "set_stack_size n c =
     (if n > 0 then Ok (c\<lparr>cf_stack_size := n\<rparr>) else Panic ''stack_size must be greater than 0'')"

definition set_min_size :: "nat \<Rightarrow> config \<Rightarrow> (unit, config) rust" where
  "set_min_size n c = Ok (c\<lparr>cf_min_size := n\<rparr>)"

definition set_max_size :: "nat \<Rightarrow> config \<Rightarrow> (unit, config) rust" where
  "set_max_size n c =
     (if n > 0 then
        (if n \<ge> cf_min_size c then Ok (c\<lparr>cf_max_size := n\<rparr>)
         else Panic ''max_size must be greater than or equal to min_size'')
      else Panic ''max_size must be greater than 0'')"

definition set_keep_alive_time :: "u64 \<Rightarrow> config \<Rightarrow> (unit, config) rust" where
  "set_keep_alive_time t c = Ok (c\<lparr>cf_keep_alive_time := t\<rparr>)"

definition set_min_memory_count :: "nat \<Rightarrow> config \<Rightarrow> (unit, config) rust" where
  "set_min_memory_count n c = Ok (c\<lparr>cf_min_memory_count := n\<rparr>)"

definition set_memory_keep_alive_time :: "u64 \<Rightarrow> config \<Rightarrow> (unit, config) rust" where
  "set_memory_keep_alive_time t c = Ok (c\<lparr>cf_memory_keep_alive_time := t\<rparr>)"

definition set_hook :: "bool \<Rightarrow> config \<Rightarrow> (unit, config) rust" where
  "set_hook h c = Ok (c\<lparr>cf_hook := h\<rparr>)"

section \<open>Lemmas\<close>

lemma get_timeout_time_ge:
  "unat t \<le> unat (get_timeout_time t dur)"
proof -
  have "unat t < 2 ^ 64" using unsigned_less [of t] by simp
  then show ?thesis
    by (auto simp: get_timeout_time_def u64_try_from_def sat_simps unsigned_minus_1_eq_mask
        mask_eq_exp_minus_1 split: option.splits)
qed

lemma get_timeout_time_exact:
  assumes "unat t + dur < 2 ^ 64"
  shows "unat (get_timeout_time t dur) = unat t + dur"
  using assms
  by (auto simp: get_timeout_time_def u64_try_from_def sat_simps unat_of_nat split: option.splits)

lemma get_slices_loop_correct:
  assumes "slc > 0" and "left > 0"
  shows "\<exists>ys. get_slices_loop left slc acc = Some (acc @ ys) \<and> sum_list ys = left
     \<and> (\<forall>y\<in>set ys. 0 < y \<and> y \<le> slc) \<and> (\<forall>y\<in>set (butlast ys). y = slc)
     \<and> ys \<noteq> []"
  using assms
proof (induction left arbitrary: acc rule: less_induct)
  case (less left)
  show ?case
  proof (cases "left > slc")
    case False
    with less.prems show ?thesis by (subst get_slices_loop.simps) auto
  next
    case True
    with less.prems have "left - slc < left" "0 < left - slc" by auto
    with less.IH [of "left - slc" "acc @ [slc]"] less.prems obtain ys where
      ys: "get_slices_loop (left - slc) slc (acc @ [slc]) = Some ((acc @ [slc]) @ ys)"
        "sum_list ys = left - slc" "\<forall>y\<in>set ys. 0 < y \<and> y \<le> slc"
        "\<forall>y\<in>set (butlast ys). y = slc" "ys \<noteq> []"
      by blast
    with True less.prems show ?thesis
      by (subst get_slices_loop.simps, intro exI [of _ "slc # ys"]) auto
  qed
qed

text \<open>With an empty slice the loop makes no progress, so it returns for no starting point.\<close>

lemma get_slices_loop_zero:
  assumes "get_slices_loop left slc acc = Some r"
  shows "slc = 0 \<longrightarrow> left = 0"
proof (rule get_slices_loop.raw_induct [where P = "\<lambda>l s a r. s = 0 \<longrightarrow> l = 0", OF _ assms])
  fix f and l s :: nat and a r
  assume IH: "\<And>l s a r. f l s a = Some r \<Longrightarrow> s = 0 \<longrightarrow> l = 0"
    and eq: "(if s < l then f (l - s) s (a @ [s]) else Some (a @ [l])) = Some r"
  show "s = 0 \<longrightarrow> l = 0"
  proof (cases "s < l")
    case True
    with eq IH [of "l - s" s "a @ [s]" r] show ?thesis by auto
  qed auto
qed

end
