(* ===== verification/OC_Coroutine.thy ===== *)
theory OC_Coroutine
  imports OC_Common
begin

text \<open>
  One coroutine: the state machine of \<^verbatim>\<open>core/src/coroutine/state.rs\<close>, the listeners of
  \<^verbatim>\<open>listener.rs\<close>, the suspender of \<^verbatim>\<open>suspender.rs\<close>, construction and \<open>raw_resume\<close> of
  \<^verbatim>\<open>korosensei.rs\<close>, \<open>resume_with\<close> of \<^verbatim>\<open>mod.rs\<close>, and the thread-local stacks the macro
  \<open>impl_current_for\<close> of \<^verbatim>\<open>common/macros.rs\<close> declares.

  Three things are parameters. What a listener does is a function \<open>lsn\<close> on the rest of the
  thread's world, which also says whether it panicked. The body of a coroutine, which runs on
  the stack the crate \<open>corosensei\<close> switches to, is a value \<open>co_inner\<close> with a function
  \<open>seg\<close>: given the argument of a resume it yields what the body does up to its next
  suspension (the state changes it makes on its own coroutine, in order, and other effects as
  \<open>A_ext\<close>), how that segment ends, and the rest of the body. The clock is an argument.
\<close>

section \<open>Data\<close>

record stack_info =
  stack_top :: nat
  stack_bottom :: nat

datatype ('y, 'r) co_event =
    On_state_changed "('y, 'r) coroutine_state" "('y, 'r) coroutine_state"
  | On_ready "('y, 'r) coroutine_state"
  | On_running "('y, 'r) coroutine_state"
  | On_suspend "('y, 'r) coroutine_state"
  | On_syscall "('y, 'r) coroutine_state"
  | On_cancel "('y, 'r) coroutine_state"
  | On_complete "('y, 'r) coroutine_state" 'r
  | On_error "('y, 'r) coroutine_state" string

type_synonym ('l, 'y, 'r, 'w) listener = "'l \<Rightarrow> ('y, 'r) co_event \<Rightarrow> 'w \<Rightarrow> 'w \<times> bool"

record ('k, 'y, 'r, 'l) coroutine =
  co_id :: u64
  co_name :: string
  co_inner :: 'k
  co_state :: "('y, 'r) coroutine_state"
  co_stack_infos :: "stack_info list"
  co_listeners :: "'l list"
  co_priority :: "int option"

text \<open>
  The thread: the \<open>VecDeque\<close>s of the thread-locals \<open>COROUTINE\<close>, \<open>SUSPENDER\<close> (pointers
  stand as coroutine ids), \<open>TIMESTAMP\<close> and \<open>CANCEL\<close>, front first, and the world the listeners
  change.
\<close>

record 'w thread =
  th_coroutine :: "u64 list"
  th_suspender :: "u64 list"
  th_timestamp :: "u64 list"
  th_cancel :: "bool list"
  th_world :: 'w

datatype ('y, 'r) co_error =
    Unexpected_transition string "('y, 'r) coroutine_state" "('y, 'r) coroutine_state"
  | Unexpected_state string "('y, 'r) coroutine_state"

type_synonym ('k, 'y, 'r, 'l, 'w, 'a) co_result =
  "(('y, 'r) co_error, 'a) rust \<times> ('k, 'y, 'r, 'l) coroutine \<times> 'w thread"

section \<open>Thread-local stacks\<close>

definition init_current_co :: "u64 \<Rightarrow> 'w thread \<Rightarrow> 'w thread" where
  "init_current_co p th = th\<lparr>th_coroutine := p # th_coroutine th\<rparr>"

definition current_co :: "'w thread \<Rightarrow> u64 option" where
  "current_co th = (case th_coroutine th of [] \<Rightarrow> None | p # _ \<Rightarrow> Some p)"

definition clean_current_co :: "'w thread \<Rightarrow> 'w thread" where
  "clean_current_co th = th\<lparr>th_coroutine := tl (th_coroutine th)\<rparr>"

definition init_current_su :: "u64 \<Rightarrow> 'w thread \<Rightarrow> 'w thread" where
  "init_current_su p th = th\<lparr>th_suspender := p # th_suspender th\<rparr>"

definition current_su :: "'w thread \<Rightarrow> u64 option" where
  "current_su th = (case th_suspender th of [] \<Rightarrow> None | p # _ \<Rightarrow> Some p)"

definition clean_current_su :: "'w thread \<Rightarrow> 'w thread" where
  "clean_current_su th = th\<lparr>th_suspender := tl (th_suspender th)\<rparr>"

section \<open>Listeners\<close>

text \<open>The macro \<open>broadcast!\<close>: every listener in turn, a panic of one is caught.\<close>

fun broadcast :: "('l, 'y, 'r, 'w) listener \<Rightarrow> 'l list \<Rightarrow> ('y, 'r) co_event \<Rightarrow> 'w \<Rightarrow> 'w" where
  "broadcast lsn [] ev w = w"
| "broadcast lsn (l # ls) ev w = (case lsn l ev w of (w', panicked) \<Rightarrow> broadcast lsn ls ev w')"

definition notify_all ::
  "('l, 'y, 'r, 'w) listener \<Rightarrow> ('k, 'y, 'r, 'l) coroutine \<Rightarrow> ('y, 'r) co_event \<Rightarrow> 'w thread \<Rightarrow> 'w thread" where
  "notify_all lsn co ev th = th\<lparr>th_world := broadcast lsn (co_listeners co) ev (th_world th)\<rparr>"

definition add_listener :: "'l \<Rightarrow> ('k, 'y, 'r, 'l) coroutine \<Rightarrow> ('k, 'y, 'r, 'l) coroutine" where
  "add_listener l co = co\<lparr>co_listeners := co_listeners co @ [l]\<rparr>"

section \<open>State changes\<close>

definition change_state ::
  "('l, 'y, 'r, 'w) listener \<Rightarrow> ('y, 'r) coroutine_state \<Rightarrow> ('k, 'y, 'r, 'l) coroutine \<Rightarrow> 'w thread
    \<Rightarrow> ('y, 'r) coroutine_state \<times> ('k, 'y, 'r, 'l) coroutine \<times> 'w thread" where
  "change_state lsn new co th =
     (let old = co_state co; co' = co\<lparr>co_state := new\<rparr>
      in (old, co', notify_all lsn co' (On_state_changed old new) th))"

definition co_ready ::
  "('l, 'y, 'r, 'w) listener \<Rightarrow> u64 \<Rightarrow> ('k, 'y, 'r, 'l) coroutine \<Rightarrow> 'w thread
    \<Rightarrow> ('k, 'y, 'r, 'l, 'w, unit) co_result" where
  "co_ready lsn t co th =
     (let change = (case change_state lsn Cs_Ready co th of (old, co', th') \<Rightarrow>
                      (Ok (), co', notify_all lsn co' (On_ready old) th'));
          unexpected = (Err (Unexpected_transition (co_name co) (co_state co) Cs_Ready), co, th)
      in case co_state co of
           Cs_Ready \<Rightarrow> (Ok (), co, th)
         | Cs_Suspend y timestamp \<Rightarrow> (if timestamp \<le> t then change else unexpected)
         | _ \<Rightarrow> unexpected)"

definition co_running ::
  "('l, 'y, 'r, 'w) listener \<Rightarrow> u64 \<Rightarrow> ('k, 'y, 'r, 'l) coroutine \<Rightarrow> 'w thread
    \<Rightarrow> ('k, 'y, 'r, 'l, 'w, unit) co_result" where
  "co_running lsn t co th =
     (let change = (case change_state lsn Cs_Running co th of (old, co', th') \<Rightarrow>
                      (Ok (), co', notify_all lsn co' (On_running old) th'));
          unexpected = (Err (Unexpected_transition (co_name co) (co_state co) Cs_Running), co, th)
      in case co_state co of
           Cs_Running \<Rightarrow> (Ok (), co, th)
         | Cs_Ready \<Rightarrow> change
         | Cs_Syscall y n Ss_Executing \<Rightarrow> change
         | Cs_Suspend y timestamp \<Rightarrow> (if timestamp \<le> t then change else unexpected)
         | Cs_Syscall y n Ss_Callback \<Rightarrow> (Ok (), co, th)
         | Cs_Syscall y n Ss_Timeout \<Rightarrow> (Ok (), co, th)
         | _ \<Rightarrow> unexpected)"

text \<open>The transitions that are only allowed from \<open>Running\<close> share their shape.\<close>

definition from_running ::
  "('l, 'y, 'r, 'w) listener \<Rightarrow> ('y, 'r) coroutine_state
    \<Rightarrow> (('y, 'r) coroutine_state \<Rightarrow> ('y, 'r) co_event) \<Rightarrow> ('k, 'y, 'r, 'l) coroutine \<Rightarrow> 'w thread
    \<Rightarrow> ('k, 'y, 'r, 'l, 'w, unit) co_result" where
  "from_running lsn new ev co th =
     (case co_state co of
        Cs_Running \<Rightarrow>
          (case change_state lsn new co th of (old, co', th') \<Rightarrow>
             (Ok (), co', notify_all lsn co' (ev old) th'))
      | _ \<Rightarrow> (Err (Unexpected_transition (co_name co) (co_state co) new), co, th))"

definition co_suspend ::
  "('l, 'y, 'r, 'w) listener \<Rightarrow> 'y \<Rightarrow> u64 \<Rightarrow> ('k, 'y, 'r, 'l) coroutine \<Rightarrow> 'w thread
    \<Rightarrow> ('k, 'y, 'r, 'l, 'w, unit) co_result" where
  "co_suspend lsn val timestamp = from_running lsn (Cs_Suspend val timestamp) On_suspend"

definition co_syscall ::
  "('l, 'y, 'r, 'w) listener \<Rightarrow> 'y \<Rightarrow> syscall_name \<Rightarrow> syscall_state \<Rightarrow> ('k, 'y, 'r, 'l) coroutine
    \<Rightarrow> 'w thread \<Rightarrow> ('k, 'y, 'r, 'l, 'w, unit) co_result" where
  "co_syscall lsn val n st co th =
     (let change = (case change_state lsn (Cs_Syscall val n st) co th of (old, co', th') \<Rightarrow>
                      (Ok (), co', notify_all lsn co' (On_syscall old) th'));
          unexpected = (Err (Unexpected_transition (co_name co) (co_state co) (Cs_Syscall val n st)), co, th)
      in case co_state co of
           Cs_Running \<Rightarrow> change
         | Cs_Syscall y original st' \<Rightarrow> (if original = n then change else unexpected)
         | _ \<Rightarrow> unexpected)"

definition co_cancel ::
  "('l, 'y, 'r, 'w) listener \<Rightarrow> ('k, 'y, 'r, 'l) coroutine \<Rightarrow> 'w thread
    \<Rightarrow> ('k, 'y, 'r, 'l, 'w, unit) co_result" where
  "co_cancel lsn = from_running lsn Cs_Cancelled On_cancel"

definition co_complete ::
  "('l, 'y, 'r, 'w) listener \<Rightarrow> 'r \<Rightarrow> ('k, 'y, 'r, 'l) coroutine \<Rightarrow> 'w thread
    \<Rightarrow> ('k, 'y, 'r, 'l, 'w, unit) co_result" where
  "co_complete lsn val = from_running lsn (Cs_Complete val) (\<lambda>old. On_complete old val)"

definition co_error ::
  "('l, 'y, 'r, 'w) listener \<Rightarrow> string \<Rightarrow> ('k, 'y, 'r, 'l) coroutine \<Rightarrow> 'w thread
    \<Rightarrow> ('k, 'y, 'r, 'l, 'w, unit) co_result" where
  "co_error lsn msg = from_running lsn (Cs_Error msg) (\<lambda>old. On_error old msg)"

section \<open>The body and the suspender\<close>

datatype ('y, 'x) co_action =
    A_syscall 'y syscall_name syscall_state
  | A_running
  | A_ext 'x

datatype ('y, 'r) seg_end =
    E_suspend 'y
  | E_until 'y u64
  | E_delay 'y u64 nat
  | E_cancel
  | E_return 'r
  | E_panic string

type_synonym ('p, 'k, 'y, 'r, 'x) body =
  "'p \<Rightarrow> 'k \<Rightarrow> ('y, 'x) co_action list \<times> ('y, 'r) seg_end \<times> 'k"

datatype ('y, 'r) co_switch = Yield 'y | Returned "(string, 'r) rust"

text \<open>\<open>until_with\<close>, \<open>delay_with\<close> and \<open>cancel\<close> of the suspender: leave a note, then suspend.\<close>

definition push_timestamp :: "u64 \<Rightarrow> 'w thread \<Rightarrow> 'w thread" where
  "push_timestamp ts th = th\<lparr>th_timestamp := ts # th_timestamp th\<rparr>"

definition push_cancel :: "'w thread \<Rightarrow> 'w thread" where
  "push_cancel th = th\<lparr>th_cancel := True # th_cancel th\<rparr>"

definition take_timestamp :: "'w thread \<Rightarrow> u64 \<times> 'w thread" where
  "take_timestamp th =
     (case th_timestamp th of [] \<Rightarrow> (0, th) | ts # tss \<Rightarrow> (ts, th\<lparr>th_timestamp := tss\<rparr>))"

definition is_cancel :: "'w thread \<Rightarrow> bool \<times> 'w thread" where
  "is_cancel th =
     (case th_cancel th of [] \<Rightarrow> (False, th) | c # cs \<Rightarrow> (c, th\<lparr>th_cancel := cs\<rparr>))"

text \<open>
  How a segment leaves the coroutine's stack. \<open>suspend_with\<close> cleans the current suspender
  before it switches, and so does the closure of \<open>Coroutine::new\<close> after the body returned; a
  panic unwinds past that line into \<open>catch!\<close>. \<open>zero\<close> is the zeroed value \<open>cancel\<close> yields.
\<close>

fun leave_segment :: "'y \<Rightarrow> ('y, 'r) seg_end \<Rightarrow> 'w thread \<Rightarrow> ('y, 'r) co_switch \<times> 'w thread" where
  "leave_segment zero (E_suspend y) th = (Yield y, clean_current_su th)"
| "leave_segment zero (E_until y ts) th = (Yield y, clean_current_su (push_timestamp ts th))"
| "leave_segment zero (E_delay y t d) th =
     (Yield y, clean_current_su (push_timestamp (get_timeout_time t d) th))"
| "leave_segment zero E_cancel th = (Yield zero, clean_current_su (push_cancel th))"
| "leave_segment zero (E_return r) th = (Returned (Ok r), clean_current_su th)"
| "leave_segment zero (E_panic m) th = (Returned (Err m), th)"

fun run_action ::
  "('l, 'y, 'r, 'w) listener \<Rightarrow> u64 \<Rightarrow> ('y, 'x) co_action
    \<Rightarrow> ('k, 'y, 'r, 'l) coroutine \<times> 'w thread \<times> 'x list
    \<Rightarrow> ('k, 'y, 'r, 'l) coroutine \<times> 'w thread \<times> 'x list" where
  "run_action lsn t (A_syscall v n st) (co, th, xs) =
     (case co_syscall lsn v n st co th of (r, co', th') \<Rightarrow> (co', th', xs))"
| "run_action lsn t A_running (co, th, xs) =
     (case co_running lsn t co th of (r, co', th') \<Rightarrow> (co', th', xs))"
| "run_action lsn t (A_ext x) (co, th, xs) = (co, th, xs @ [x])"

text \<open>
  \<open>inner.resume\<close>: the switch into the body, up to its next suspension or its end. The
  current suspender is set on entry, both on the first resume and behind \<open>inner.suspend\<close>.
\<close>

definition inner_resume ::
  "('l, 'y, 'r, 'w) listener \<Rightarrow> ('p, 'k, 'y, 'r, 'x) body \<Rightarrow> 'y \<Rightarrow> u64 \<Rightarrow> 'p
    \<Rightarrow> ('k, 'y, 'r, 'l) coroutine \<Rightarrow> 'w thread
    \<Rightarrow> ('y, 'r) co_switch \<times> ('k, 'y, 'r, 'l) coroutine \<times> 'w thread \<times> 'x list" where
  "inner_resume lsn seg zero t arg co th =
     (case seg arg (co_inner co) of (acts, e, k) \<Rightarrow>
        (case fold (run_action lsn t) acts (co, init_current_su (co_id co) th, []) of
           (co1, th1, xs) \<Rightarrow>
             (case leave_segment zero e th1 of (sw, th2) \<Rightarrow> (sw, co1\<lparr>co_inner := k\<rparr>, th2, xs))))"

section \<open>Construction and resumption\<close>

text \<open>
  \<open>Coroutine::new\<close>. The allocator, the page size, the fresh name and the hash are arguments;
  the memory monitor's listener of the feature \<open>preemptive\<close> is an optional one.
\<close>

definition co_new ::
  "(nat \<Rightarrow> ('e, stack_info) rust) \<Rightarrow> nat \<Rightarrow> string \<Rightarrow> (string \<Rightarrow> u64) \<Rightarrow> 'l option
    \<Rightarrow> string option \<Rightarrow> 'k \<Rightarrow> nat option \<Rightarrow> int option \<Rightarrow> ('e, ('k, 'y, 'r, 'l) coroutine) rust" where
  "co_new alloc page uuid hash monitor name f stack_size priority =
     rust_bind (alloc (max (case stack_size of None \<Rightarrow> DEFAULT_STACK_SIZE | Some n \<Rightarrow> n) page))
       (\<lambda>stack. let nm = (case name of None \<Rightarrow> uuid | Some n \<Rightarrow> n) in
          Ok \<lparr>co_id = hash nm, co_name = nm, co_inner = f, co_state = Cs_Ready,
              co_stack_infos = [stack],
              co_listeners = (case monitor of None \<Rightarrow> [] | Some l \<Rightarrow> [l]),
              co_priority = priority\<rparr>)"

definition raw_resume ::
  "('l, 'y, 'r, 'w) listener \<Rightarrow> ('p, 'k, 'y, 'r, 'x) body \<Rightarrow> 'y \<Rightarrow> u64 \<Rightarrow> 'p
    \<Rightarrow> ('k, 'y, 'r, 'l) coroutine \<Rightarrow> 'w thread
    \<Rightarrow> ('k, 'y, 'r, 'l, 'w, ('y, 'r) coroutine_state) co_result \<times> 'x list" where
  "raw_resume lsn seg zero t arg co th =
     (case inner_resume lsn seg zero t arg co th of
        (Yield y, co1, th1, xs) \<Rightarrow>
          (case co_state co1 of
             Cs_Running \<Rightarrow>
               (case is_cancel th1 of
                  (True, th2) \<Rightarrow>
                    (case co_cancel lsn co1 th2 of
                       (r, co2, th3) \<Rightarrow> ((rust_bind r (\<lambda>_. Ok Cs_Cancelled), co2, th3), xs))
                | (False, th2) \<Rightarrow>
                    (case take_timestamp th2 of (timestamp, th3) \<Rightarrow>
                       (case co_suspend lsn y timestamp co1 th3 of
                          (r, co2, th4) \<Rightarrow>
                            ((rust_bind r (\<lambda>_. Ok (Cs_Suspend y timestamp)), co2, th4), xs))))
           | Cs_Syscall y' n st \<Rightarrow> ((Ok (Cs_Syscall y' n st), co1, th1), xs)
           | s \<Rightarrow> ((Err (Unexpected_state (co_name co1) s), co1, th1), xs))
      | (Returned (Ok returns), co1, th1, xs) \<Rightarrow>
          (case co_complete lsn returns co1 th1 of
             (r, co2, th2) \<Rightarrow> ((rust_bind r (\<lambda>_. Ok (Cs_Complete returns)), co2, th2), xs))
      | (Returned (Err message), co1, th1, xs) \<Rightarrow>
          (case co_error lsn message co1 th1 of
             (r, co2, th2) \<Rightarrow> ((rust_bind r (\<lambda>_. Ok (Cs_Error message)), co2, th2), xs))
      | (Returned out, co1, th1, xs) \<Rightarrow> ((Hang, co1, th1), xs))"

definition resume_with ::
  "('l, 'y, 'r, 'w) listener \<Rightarrow> ('p, 'k, 'y, 'r, 'x) body \<Rightarrow> 'y \<Rightarrow> u64 \<Rightarrow> 'p
    \<Rightarrow> ('k, 'y, 'r, 'l) coroutine \<Rightarrow> 'w thread
    \<Rightarrow> ('k, 'y, 'r, 'l, 'w, ('y, 'r) coroutine_state) co_result \<times> 'x list" where
  "resume_with lsn seg zero t arg co th =
     (case co_state co of
        Cs_Complete r \<Rightarrow> ((Ok (Cs_Complete r), co, th), [])
      | Cs_Error e \<Rightarrow> ((Ok (Cs_Error e), co, th), [])
      | _ \<Rightarrow>
          (case co_running lsn t co (init_current_co (co_id co) th) of
             (Ok u, co1, th1) \<Rightarrow>
               (case raw_resume lsn seg zero t arg co1 th1 of
                  ((r, co2, th2), xs) \<Rightarrow> ((r, co2, clean_current_co th2), xs))
           | (Err e, co1, th1) \<Rightarrow> ((Err e, co1, th1), [])
           | (Panic m, co1, th1) \<Rightarrow> ((Panic m, co1, th1), [])
           | (Hang, co1, th1) \<Rightarrow> ((Hang, co1, th1), [])))"

section \<open>Stack growth\<close>

definition remaining_stack :: "nat \<Rightarrow> stack_info list \<Rightarrow> ('e, nat) rust" where
  "remaining_stack sp infos =
     (if infos = [] then Panic ''called `Option::unwrap()` on a `None` value''
      else if sp < stack_bottom (last infos) then Panic ''attempt to subtract with overflow''
      else Ok (sp - stack_bottom (last infos)))"

definition stack_ptr_in_bounds :: "u64 \<Rightarrow> stack_info list \<Rightarrow> bool" where
  "stack_ptr_in_bounds sp infos =
     list_ex (\<lambda>i. of_nat (stack_bottom i) \<le> sp \<and> sp < of_nat (stack_top i)) infos"

text \<open>
  \<open>maybe_grow_with\<close>. The callback takes the stack it runs on and the recorded stacks, and
  returns a value or panics. The result is paired with the recorded stacks afterwards: those of
  the current coroutine, popped by a guard also on a panic, or those of the thread.
\<close>

definition grow_run ::
  "(nat \<Rightarrow> ('e, stack_info) rust) \<Rightarrow> nat \<Rightarrow> bool
    \<Rightarrow> (stack_info \<Rightarrow> stack_info list \<Rightarrow> ('e, 'a) rust \<times> stack_info list) \<Rightarrow> stack_info list
    \<Rightarrow> ('e, 'a) rust \<times> stack_info list" where
  "grow_run alloc stack_size guarded callback infos =
     (case alloc stack_size of
        Ok stack \<Rightarrow>
          (case callback stack (infos @ [stack]) of
             (Ok r, infos') \<Rightarrow> (Ok r, butlast infos')
           | (out, infos') \<Rightarrow> (out, if guarded then butlast infos' else infos'))
      | Err e \<Rightarrow> (Err e, infos)
      | Panic m \<Rightarrow> (Panic m, infos)
      | Hang \<Rightarrow> (Hang, infos))"

definition maybe_grow_with ::
  "(nat \<Rightarrow> ('e, stack_info) rust) \<Rightarrow> nat \<Rightarrow> nat \<Rightarrow> nat \<Rightarrow> bool
    \<Rightarrow> (stack_info \<Rightarrow> stack_info list \<Rightarrow> ('e, 'a) rust \<times> stack_info list) \<Rightarrow> stack_info list
    \<Rightarrow> ('e, 'a) rust \<times> stack_info list" where
  "maybe_grow_with alloc sp red_zone stack_size in_coroutine callback infos =
     (if \<not> in_coroutine \<and> infos = [] then grow_run alloc stack_size in_coroutine callback infos
      else case remaining_stack sp infos of
             Ok remaining \<Rightarrow>
               (if remaining \<ge> red_zone then callback (last infos) infos
                else grow_run alloc stack_size in_coroutine callback infos)
           | Err e \<Rightarrow> (Err e, infos)
           | Panic m \<Rightarrow> (Panic m, infos)
           | Hang \<Rightarrow> (Hang, infos))"

section \<open>The documented state machine\<close>

text \<open>
  The transitions the comments of \<^verbatim>\<open>state.rs\<close> name, with the specific event that reports each.
\<close>

inductive co_trans ::
  "('y, 'r) coroutine_state \<Rightarrow> ('y, 'r) coroutine_state \<Rightarrow> ('y, 'r) co_event \<Rightarrow> bool" where
  suspend_ready: "co_trans (Cs_Suspend y ts) Cs_Ready (On_ready (Cs_Suspend y ts))"
| ready_running: "co_trans Cs_Ready Cs_Running (On_running Cs_Ready)"
| suspend_running: "co_trans (Cs_Suspend y ts) Cs_Running (On_running (Cs_Suspend y ts))"
| syscall_running:
    "co_trans (Cs_Syscall y n Ss_Executing) Cs_Running (On_running (Cs_Syscall y n Ss_Executing))"
| running_suspend: "co_trans Cs_Running (Cs_Suspend y ts) (On_suspend Cs_Running)"
| running_syscall: "co_trans Cs_Running (Cs_Syscall y n st) (On_syscall Cs_Running)"
| syscall_syscall:
    "co_trans (Cs_Syscall y n st) (Cs_Syscall y' n st') (On_syscall (Cs_Syscall y n st))"
| running_cancelled: "co_trans Cs_Running Cs_Cancelled (On_cancel Cs_Running)"
| running_complete: "co_trans Cs_Running (Cs_Complete r) (On_complete Cs_Running r)"
| running_error: "co_trans Cs_Running (Cs_Error m) (On_error Cs_Running m)"

inductive_simps co_trans_from_ready: "co_trans Cs_Ready s ev"
inductive_simps co_trans_from_running: "co_trans Cs_Running s ev"
inductive_cases co_trans_cases: "co_trans s s' ev"

text \<open>A history: transitions in sequence, each reported by \<open>on_state_changed\<close> and its own event.\<close>

inductive co_path ::
  "('y, 'r) coroutine_state \<Rightarrow> ('y, 'r) co_event list \<Rightarrow> ('y, 'r) coroutine_state \<Rightarrow> bool" where
  path_refl: "co_path s [] s"
| path_step: "co_trans s s' ev \<Longrightarrow> co_path s' evs s'' \<Longrightarrow>
    co_path s (On_state_changed s s' # ev # evs) s''"

lemma path_append: "co_path s evs s' \<Longrightarrow> co_path s' evs' s'' \<Longrightarrow> co_path s (evs @ evs') s''"
  by (induction rule: co_path.induct) (auto intro: co_path.intros)

lemma terminal_no_trans: "co_trans s s' ev \<Longrightarrow> \<not> terminal s"
  by (induction rule: co_trans.induct) auto

lemma terminal_path: "co_path s evs s' \<Longrightarrow> terminal s \<Longrightarrow> evs = [] \<and> s' = s"
  by (induction rule: co_path.induct) (auto dest: terminal_no_trans)

section \<open>What the operations do to a coroutine\<close>

text \<open>
  \<open>co_steps lsn co th co' th'\<close>: the state moved along a history, every listener was told each
  event of it once, in order, and nothing else of the coroutine or of the stacks changed.
\<close>

definition co_steps ::
  "('l, 'y, 'r, 'w) listener \<Rightarrow> ('k, 'y, 'r, 'l) coroutine \<Rightarrow> 'w thread
    \<Rightarrow> ('k, 'y, 'r, 'l) coroutine \<Rightarrow> 'w thread \<Rightarrow> bool" where
  "co_steps lsn co th co' th' \<longleftrightarrow>
     (\<exists>evs. co_path (co_state co) evs (co_state co')
        \<and> th_world th' = fold (broadcast lsn (co_listeners co)) evs (th_world th))
     \<and> co' = co\<lparr>co_state := co_state co'\<rparr>
     \<and> th' = th\<lparr>th_world := th_world th'\<rparr>"

lemma co_steps_refl [simp]: "co_steps lsn co th co th"
  by (auto simp: co_steps_def intro!: exI [of _ "[]"] path_refl)

lemma co_steps_trans:
  assumes "co_steps lsn co th co1 th1" and "co_steps lsn co1 th1 co2 th2"
  shows "co_steps lsn co th co2 th2"
proof -
  obtain e1 where e1: "co_path (co_state co) e1 (co_state co1)"
      "th_world th1 = fold (broadcast lsn (co_listeners co)) e1 (th_world th)"
    and c1: "co1 = co\<lparr>co_state := co_state co1\<rparr>" and t1: "th1 = th\<lparr>th_world := th_world th1\<rparr>"
    using assms(1) by (auto simp: co_steps_def)
  obtain e2 where e2: "co_path (co_state co1) e2 (co_state co2)"
      "th_world th2 = fold (broadcast lsn (co_listeners co1)) e2 (th_world th1)"
    and c2: "co2 = co1\<lparr>co_state := co_state co2\<rparr>" and t2: "th2 = th1\<lparr>th_world := th_world th2\<rparr>"
    using assms(2) by (auto simp: co_steps_def)
  have l: "co_listeners co1 = co_listeners co" by (subst c1) simp
  have "co_path (co_state co) (e1 @ e2) (co_state co2)" using e1(1) e2(1) by (rule path_append)
  moreover have "th_world th2 = fold (broadcast lsn (co_listeners co)) (e1 @ e2) (th_world th)"
    using e1(2) e2(2) l by simp
  moreover have "co2 = co\<lparr>co_state := co_state co2\<rparr>"
    by (subst c2, subst c1) simp
  moreover have "th2 = th\<lparr>th_world := th_world th2\<rparr>"
    by (subst t2, subst t1) simp
  ultimately show ?thesis unfolding co_steps_def by blast
qed

lemma co_steps_change:
  assumes "co_trans (co_state co) new ev"
    and "change_state lsn new co th = (old, co', th1)"
  shows "old = co_state co" and "co_state co' = new"
    and "co_steps lsn co th co' (notify_all lsn co' ev th1)"
proof -
  show "old = co_state co" "co_state co' = new"
    using assms(2) by (auto simp: change_state_def Let_def)
  have "co_path (co_state co) [On_state_changed (co_state co) new, ev] new"
    using assms(1) by (auto intro: co_path.intros)
  moreover have "co' = co\<lparr>co_state := new\<rparr>"
    "th1 = notify_all lsn co' (On_state_changed (co_state co) new) th"
    using assms(2) by (auto simp: change_state_def Let_def)
  ultimately show "co_steps lsn co th co' (notify_all lsn co' ev th1)"
    unfolding co_steps_def notify_all_def by (auto intro!: exI)
qed

text \<open>
  Each operation either succeeds along the documented machine, or reports the unexpected
  transition and leaves coroutine, listeners and stacks alone.
\<close>

definition co_op_ok ::
  "('l, 'y, 'r, 'w) listener \<Rightarrow> ('k, 'y, 'r, 'l) coroutine \<Rightarrow> 'w thread
    \<Rightarrow> ('k, 'y, 'r, 'l, 'w, unit) co_result \<Rightarrow> bool" where
  "co_op_ok lsn co th res \<longleftrightarrow>
     (case res of
        (Ok u, co', th') \<Rightarrow> co_steps lsn co th co' th'
      | (Err e, co', th') \<Rightarrow> co' = co \<and> th' = th \<and> (\<exists>new. e = Unexpected_transition (co_name co) (co_state co) new)
      | _ \<Rightarrow> False)"

lemma change_ok:
  assumes "co_trans (co_state co) new (ev (co_state co))"
  shows "co_op_ok lsn co th (case change_state lsn new co th of (old, co', th') \<Rightarrow>
    (Ok (), co', notify_all lsn co' (ev old) th'))"
proof -
  obtain old co' th1 where ch: "change_state lsn new co th = (old, co', th1)" by (metis prod_cases3)
  from co_steps_change [OF assms ch] show ?thesis by (simp add: co_op_ok_def ch)
qed

lemma co_ready_ok: "co_op_ok lsn co th (co_ready lsn t co th)"
  by (cases "co_state co")
    (auto simp: co_ready_def Let_def co_op_ok_def
      intro!: change_ok [unfolded co_op_ok_def, of _ _ On_ready] co_trans.intros)

lemma co_running_ok: "co_op_ok lsn co th (co_running lsn t co th)"
proof (cases "co_state co")
  case (Cs_Syscall y n st)
  then show ?thesis
    by (cases st) (auto simp: co_running_def Let_def co_op_ok_def
      intro!: change_ok [unfolded co_op_ok_def, of _ _ On_running] co_trans.intros)
qed (auto simp: co_running_def Let_def co_op_ok_def
      intro!: change_ok [unfolded co_op_ok_def, of _ _ On_running] co_trans.intros)

lemma co_syscall_ok: "co_op_ok lsn co th (co_syscall lsn v n st co th)"
  by (cases "co_state co")
    (auto simp: co_syscall_def Let_def co_op_ok_def
      intro!: change_ok [unfolded co_op_ok_def, of _ _ On_syscall] co_trans.intros)

lemma from_running_ok:
  assumes "co_trans Cs_Running new (ev Cs_Running)"
  shows "co_op_ok lsn co th (from_running lsn new ev co th)"
  using assms by (cases "co_state co")
    (auto simp: from_running_def co_op_ok_def
      intro!: change_ok [unfolded co_op_ok_def, of _ _ ev] co_trans.intros)

lemma co_suspend_ok: "co_op_ok lsn co th (co_suspend lsn y ts co th)"
  and co_cancel_ok: "co_op_ok lsn co th (co_cancel lsn co th)"
  and co_complete_ok: "co_op_ok lsn co th (co_complete lsn r co th)"
  and co_error_ok: "co_op_ok lsn co th (co_error lsn m co th)"
  unfolding co_suspend_def co_cancel_def co_complete_def co_error_def
  by (auto intro!: from_running_ok co_trans.intros)

lemma co_op_okD: "co_op_ok lsn co th res \<Longrightarrow> res = (r, co', th') \<Longrightarrow> co_steps lsn co th co' th'"
  by (cases r) (auto simp: co_op_ok_def)

section \<open>Resumption\<close>

definition co_history ::
  "('l, 'y, 'r, 'w) listener \<Rightarrow> ('k, 'y, 'r, 'l) coroutine \<Rightarrow> 'w \<Rightarrow> ('k, 'y, 'r, 'l) coroutine \<Rightarrow> 'w \<Rightarrow> bool" where
  "co_history lsn co w co' w' \<longleftrightarrow>
     (\<exists>evs. co_path (co_state co) evs (co_state co')
        \<and> w' = fold (broadcast lsn (co_listeners co)) evs w)
     \<and> co' = co\<lparr>co_inner := co_inner co', co_state := co_state co'\<rparr>"

lemma co_steps_history:
  "co_steps lsn co th co' th' \<Longrightarrow> co_history lsn co (th_world th) co' (th_world th')"
  by (cases co; cases co') (auto simp: co_steps_def co_history_def)

lemma co_history_refl [simp]: "co_history lsn co w co w"
  by (auto simp: co_history_def intro!: exI [of _ "[]"] path_refl)

lemma co_history_inner: "co_history lsn co w co' w' \<Longrightarrow> co_history lsn co w (co'\<lparr>co_inner := k\<rparr>) w'"
  by (cases co; cases co') (auto simp: co_history_def)

lemma co_history_trans:
  assumes "co_history lsn co w co1 w1" and "co_history lsn co1 w1 co2 w2"
  shows "co_history lsn co w co2 w2"
proof -
  obtain e1 where e1: "co_path (co_state co) e1 (co_state co1)"
      "w1 = fold (broadcast lsn (co_listeners co)) e1 w"
    and c1: "co1 = co\<lparr>co_inner := co_inner co1, co_state := co_state co1\<rparr>"
    using assms(1) by (auto simp: co_history_def)
  obtain e2 where e2: "co_path (co_state co1) e2 (co_state co2)"
      "w2 = fold (broadcast lsn (co_listeners co1)) e2 w1"
    and c2: "co2 = co1\<lparr>co_inner := co_inner co2, co_state := co_state co2\<rparr>"
    using assms(2) by (auto simp: co_history_def)
  have l: "co_listeners co1 = co_listeners co" by (subst c1) simp
  have "co_path (co_state co) (e1 @ e2) (co_state co2)" using e1(1) e2(1) by (rule path_append)
  moreover have "w2 = fold (broadcast lsn (co_listeners co)) (e1 @ e2) w" using e1(2) e2(2) l by simp
  moreover have "co2 = co\<lparr>co_inner := co_inner co2, co_state := co_state co2\<rparr>"
    by (subst c2, subst c1) simp
  ultimately show ?thesis unfolding co_history_def by blast
qed

lemma stack_ops_world [simp]:
  "th_world (init_current_co p th) = th_world th" "th_world (clean_current_co th) = th_world th"
  "th_world (init_current_su p th) = th_world th" "th_world (clean_current_su th) = th_world th"
  "th_world (push_timestamp ts th) = th_world th" "th_world (push_cancel th) = th_world th"
  by (simp_all add: init_current_co_def clean_current_co_def init_current_su_def
      clean_current_su_def push_timestamp_def push_cancel_def)

lemma take_notes_world:
  "take_timestamp th = (ts, th') \<Longrightarrow> th_world th' = th_world th"
  "is_cancel th = (c, th') \<Longrightarrow> th_world th' = th_world th"
  by (auto simp: take_timestamp_def is_cancel_def split: list.splits)

lemma leave_segment_world: "leave_segment zero e th = (sw, th') \<Longrightarrow> th_world th' = th_world th"
  by (cases e) auto

lemma run_action_steps:
  "run_action lsn t a (co, th, xs) = (co', th', xs') \<Longrightarrow> co_steps lsn co th co' th'"
  using co_op_okD [OF co_syscall_ok] co_op_okD [OF co_running_ok]
  by (cases a) (auto split: prod.splits)

lemma run_actions_steps:
  "fold (run_action lsn t) as (co, th, xs) = (co', th', xs') \<Longrightarrow> co_steps lsn co th co' th'"
proof (induction "as" arbitrary: co th xs)
  case (Cons a "as")
  obtain co1 th1 xs1 where one: "run_action lsn t a (co, th, xs) = (co1, th1, xs1)"
    by (metis prod_cases3)
  with Cons.prems have "co_steps lsn co1 th1 co' th'" by (intro Cons.IH) simp
  with run_action_steps [OF one] show ?case by (rule co_steps_trans)
qed simp

lemma inner_resume_history:
  assumes "inner_resume lsn seg zero t arg co th = (sw, co', th', xs)"
  shows "co_history lsn co (th_world th) co' (th_world th')"
proof -
  obtain acts e k where sg: "seg arg (co_inner co) = (acts, e, k)" by (metis prod_cases3)
  obtain co1 th1 xs1 where run:
    "fold (run_action lsn t) acts (co, init_current_su (co_id co) th, []) = (co1, th1, xs1)"
    by (metis prod_cases3)
  obtain sw2 th2 where lv: "leave_segment zero e th1 = (sw2, th2)" by fastforce
  have "co_history lsn co (th_world th) co1 (th_world th1)"
    using co_steps_history [OF run_actions_steps [OF run]] by simp
  moreover have "co' = co1\<lparr>co_inner := k\<rparr>" "th_world th' = th_world th1"
    using assms leave_segment_world [OF lv] by (simp_all add: inner_resume_def sg run lv)
  ultimately show ?thesis by (simp add: co_history_inner)
qed

text \<open>The last step of \<open>raw_resume\<close> is one state change whose success gives the result.\<close>

lemma from_running_result:
  assumes "from_running lsn new ev co th = (r, co', th')"
  shows "r = Ok () \<longleftrightarrow> co_state co = Cs_Running" and "r = Ok () \<Longrightarrow> co_state co' = new"
    and "co_state co \<noteq> Cs_Running \<Longrightarrow> r = Err (Unexpected_transition (co_name co) (co_state co) new)
      \<and> co' = co \<and> th' = th"
  using assms
  by (cases "co_state co"; auto simp: from_running_def change_state_def Let_def)+

lemmas transition_defs = co_suspend_def co_cancel_def co_complete_def co_error_def

definition yielding :: "('y, 'r) coroutine_state \<Rightarrow> bool" where
  "yielding st \<longleftrightarrow> (\<exists>y ts. st = Cs_Suspend y ts) \<or> (\<exists>y n s. st = Cs_Syscall y n s) \<or> terminal st"

lemma from_running_history:
  assumes "from_running lsn new ev co1 th2 = (r, co', th3)" and "co_trans Cs_Running new (ev Cs_Running)"
    and "co_history lsn co w co1 (th_world th2)"
  shows "co_history lsn co w co' (th_world th3)"
  using co_history_trans [OF assms(3) co_steps_history [OF co_op_okD [OF from_running_ok [where ev = ev, OF assms(2)] assms(1)]]] .

lemma raw_resume_law:
  assumes "raw_resume lsn seg zero t arg co th = ((r, co', th'), xs)"
  shows "co_history lsn co (th_world th) co' (th_world th') \<and> (\<forall>st. r = Ok st \<longrightarrow> co_state co' = st \<and> yielding st)"
proof -
  obtain sw co1 th1 xs1 where inner: "inner_resume lsn seg zero t arg co th = (sw, co1, th1, xs1)"
    by (metis prod_cases4)
  note h1 = inner_resume_history [OF inner]
  have last: "co_history lsn co (th_world th) co2 (th_world th3)
      \<and> (\<forall>st. rust_bind r2 (\<lambda>_. Ok new) = Ok st \<longrightarrow> co_state co2 = st \<and> yielding st)"
    if "from_running lsn new ev co1 th2 = (r2, co2, th3)" "co_trans Cs_Running new (ev Cs_Running)"
      "th_world th2 = th_world th1" "yielding new" for new ev th2 r2 co2 th3
  proof -
    have "co_history lsn co (th_world th) co1 (th_world th2)" using h1 that(3) by simp
    from from_running_history [OF that(1,2) this] from_running_result(2) [OF that(1)] that(4)
    show ?thesis by (cases r2) auto
  qed
  note raw = assms [unfolded raw_resume_def inner]
  show ?thesis
  proof (cases sw)
    case (Returned out)
    show ?thesis
    proof (cases out)
      case (Ok v)
      obtain r2 co2 th2 where fr: "co_complete lsn v co1 th1 = (r2, co2, th2)" by (metis prod_cases3)
      from last [OF fr [unfolded co_complete_def]] raw fr show ?thesis
        by (simp add: Returned Ok yielding_def running_complete)
    next
      case (Err m)
      obtain r2 co2 th2 where fr: "co_error lsn m co1 th1 = (r2, co2, th2)" by (metis prod_cases3)
      from last [OF fr [unfolded co_error_def]] raw fr show ?thesis
        by (simp add: Returned Err yielding_def running_error)
    qed (use raw h1 in \<open>auto simp: Returned\<close>)
  next
    case (Yield y)
    show ?thesis
    proof (cases "co_state co1")
      case Cs_Running
      obtain c th2 where ic: "is_cancel th1 = (c, th2)" by fastforce
      show ?thesis
      proof (cases c)
        case True
        obtain r2 co2 th3 where fr: "co_cancel lsn co1 th2 = (r2, co2, th3)" by (metis prod_cases3)
        from last [OF fr [unfolded co_cancel_def]] raw fr take_notes_world(2) [OF ic] show ?thesis
          by (simp add: Yield Cs_Running ic True yielding_def running_cancelled)
      next
        case False
        obtain ts th3 where tt: "take_timestamp th2 = (ts, th3)" by fastforce
        obtain r2 co2 th4 where fr: "co_suspend lsn y ts co1 th3 = (r2, co2, th4)" by (metis prod_cases3)
        from last [OF fr [unfolded co_suspend_def]] raw fr take_notes_world(2) [OF ic] take_notes_world(1) [OF tt]
        show ?thesis
          by (simp add: Yield Cs_Running ic False tt yielding_def running_suspend)
      qed
    next
      case (Cs_Syscall y' n st)
      with raw h1 show ?thesis by (auto simp: Yield yielding_def)
    qed (use raw h1 in \<open>auto simp: Yield\<close>)
  qed
qed

lemma resume_law:
  assumes "resume_with lsn seg zero t arg co th = ((r, co', th'), xs)"
  shows "co_history lsn co (th_world th) co' (th_world th') \<and> (\<forall>st. r = Ok st \<longrightarrow> co_state co' = st \<and> yielding st)"
proof (cases "(\<exists>v. co_state co = Cs_Complete v) \<or> (\<exists>m. co_state co = Cs_Error m)")
  case True
  with assms show ?thesis by (auto simp: resume_with_def yielding_def)
next
  case False
  obtain r1 co1 th1 where run: "co_running lsn t co (init_current_co (co_id co) th) = (r1, co1, th1)"
    by (metis prod_cases3)
  have h: "co_history lsn co (th_world th) co1 (th_world th1)"
    using co_steps_history [OF co_op_okD [OF co_running_ok run]] by simp
  have res: "(case (r1, co1, th1) of
             (Ok u, co1, th1) \<Rightarrow>
               (case raw_resume lsn seg zero t arg co1 th1 of
                  ((r, co2, th2), xs) \<Rightarrow> ((r, co2, clean_current_co th2), xs))
           | (Err e, co1, th1) \<Rightarrow> ((Err e, co1, th1), [])
           | (Panic m, co1, th1) \<Rightarrow> ((Panic m, co1, th1), [])
           | (Hang, co1, th1) \<Rightarrow> ((Hang, co1, th1), [])) = ((r, co', th'), xs)"
    using assms False run by (cases "co_state co") (auto simp: resume_with_def)
  show ?thesis
  proof (cases r1)
    case (Ok u)
    obtain r2 co2 th2 xs2 where raw: "raw_resume lsn seg zero t arg co1 th1 = ((r2, co2, th2), xs2)"
      by (metis prod.exhaust_sel)
    have "r = r2" "co' = co2" "th_world th' = th_world th2" using res by (auto simp: Ok raw)
    with raw_resume_law [OF raw] co_history_trans [OF h] show ?thesis by metis
  qed (use res h in auto)
qed

section \<open>The notes and stacks across a resume\<close>

text \<open>The states \<open>running\<close> lets through, and those in which \<open>resume_with\<close> looks at the body at all.\<close>

fun runnable :: "u64 \<Rightarrow> ('y, 'r) coroutine_state \<Rightarrow> bool" where
  "runnable t Cs_Ready = True"
| "runnable t Cs_Running = True"
| "runnable t (Cs_Suspend y ts) = (ts \<le> t)"
| "runnable t (Cs_Syscall y n st) = (st = Ss_Executing \<or> st = Ss_Callback \<or> st = Ss_Timeout)"
| "runnable t _ = False"

lemma co_running_runnable:
  assumes "co_running lsn t co th = (r, co', th')"
  shows "r = Ok () \<longleftrightarrow> runnable t (co_state co)"
    and "\<not> runnable t (co_state co) \<Longrightarrow>
      r = Err (Unexpected_transition (co_name co) (co_state co) Cs_Running) \<and> co' = co \<and> th' = th"
proof -
  have "(r = Ok () \<longleftrightarrow> runnable t (co_state co)) \<and> (\<not> runnable t (co_state co) \<longrightarrow>
      r = Err (Unexpected_transition (co_name co) (co_state co) Cs_Running) \<and> co' = co \<and> th' = th)"
  proof (cases "co_state co")
    case (Cs_Syscall y n st)
    with assms show ?thesis
      by (cases st) (auto simp: co_running_def change_state_def Let_def)
  qed (use assms in \<open>auto simp: co_running_def change_state_def Let_def split: if_splits\<close>)
  then show "r = Ok () \<longleftrightarrow> runnable t (co_state co)"
    "\<not> runnable t (co_state co) \<Longrightarrow>
      r = Err (Unexpected_transition (co_name co) (co_state co) Cs_Running) \<and> co' = co \<and> th' = th" by blast+
qed

lemma co_steps_stacks:
  assumes "co_steps lsn co th co' th'"
  shows "th_coroutine th' = th_coroutine th" "th_suspender th' = th_suspender th"
    "th_timestamp th' = th_timestamp th" "th_cancel th' = th_cancel th"
    "co_id co' = co_id co" "co_inner co' = co_inner co" "co_name co' = co_name co"
proof -
  have t: "th' = th\<lparr>th_world := th_world th'\<rparr>" and c: "co' = co\<lparr>co_state := co_state co'\<rparr>"
    using assms by (simp_all add: co_steps_def)
  show "th_coroutine th' = th_coroutine th" "th_suspender th' = th_suspender th"
    "th_timestamp th' = th_timestamp th" "th_cancel th' = th_cancel th"
    by (subst t, simp)+
  show "co_id co' = co_id co" "co_inner co' = co_inner co" "co_name co' = co_name co"
    by (subst c, simp)+
qed

text \<open>The notes a segment leaves for \<open>raw_resume\<close>.\<close>

fun end_timestamps :: "('y, 'r) seg_end \<Rightarrow> u64 list" where
  "end_timestamps (E_until y ts) = [ts]"
| "end_timestamps (E_delay y t d) = [get_timeout_time t d]"
| "end_timestamps _ = []"

fun end_cancels :: "('y, 'r) seg_end \<Rightarrow> bool list" where
  "end_cancels E_cancel = [True]"
| "end_cancels _ = []"

definition end_panics :: "('y, 'r) seg_end \<Rightarrow> bool" where
  "end_panics e \<longleftrightarrow> (\<exists>m. e = E_panic m)"

lemma inner_resume_stacks:
  assumes "inner_resume lsn seg zero t arg co th = (sw, co', th', xs)"
    and "seg arg (co_inner co) = (acts, e, k)"
  shows "th_coroutine th' = th_coroutine th"
    and "th_suspender th' = (if end_panics e then [co_id co] else []) @ th_suspender th"
    and "th_timestamp th' = end_timestamps e @ th_timestamp th"
    and "th_cancel th' = end_cancels e @ th_cancel th"
    and "sw = fst (leave_segment zero e th)"
proof -
  obtain co1 th1 xs1 where run:
    "fold (run_action lsn t) acts (co, init_current_su (co_id co) th, []) = (co1, th1, xs1)"
    by (metis prod_cases3)
  note st = co_steps_stacks [OF run_actions_steps [OF run]]
  have lv: "leave_segment zero e th1 = (sw, th')"
    using assms by (auto simp: inner_resume_def run split: prod.splits)
  show "th_coroutine th' = th_coroutine th"
    "th_suspender th' = (if end_panics e then [co_id co] else []) @ th_suspender th"
    "th_timestamp th' = end_timestamps e @ th_timestamp th"
    "th_cancel th' = end_cancels e @ th_cancel th" "sw = fst (leave_segment zero e th)"
    using lv st by (cases e; auto simp: clean_current_su_def push_timestamp_def push_cancel_def
        init_current_su_def end_panics_def)+
qed

lemma notes_stacks:
  "take_timestamp th = (ts, th') \<Longrightarrow> th_coroutine th' = th_coroutine th \<and> th_suspender th' = th_suspender th
     \<and> th_cancel th' = th_cancel th \<and> th_timestamp th' = tl (th_timestamp th)
     \<and> ts = (case th_timestamp th of [] \<Rightarrow> 0 | ts # _ \<Rightarrow> ts)"
  "is_cancel th = (c, th') \<Longrightarrow> th_coroutine th' = th_coroutine th \<and> th_suspender th' = th_suspender th
     \<and> th_timestamp th' = th_timestamp th \<and> th_cancel th' = tl (th_cancel th)
     \<and> c = (case th_cancel th of [] \<Rightarrow> False | c # _ \<Rightarrow> c)"
  by (auto simp: take_timestamp_def is_cancel_def split: list.splits)

lemma notify_stacks [simp]:
  "th_coroutine (notify_all lsn co ev th) = th_coroutine th"
  "th_suspender (notify_all lsn co ev th) = th_suspender th"
  "th_timestamp (notify_all lsn co ev th) = th_timestamp th"
  "th_cancel (notify_all lsn co ev th) = th_cancel th"
  by (simp_all add: notify_all_def)

definition same_stacks :: "'w thread \<Rightarrow> 'w thread \<Rightarrow> bool" where
  "same_stacks th th' \<longleftrightarrow> th_coroutine th' = th_coroutine th \<and> th_suspender th' = th_suspender th
     \<and> th_timestamp th' = th_timestamp th \<and> th_cancel th' = th_cancel th"

lemma from_running_stacks:
  "from_running lsn new ev co th = (r, co', th') \<Longrightarrow> same_stacks th th'"
  unfolding from_running_def change_state_def Let_def
  by (cases "co_state co") (auto simp: same_stacks_def)

text \<open>
  What a segment's end means for a coroutine in state \<open>Running\<close> or in a syscall, given that no
  note of another coroutine is pending.
\<close>

definition seg_outcome ::
  "('y, 'r) seg_end \<Rightarrow> ('y, 'r) coroutine_state \<Rightarrow> u64 list \<Rightarrow> bool list \<Rightarrow> bool" where
  "seg_outcome e st timestamps cancels \<longleftrightarrow>
     (if \<exists>y n s. st = Cs_Syscall y n s
      then timestamps = end_timestamps e \<and> cancels = end_cancels e
      else timestamps = [] \<and> cancels = []
        \<and> st = (case e of E_suspend y \<Rightarrow> Cs_Suspend y 0 | E_until y ts \<Rightarrow> Cs_Suspend y ts
           | E_delay y t d \<Rightarrow> Cs_Suspend y (get_timeout_time t d) | E_cancel \<Rightarrow> Cs_Cancelled
           | E_return v \<Rightarrow> Cs_Complete v | E_panic m \<Rightarrow> Cs_Error m))"

lemma raw_resume_last:
  assumes fr: "from_running lsn new ev co1 th2 = (r2, co2, th3)"
    and "rust_bind r2 (\<lambda>_. Ok new) = r"
  shows "same_stacks th2 th3 \<and> (\<forall>st. r = Ok st \<longrightarrow> st = new)"
  using from_running_stacks [OF fr] assms(2) by (cases r2) auto

lemma raw_resume_stacks:
  assumes raw: "raw_resume lsn seg zero t arg co th = ((r, co', th'), xs)"
    and sg: "seg arg (co_inner co) = (acts, e, k)"
  shows "th_coroutine th' = th_coroutine th
     \<and> th_suspender th' = (if end_panics e then [co_id co] else []) @ th_suspender th
     \<and> (th_timestamp th = [] \<longrightarrow> th_cancel th = [] \<longrightarrow>
          (\<forall>st. r = Ok st \<longrightarrow> seg_outcome e st (th_timestamp th') (th_cancel th')))"
proof -
  obtain sw co1 th1 xs1 where inner: "inner_resume lsn seg zero t arg co th = (sw, co1, th1, xs1)"
    by (metis prod_cases4)
  note st = inner_resume_stacks [OF inner sg]
  note raw' = raw [unfolded raw_resume_def inner]
  show ?thesis
  proof (cases sw)
    case (Returned out)
    with st(5) consider v where "e = E_return v" "out = Ok v" | m where "e = E_panic m" "out = Err m"
      by (cases e) auto
    then show ?thesis
    proof cases
      case (1 v)
      obtain r2 co2 th2 where fr: "co_complete lsn v co1 th1 = (r2, co2, th2)" by (metis prod_cases3)
      from raw_resume_last [OF fr [unfolded co_complete_def] refl] raw' fr st(1-4) show ?thesis
        by (auto simp: Returned 1 seg_outcome_def same_stacks_def end_panics_def)
    next
      case (2 m)
      obtain r2 co2 th2 where fr: "co_error lsn m co1 th1 = (r2, co2, th2)" by (metis prod_cases3)
      from raw_resume_last [OF fr [unfolded co_error_def] refl] raw' fr st(1-4) show ?thesis
        by (auto simp: Returned 2 seg_outcome_def same_stacks_def end_panics_def)
    qed
  next
    case (Yield y)
    have np: "\<not> end_panics e" using st(5) Yield by (auto simp: end_panics_def)
    show ?thesis
    proof (cases "co_state co1")
      case Cs_Running
      obtain c th2 where ic: "is_cancel th1 = (c, th2)" by fastforce
      note n1 = notes_stacks(2) [OF ic]
      show ?thesis
      proof (cases c)
        case True
        obtain r2 co2 th3 where fr: "co_cancel lsn co1 th2 = (r2, co2, th3)" by (metis prod_cases3)
        have "th_cancel th = [] \<Longrightarrow> e = E_cancel" using True n1 st(4) by (cases e) auto
        with raw_resume_last [OF fr [unfolded co_cancel_def] refl] raw' fr st(1-4) n1 np show ?thesis
          by (auto simp: Yield Cs_Running ic True seg_outcome_def same_stacks_def)
      next
        case False
        obtain ts th3 where tt: "take_timestamp th2 = (ts, th3)" by fastforce
        note n2 = notes_stacks(1) [OF tt]
        obtain r2 co2 th4 where fr: "co_suspend lsn y ts co1 th3 = (r2, co2, th4)" by (metis prod_cases3)
        have e: "th_timestamp th = [] \<Longrightarrow> th_cancel th = [] \<Longrightarrow>
            (case e of E_suspend y \<Rightarrow> Cs_Suspend y 0 | E_until y ts \<Rightarrow> Cs_Suspend y ts
           | E_delay y t d \<Rightarrow> Cs_Suspend y (get_timeout_time t d) | E_cancel \<Rightarrow> Cs_Cancelled
           | E_return v \<Rightarrow> Cs_Complete v | E_panic m \<Rightarrow> Cs_Error m) = Cs_Suspend y ts
            \<and> th_timestamp th3 = [] \<and> th_cancel th3 = []"
          using False n1 n2 st(3-5) Yield by (cases e) auto
        with raw_resume_last [OF fr [unfolded co_suspend_def] refl] raw' fr st(1-4) n1 n2 np show ?thesis
          by (auto simp: Yield Cs_Running ic False tt seg_outcome_def same_stacks_def)
      qed
    next
      case (Cs_Syscall y' n s)
      with raw' st(1-4) np show ?thesis by (auto simp: Yield seg_outcome_def)
    qed (use raw' st(1-4) np in \<open>auto simp: Yield\<close>)
  qed
qed

lemma resume_stacks:
  assumes res: "resume_with lsn seg zero t arg co th = ((r, co', th'), xs)"
    and run: "runnable t (co_state co)"
    and sg: "seg arg (co_inner co) = (acts, e, k)"
  shows "th_coroutine th' = th_coroutine th
     \<and> th_suspender th' = (if end_panics e then [co_id co] else []) @ th_suspender th
     \<and> (th_timestamp th = [] \<longrightarrow> th_cancel th = [] \<longrightarrow>
          (\<forall>st. r = Ok st \<longrightarrow> seg_outcome e st (th_timestamp th') (th_cancel th')))"
proof -
  obtain r1 co1 th1 where ru: "co_running lsn t co (init_current_co (co_id co) th) = (r1, co1, th1)"
    by (metis prod_cases3)
  have "r1 = Ok ()" using co_running_runnable(1) [OF ru] run by simp
  obtain r2 co2 th2 xs2 where raw: "raw_resume lsn seg zero t arg co1 th1 = ((r2, co2, th2), xs2)"
    by (metis prod.exhaust_sel)
  note st = co_steps_stacks [OF co_op_okD [OF co_running_ok ru]]
  have "r = r2" "th' = clean_current_co th2"
    using res run ru \<open>r1 = Ok ()\<close> raw by (cases "co_state co"; simp add: resume_with_def)+
  moreover have "seg arg (co_inner co1) = (acts, e, k)" using sg st(6) by simp
  ultimately show ?thesis
    using raw_resume_stacks [OF raw, of acts e k] st
    by (simp add: clean_current_co_def init_current_co_def)
qed

lemma resume_not_runnable:
  assumes "resume_with lsn seg zero t arg co th = ((r, co', th'), xs)"
    and "\<not> runnable t (co_state co)"
  shows "co' = co" and "\<not> terminal (co_state co) \<or> co_state co = Cs_Cancelled \<Longrightarrow>
    r = Err (Unexpected_transition (co_name co) (co_state co) Cs_Running) \<and> th' = init_current_co (co_id co) th"
proof -
  obtain r1 co1 th1 where ru: "co_running lsn t co (init_current_co (co_id co) th) = (r1, co1, th1)"
    by (metis prod_cases3)
  note nr = co_running_runnable(2) [OF ru assms(2)]
  show "co' = co" "\<not> terminal (co_state co) \<or> co_state co = Cs_Cancelled \<Longrightarrow>
    r = Err (Unexpected_transition (co_name co) (co_state co) Cs_Running) \<and> th' = init_current_co (co_id co) th"
    using assms nr ru by (cases "co_state co"; auto simp: resume_with_def)+
qed

section \<open>Properties\<close>


text \<open>
  C8. Resuming a coroutine, whatever its body does, moves it along a path of the documented
  state machine; every listener sees exactly the events of that path, in order and once, even
  if listeners panic; and when the resume answers a state, that is the state the coroutine is
  in: suspended, in a syscall, or finished.
\<close>

theorem resume_follows_machine:
  assumes "resume_with lsn seg zero t arg co th = ((r, co', th'), xs)"
  shows "\<exists>evs. co_path (co_state co) evs (co_state co')
     \<and> th_world th' = fold (broadcast lsn (co_listeners co)) evs (th_world th)
     \<and> (\<forall>st. r = Ok st \<longrightarrow> co_state co' = st \<and> yielding st)"
  using resume_law [OF assms] by (auto simp: co_history_def)

text \<open>A body for the witnesses: a sleep in a syscall, then a plain suspension, then the end.\<close>

fun sleepy :: "unit \<Rightarrow> nat \<Rightarrow> (unit, nat) co_action list \<times> (unit, nat) seg_end \<times> nat" where
  "sleepy p k =
     (if k = 0 then ([A_syscall () Sn_nanosleep (Ss_Suspend 50)], E_until () 50, 1)
      else if k = 1 then ([A_syscall () Sn_nanosleep Ss_Executing, A_running], E_suspend (), 2)
      else if k = 2 then ([], E_return 7, 3)
      else ([], E_panic ''boom'', 4))"

definition panicky :: "(nat, unit, nat, (nat \<times> (unit, nat) co_event) list) listener" where
  "panicky l ev w = (w @ [(l, ev)], True)"

definition sleeper :: "nat \<Rightarrow> (unit, nat) coroutine_state \<Rightarrow> (nat, unit, nat, nat) coroutine" where
  "sleeper k st = \<lparr>co_id = 9, co_name = ''co'', co_inner = k, co_state = st,
     co_stack_infos = [], co_listeners = [1, 2], co_priority = None\<rparr>"

definition idle :: "(nat \<times> (unit, nat) co_event) list thread" where
  "idle = \<lparr>th_coroutine = [], th_suspender = [], th_timestamp = [], th_cancel = [], th_world = []\<rparr>"

lemma sleeper_suspends:
  "resume_with panicky sleepy () 10 () (sleeper 1 (Cs_Syscall () Sn_nanosleep Ss_Timeout)) idle =
     ((Ok (Cs_Suspend () 0), sleeper 2 (Cs_Suspend () 0),
       idle\<lparr>th_world :=
         [(1, On_state_changed (Cs_Syscall () Sn_nanosleep Ss_Timeout) (Cs_Syscall () Sn_nanosleep Ss_Executing)),
          (2, On_state_changed (Cs_Syscall () Sn_nanosleep Ss_Timeout) (Cs_Syscall () Sn_nanosleep Ss_Executing)),
          (1, On_syscall (Cs_Syscall () Sn_nanosleep Ss_Timeout)),
          (2, On_syscall (Cs_Syscall () Sn_nanosleep Ss_Timeout)),
          (1, On_state_changed (Cs_Syscall () Sn_nanosleep Ss_Executing) Cs_Running),
          (2, On_state_changed (Cs_Syscall () Sn_nanosleep Ss_Executing) Cs_Running),
          (1, On_running (Cs_Syscall () Sn_nanosleep Ss_Executing)),
          (2, On_running (Cs_Syscall () Sn_nanosleep Ss_Executing)),
          (1, On_state_changed Cs_Running (Cs_Suspend () 0)),
          (2, On_state_changed Cs_Running (Cs_Suspend () 0)),
          (1, On_suspend Cs_Running), (2, On_suspend Cs_Running)]\<rparr>), [])"
  by code_simp

theorem resume_follows_machine_witness:
  "\<exists>evs. co_path (Cs_Syscall () Sn_nanosleep Ss_Timeout) evs (Cs_Suspend () 0 :: (unit, nat) coroutine_state)
     \<and> evs \<noteq> []"
  using resume_follows_machine [OF sleeper_suspends]
  by (auto simp: sleeper_def idle_def)

text \<open>
  Nothing leaves a terminal state: resuming a cancelled, completed or failed coroutine
  neither runs its body nor changes it, and the completed and failed ones answer their result.
\<close>

lemma terminal_absorbing:
  assumes "resume_with lsn seg zero t arg co th = ((r, co', th'), xs)" and "terminal (co_state co)"
  shows "co' = co \<and> xs = [] \<and> th_world th' = th_world th
    \<and> (if co_state co = Cs_Cancelled
       then r = Err (Unexpected_transition (co_name co) Cs_Cancelled Cs_Running)
       else r = Ok (co_state co) \<and> th' = th)"
proof (cases "co_state co = Cs_Cancelled")
  case True
  with assms(1) show ?thesis by (auto simp: resume_with_def co_running_def Let_def)
next
  case False
  with assms show ?thesis by (auto simp: resume_with_def terminal_iff)
qed

lemma terminal_absorbing_example:
  "resume_with panicky sleepy () 10 () (sleeper 3 (Cs_Complete 7)) idle =
     ((Ok (Cs_Complete 7), sleeper 3 (Cs_Complete 7), idle), [])"
proof -
  obtain r co' th' xs where res: "resume_with panicky sleepy () 10 () (sleeper 3 (Cs_Complete 7)) idle =
     ((r, co', th'), xs)" by (metis prod.exhaust_sel)
  from terminal_absorbing [OF res] show ?thesis unfolding res by (simp add: sleeper_def)
qed



text \<open>
  The note of a suspension in a syscall outlives it, and the next coroutine of the thread
  takes it for its own: a coroutine that only yields is then suspended until the deadline of
  another coroutine's sleep.
\<close>

lemma stale_timestamp:
  "\<exists>co1 th1 co2 th2.
     resume_with panicky sleepy () 10 () (sleeper 0 Cs_Ready) idle =
       ((Ok (Cs_Syscall () Sn_nanosleep (Ss_Suspend 50)), co1, th1), [])
     \<and> th_timestamp th1 = [50]
     \<and> resume_with panicky (\<lambda>p k. ([], E_suspend (), k)) () 10 () (sleeper 0 Cs_Ready) th1 =
       ((Ok (Cs_Suspend () 50), co2, th2), ([] :: nat list))"
proof -
  define th1 where "th1 = snd (snd (fst (resume_with panicky sleepy () 10 () (sleeper 0 Cs_Ready) idle)))"
  have "fst (fst (resume_with panicky sleepy () 10 () (sleeper 0 Cs_Ready) idle)) =
      Ok (Cs_Syscall () Sn_nanosleep (Ss_Suspend 50))
    \<and> snd (resume_with panicky sleepy () 10 () (sleeper 0 Cs_Ready) idle) = [] \<and> th_timestamp th1 = [50]"
    unfolding th1_def by code_simp
  moreover have "fst (fst (resume_with panicky (\<lambda>p k. ([], E_suspend (), k)) () 10 () (sleeper 0 Cs_Ready) th1)) =
      Ok (Cs_Suspend () 50)
    \<and> snd (resume_with panicky (\<lambda>p k. ([], E_suspend (), k)) () 10 () (sleeper 0 Cs_Ready) th1) = ([] :: nat list)"
    unfolding th1_def by code_simp
  ultimately show ?thesis
    unfolding th1_def by (metis prod.collapse)
qed

text \<open>
  A refused resume (a coroutine that is not due, or was cancelled) leaves itself behind as
  the thread's current coroutine: \<open>init_current\<close> runs before the check and is not undone.
\<close>

lemma refused_resume_leaks_current:
  assumes "resume_with lsn seg zero t arg co th = ((r, co', th'), xs)"
    and "\<not> runnable t (co_state co)" and "\<not> terminal (co_state co) \<or> co_state co = Cs_Cancelled"
  shows "r = Err (Unexpected_transition (co_name co) (co_state co) Cs_Running)
    \<and> current_co th' = Some (co_id co) \<and> th_coroutine th' = co_id co # th_coroutine th"
  using resume_not_runnable(2) [OF assms] by (simp add: current_co_def init_current_co_def)

lemma refused_resume_leaks_current_witness:
  "\<exists>r co' th' xs. resume_with panicky sleepy () 10 () (sleeper 2 (Cs_Suspend () 50)) idle = ((r, co', th'), xs)
    \<and> current_co th' = Some 9"
proof -
  obtain r co' th' xs where res: "resume_with panicky sleepy () 10 () (sleeper 2 (Cs_Suspend () 50)) idle =
     ((r, co', th'), xs)" by (metis prod.exhaust_sel)
  from refused_resume_leaks_current [OF res] res show ?thesis by (simp add: sleeper_def)
qed

text \<open>
  Stack growth: if the callback itself leaves the recorded stacks as it found them, then
  so does \<open>maybe_grow_with\<close> inside a coroutine, even when the callback panics. Outside of
  coroutines a panic on a grown stack leaves the record of the freed stack behind.
\<close>

lemma maybe_grow_balanced:
  assumes "\<And>st infos'. snd (callback st infos') = infos'"
  shows "snd (maybe_grow_with alloc sp red_zone stack_size in_coroutine callback infos) =
    (case (in_coroutine \<or> infos \<noteq> [], remaining_stack sp infos :: (unit, nat) rust, alloc stack_size) of
       (True, Ok remaining, Ok stack) \<Rightarrow>
         (if remaining < red_zone \<and> \<not> in_coroutine \<and> (\<forall>v. fst (callback stack (infos @ [stack])) \<noteq> Ok v)
          then infos @ [stack] else infos)
     | (False, _, Ok stack) \<Rightarrow>
         (if \<forall>v. fst (callback stack (infos @ [stack])) \<noteq> Ok v then infos @ [stack] else infos)
     | _ \<Rightarrow> infos)"
proof -
  have grow: "snd (grow_run alloc stack_size g callback infos) = (case alloc stack_size of
      Ok stack \<Rightarrow> (if \<not> g \<and> (\<forall>v. fst (callback stack (infos @ [stack])) \<noteq> Ok v) then infos @ [stack] else infos)
    | _ \<Rightarrow> infos)" for g
  proof (cases "alloc stack_size")
    case (Ok stack)
    obtain out i where cb: "callback stack (infos @ [stack]) = (out, i)" by fastforce
    with assms [of stack "infos @ [stack]"] have "i = infos @ [stack]" by simp
    with Ok cb show ?thesis by (cases out) (auto simp: grow_run_def)
  qed (simp_all add: grow_run_def)
  show ?thesis
    using assms grow by (auto simp: maybe_grow_with_def remaining_stack_def split: rust.splits)
qed

definition shallow_stack :: stack_info where
  "shallow_stack = \<lparr>stack_top = 200, stack_bottom = 100\<rparr>"

lemma maybe_grow_balanced_example:
  "snd (maybe_grow_with (\<lambda>n. Ok shallow_stack) 110 50 100 True
     (\<lambda>st infos. (Panic ''boom'' :: (unit, nat) rust, infos)) [shallow_stack]) = [shallow_stack]"
  by (subst maybe_grow_balanced) (simp_all add: remaining_stack_def shallow_stack_def)

end
