(* ===== verification/OC_Ordered_Work_Steal.thy ===== *)
theory OC_Ordered_Work_Steal
  imports OC_Deques
begin

text \<open>
  \<^verbatim>\<open>core/src/common/ordered_work_steal.rs\<close>: the global queue \<open>OrderedWorkStealQueue\<close> and the
  per-thread \<open>OrderedLocalQueue\<close>. The global queue owns the local queues, so a local handle
  is the index of its queue with its own counters, and every operation of a handle takes the
  global queue and the handle and returns both. \<open>None\<close> stands for an operation that does
  not return. Operations are atomic steps; \<open>owsq_step\<close> interleaves those of any number of
  handles.

  The first part holds the code, the second the laws of every operation proved in the locale
  \<open>deques\<close>, the third the interleaved system.
\<close>

section \<open>The code\<close>

definition HIGHEST_PRECEDENCE :: int where "HIGHEST_PRECEDENCE = - (2 ^ 63)"

definition LOWEST_PRECEDENCE :: int where "LOWEST_PRECEDENCE = 2 ^ 63 - 1"

definition DEFAULT_PRECEDENCE :: int where "DEFAULT_PRECEDENCE = 0"

record ('w, 'i) owsq =
  os_shared_queue :: "'i skipmap"
  os_len :: nat
  os_local_capacity :: nat
  os_local_queues :: "'w skipmap list"
  os_index :: u64

record olq =
  ol_tick :: u32
  ol_stealing :: bool
  ol_queue :: nat
  ol_len :: nat

subsection \<open>The global queue\<close>

definition owsq_new :: "nat \<Rightarrow> nat \<Rightarrow> ('w, 'i) owsq" where
  "owsq_new local_queues_size capacity =
     \<lparr>os_shared_queue = [], os_len = 0, os_local_capacity = capacity,
      os_local_queues = replicate local_queues_size [], os_index = 0\<rparr>"

definition owsq_is_empty :: "('w, 'i) owsq \<Rightarrow> bool" where
  "owsq_is_empty s \<longleftrightarrow> os_len s = 0"

definition owsq_push_with_priority ::
  "('i, 'a) injector_ops \<Rightarrow> int \<Rightarrow> 'a \<Rightarrow> ('w, 'i) owsq \<Rightarrow> ('w, 'i) owsq" where
  "owsq_push_with_priority J priority item s =
     (let (j, m) = get_or_insert_with priority (inj_new J) (os_shared_queue s)
      in s\<lparr>os_shared_queue := sk_put priority (inj_push J item j) m,
           os_len := usat_add (os_len s) 1\<rparr>)"

definition owsq_push ::
  "('i, 'a) injector_ops \<Rightarrow> ('a \<Rightarrow> int option) \<Rightarrow> 'a \<Rightarrow> ('w, 'i) owsq \<Rightarrow> ('w, 'i) owsq" where
  "owsq_push J prio item s =
     owsq_push_with_priority J
       (case prio item of None \<Rightarrow> DEFAULT_PRECEDENCE | Some p \<Rightarrow> p) item s"

fun owsq_pop_entries ::
  "('i, 'a) injector_ops \<Rightarrow> 'i skipmap \<Rightarrow> ('a option \<times> 'i skipmap) option" where
  "owsq_pop_entries J [] = Some (None, [])"
| "owsq_pop_entries J ((k, j) # es) =
     (case inj_steal_loop J j of
        None \<Rightarrow> None
      | Some (Some x, j') \<Rightarrow> Some (Some x, (k, j') # es)
      | Some (None, j') \<Rightarrow>
          map_option (\<lambda>(r, es'). (r, (k, j') # es')) (owsq_pop_entries J es))"

definition owsq_pop ::
  "('i, 'a) injector_ops \<Rightarrow> ('w, 'i) owsq \<Rightarrow> ('a option \<times> ('w, 'i) owsq) option" where
  "owsq_pop J s =
     (if owsq_is_empty s then Some (None, s)
      else map_option (\<lambda>(r, es).
          (r, s\<lparr>os_shared_queue := es,
                os_len := (case r of None \<Rightarrow> os_len s | Some x \<Rightarrow> os_len s - 1)\<rparr>))
        (owsq_pop_entries J (os_shared_queue s)))"

text \<open>
  \<open>local_queue\<close> hands the local queues out in turn; the remainder by the number of queues
  panics when there is none.
\<close>

definition owsq_local_queue :: "('w, 'i) owsq \<Rightarrow> ('e, olq \<times> ('w, 'i) owsq) rust" where
  "owsq_local_queue s =
     (let index = os_index s;
          s' = s\<lparr>os_index := (if index = u64_max then 0 else index + 1)\<rparr>;
          n = length (os_local_queues s)
      in if n = 0 then Panic ''attempt to calculate the remainder with a divisor of zero''
         else Ok (\<lparr>ol_tick = 0, ol_stealing = False, ol_queue = unat index mod n, ol_len = 0\<rparr>, s'))"

subsection \<open>The local queue\<close>

abbreviation own_queue :: "('w, 'i) owsq \<Rightarrow> olq \<Rightarrow> 'w skipmap" where
  "own_queue s h \<equiv> os_local_queues s ! ol_queue h"

definition olq_is_local_full :: "('w, 'i) owsq \<Rightarrow> olq \<Rightarrow> bool" where
  "olq_is_local_full s h \<longleftrightarrow> ol_len h \<ge> os_local_capacity s"

definition olq_is_local_empty :: "olq \<Rightarrow> bool" where
  "olq_is_local_empty h \<longleftrightarrow> ol_len h = 0"

definition olq_max_steal :: "('w, 'i) owsq \<Rightarrow> olq \<Rightarrow> nat" where
  "olq_max_steal s h = usat_add (os_local_capacity s) 1 div 2 - ol_len h"

definition olq_can_steal :: "('w, 'i) owsq \<Rightarrow> olq \<Rightarrow> bool" where
  "olq_can_steal s h \<longleftrightarrow> ol_len h < usat_add (os_local_capacity s) 1 div 2"

text \<open>\<open>len\<close>: the global counter plus the fill of every local worker.\<close>

definition olq_total_len :: "('w, 'a) worker_ops \<Rightarrow> ('w, 'i) owsq \<Rightarrow> nat" where
  "olq_total_len W s = os_len s +
     sum_list (map (\<lambda>q. sum_list (map (\<lambda>(k, w). wk_capacity W w - wk_spare_capacity W w) q))
       (os_local_queues s))"

definition olq_is_empty :: "('w, 'a) worker_ops \<Rightarrow> ('w, 'i) owsq \<Rightarrow> bool" where
  "olq_is_empty W s \<longleftrightarrow> olq_total_len W s = 0"

text \<open>
  \<open>push_to_global\<close>: the outer \<open>while done < count\<close> repeats a pass over the entries of
  the local queue from the lowest priority to the highest, each pass popping at most one item
  of every entry. The passes work on the reversed entry list.
\<close>

fun push_to_global_pass ::
  "('w, 'a) worker_ops \<Rightarrow> ('i, 'a) injector_ops \<Rightarrow> nat \<Rightarrow> nat \<Rightarrow> 'w skipmap \<Rightarrow> ('w, 'i) owsq
    \<Rightarrow> nat \<times> 'w skipmap \<times> ('w, 'i) owsq" where
  "push_to_global_pass W J cnt moved [] s = (moved, [], s)"
| "push_to_global_pass W J cnt moved ((k, w) # es) s =
     (if moved \<ge> cnt then (moved, (k, w) # es, s)
      else case wk_pop W w of
        (Some item, w') \<Rightarrow>
          (let (d, es', s') = push_to_global_pass W J cnt (moved + 1) es
                 (owsq_push_with_priority J k item s)
           in (d, (k, w') # es', s'))
      | (None, w') \<Rightarrow>
          (let (d, es', s') = push_to_global_pass W J cnt moved es s
           in (d, (k, w') # es', s')))"

partial_function (option) push_to_global_loop ::
  "('w, 'a) worker_ops \<Rightarrow> ('i, 'a) injector_ops \<Rightarrow> nat \<Rightarrow> nat \<Rightarrow> 'w skipmap \<Rightarrow> ('w, 'i) owsq
    \<Rightarrow> ('w skipmap \<times> ('w, 'i) owsq) option" where
  "push_to_global_loop W J cnt moved q s =
     (if moved < cnt
      then (case push_to_global_pass W J cnt moved (rev q) s of
              (moved', es, s') \<Rightarrow> push_to_global_loop W J cnt moved' (rev es) s')
      else Some (q, s))"

declare push_to_global_loop.simps [code]

definition olq_push_to_global ::
  "('w, 'a) worker_ops \<Rightarrow> ('i, 'a) injector_ops \<Rightarrow> int \<Rightarrow> 'a \<Rightarrow> ('w, 'i) owsq \<Rightarrow> olq
    \<Rightarrow> (('w, 'i) owsq \<times> olq) option" where
  "olq_push_to_global W J priority item s h =
     (let cnt = ol_len h div 2
      in map_option (\<lambda>(q, s').
           (owsq_push_with_priority J priority item
              (s'\<lparr>os_local_queues := (os_local_queues s')[ol_queue h := q]\<rparr>),
            h\<lparr>ol_len := ol_len h - cnt\<rparr>))
         (push_to_global_loop W J cnt 0 (own_queue s h) s))"

definition olq_push_with_priority ::
  "('w, 'a) worker_ops \<Rightarrow> ('i, 'a) injector_ops \<Rightarrow> int \<Rightarrow> 'a \<Rightarrow> ('w, 'i) owsq \<Rightarrow> olq
    \<Rightarrow> (('w, 'i) owsq \<times> olq) option" where
  "olq_push_with_priority W J priority item s h =
     (if olq_is_local_full s h then olq_push_to_global W J priority item s h
      else
        (let (w, q) = get_or_insert_with priority (wk_new W (os_local_capacity s)) (own_queue s h)
         in case wk_push W item w of
              None \<Rightarrow> olq_push_to_global W J priority item
                 (s\<lparr>os_local_queues := (os_local_queues s)[ol_queue h := q]\<rparr>) h
            | Some w' \<Rightarrow>
                Some (s\<lparr>os_local_queues := (os_local_queues s)[ol_queue h := sk_put priority w' q]\<rparr>,
                  h\<lparr>ol_len := usat_add (ol_len h) 1\<rparr>)))"

definition olq_push ::
  "('w, 'a) worker_ops \<Rightarrow> ('i, 'a) injector_ops \<Rightarrow> ('a \<Rightarrow> int option) \<Rightarrow> 'a \<Rightarrow> ('w, 'i) owsq \<Rightarrow> olq
    \<Rightarrow> (('w, 'i) owsq \<times> olq) option" where
  "olq_push W J prio item s h =
     olq_push_with_priority W J
       (case prio item of None \<Rightarrow> DEFAULT_PRECEDENCE | Some p \<Rightarrow> p) item s h"

definition olq_do_tick :: "olq \<Rightarrow> u32 \<times> olq" where
  "olq_do_tick h =
     (let val = ol_tick h
      in if val = - 1 then (0, h\<lparr>ol_tick := 0\<rparr>) else (sat_add val 1, h\<lparr>ol_tick := val + 1\<rparr>))"

fun pop_local_entries :: "('w, 'a) worker_ops \<Rightarrow> 'w skipmap \<Rightarrow> 'a option \<times> 'w skipmap" where
  "pop_local_entries W [] = (None, [])"
| "pop_local_entries W ((k, w) # es) =
     (case wk_pop W w of
        (Some x, w') \<Rightarrow> (Some x, (k, w') # es)
      | (None, w') \<Rightarrow> (let (r, es') = pop_local_entries W es in (r, (k, w') # es')))"

definition olq_pop_local ::
  "('w, 'a) worker_ops \<Rightarrow> ('w, 'i) owsq \<Rightarrow> olq \<Rightarrow> 'a option \<times> ('w, 'i) owsq \<times> olq" where
  "olq_pop_local W s h =
     (let (r, q) = pop_local_entries W (own_queue s h)
      in (r, s\<lparr>os_local_queues := (os_local_queues s)[ol_queue h := q]\<rparr>,
          h\<lparr>ol_len := (case r of None \<Rightarrow> ol_len h | Some x \<Rightarrow> ol_len h - 1)\<rparr>))"

text \<open>
  One sibling: its entries in priority order, until a steal succeeds. The guard
  \<open>std::ptr::eq(&raw const another, &raw const self.queue)\<close> compares the addresses of two
  different reference variables and never holds, so it has no counterpart here.
\<close>

definition steal_count ::
  "('w, 'a) worker_ops \<Rightarrow> ('w, 'i) owsq \<Rightarrow> olq \<Rightarrow> 'w \<Rightarrow> nat \<Rightarrow> nat" where
  "steal_count W s h worker n = min (min n (olq_max_steal s h))
     (usat_add (wk_capacity W worker - wk_spare_capacity W worker) 1 div 2)"

fun steal_from_sibling ::
  "('w, 'a) worker_ops \<Rightarrow> nat \<Rightarrow> int list \<Rightarrow> ('w, 'i) owsq \<Rightarrow> olq
    \<Rightarrow> bool \<times> ('w, 'i) owsq \<times> olq" where
  "steal_from_sibling W i [] s h = (False, s, h)"
| "steal_from_sibling W i (k # ks) s h =
     (case map_of (os_local_queues s ! i) k of
        None \<Rightarrow> steal_from_sibling W i ks s h
      | Some worker \<Rightarrow>
          if wk_is_empty W worker then steal_from_sibling W i ks s h
          else
            (let (into, own) =
                   get_or_insert_with k (wk_new W (os_local_capacity s)) (own_queue s h);
                 s1 = s\<lparr>os_local_queues := (os_local_queues s)[ol_queue h := own]\<rparr>
             in case wk_steal W worker into (steal_count W s h worker) of
                  None \<Rightarrow> steal_from_sibling W i ks s1 h
                | Some (worker', into') \<Rightarrow>
                    (let qs = os_local_queues s1;
                         qs' = qs[i := sk_put k worker' (qs ! i)];
                         qs'' = qs'[ol_queue h := sk_put k into' (qs' ! ol_queue h)]
                     in (True, s1\<lparr>os_local_queues := qs''\<rparr>,
                         h\<lparr>ol_len := usat_add (ol_len h)
                              (wk_capacity W into' - wk_spare_capacity W into')\<rparr>))))"

fun steal_siblings ::
  "('w, 'a) worker_ops \<Rightarrow> nat \<Rightarrow> nat list \<Rightarrow> ('w, 'i) owsq \<Rightarrow> olq
    \<Rightarrow> bool \<times> ('w, 'i) owsq \<times> olq" where
  "steal_siblings W start [] s h = (False, s, h)"
| "steal_siblings W start (i # is) s h =
     (let j = (start + i) mod length (os_local_queues s)
      in if \<not> olq_can_steal s h then (False, s, h)
         else case steal_from_sibling W j (map fst (os_local_queues s ! j)) s h of
                (True, s', h') \<Rightarrow> (True, s', h')
              | (False, s', h') \<Rightarrow> steal_siblings W start is s' h')"

text \<open>\<open>start\<close> is the random index the thread's generator yields below the number of queues.\<close>

definition olq_pop ::
  "('w, 'a) worker_ops \<Rightarrow> ('i, 'a) injector_ops \<Rightarrow> nat \<Rightarrow> ('w, 'i) owsq \<Rightarrow> olq
    \<Rightarrow> ('a option \<times> ('w, 'i) owsq \<times> olq) option" where
  "olq_pop W J start s h =
     (let (t, h1) = olq_do_tick h;
          shared_pop = (\<lambda>s' h'. map_option (\<lambda>(r, s''). (r, s'', h')) (owsq_pop J s'))
      in case (if t mod 61 = 0 then owsq_pop J s else Some (None, s)) of
           None \<Rightarrow> None
         | Some (Some val, s1) \<Rightarrow> Some (Some val, s1, h1)
         | Some (None, s1) \<Rightarrow>
             (case olq_pop_local W s1 h1 of
                (Some val, s2, h2) \<Rightarrow> Some (Some val, s2, h2)
              | (None, s2, h2) \<Rightarrow>
                  if \<not> ol_stealing h2 then
                    (case steal_siblings W start [0..<length (os_local_queues s2)] s2
                            (h2\<lparr>ol_stealing := True\<rparr>) of
                       (True, s3, h3) \<Rightarrow> Some (olq_pop_local W s3 (h3\<lparr>ol_stealing := False\<rparr>))
                     | (False, s3, h3) \<Rightarrow> shared_pop s3 (h3\<lparr>ol_stealing := False\<rparr>))
                  else shared_pop s2 h2))"

subsection \<open>Drop\<close>

text \<open>Dropping asserts that nothing is left: each local entry is popped once, then the global queue.\<close>

definition olq_drop :: "('w, 'a) worker_ops \<Rightarrow> ('w, 'i) owsq \<Rightarrow> olq \<Rightarrow> ('e, unit) rust" where
  "olq_drop W s h =
     (if list_all (\<lambda>(k, w). fst (wk_pop W w) = None) (own_queue s h) then Ok ()
      else Panic ''local queue not empty'')"

definition owsq_drop ::
  "('w, 'a) worker_ops \<Rightarrow> ('i, 'a) injector_ops \<Rightarrow> ('w, 'i) owsq \<Rightarrow> ('e, unit) rust" where
  "owsq_drop W J s =
     (if list_all (list_all (\<lambda>(k, w). fst (wk_pop W w) = None)) (os_local_queues s)
      then (case owsq_pop J s of
              None \<Rightarrow> Hang
            | Some (None, s') \<Rightarrow> Ok ()
            | Some (Some x, s') \<Rightarrow> Panic ''global queue not empty'')
      else Panic ''local queue not empty'')"

section \<open>Laws of the operations\<close>

text \<open>
  \<open>shared_entries\<close> and \<open>local_entries\<close> are the queued items in the order the priorities
  give them; \<open>owsq_bag\<close> is the multiset of everything queued anywhere. They read the
  containers through the functions \<open>items\<close> and \<open>jitems\<close> of their contracts.
\<close>

definition shared_entries :: "('i \<Rightarrow> 'a list) \<Rightarrow> ('w, 'i) owsq \<Rightarrow> (int \<times> 'a) list" where
  "shared_entries jitems s = sk_entries jitems (os_shared_queue s)"

definition local_entries :: "('w \<Rightarrow> 'a list) \<Rightarrow> ('w, 'i) owsq \<Rightarrow> nat \<Rightarrow> (int \<times> 'a) list" where
  "local_entries items s i = sk_entries items (os_local_queues s ! i)"

definition locals_bag :: "('w \<Rightarrow> 'a list) \<Rightarrow> ('w, 'i) owsq \<Rightarrow> (int \<times> 'a) multiset" where
  "locals_bag items s = sum_list (map (\<lambda>q. mset (sk_entries items q)) (os_local_queues s))"

definition owsq_bag ::
  "('w \<Rightarrow> 'a list) \<Rightarrow> ('i \<Rightarrow> 'a list) \<Rightarrow> ('w, 'i) owsq \<Rightarrow> (int \<times> 'a) multiset" where
  "owsq_bag items jitems s = mset (shared_entries jitems s) + locals_bag items s"

definition owsq_wf :: "('w, 'i) owsq \<Rightarrow> bool" where
  "owsq_wf s \<longleftrightarrow> sk_wf (os_shared_queue s) \<and> (\<forall>q\<in>set (os_local_queues s). sk_wf q)"

text \<open>The global counter agrees with the content; its saturating increment needs room for that.\<close>

definition owsq_len_ok :: "('i \<Rightarrow> 'a list) \<Rightarrow> ('w, 'i) owsq \<Rightarrow> bool" where
  "owsq_len_ok jitems s \<longleftrightarrow> os_len s = length (shared_entries jitems s)"

lemma sum_list_replicate_empty [simp]: "sum_list (replicate n {#}) = {#}"
  by (induction n) auto

lemma length_pq_insert [simp]: "length (pq_insert p x l) = Suc (length l)"
  by (induction p x l rule: pq_insert.induct) auto

lemma owsq_new_ok [simp]:
  "owsq_bag items jitems (owsq_new n c) = {#}" "owsq_wf (owsq_new n c)"
  "owsq_len_ok jitems (owsq_new n c)"
  by (simp_all add: owsq_bag_def shared_entries_def locals_bag_def owsq_new_def owsq_wf_def
      owsq_len_ok_def)

lemma owsq_wf_local:
  "owsq_wf s \<Longrightarrow> i < length (os_local_queues s) \<Longrightarrow> sk_wf (os_local_queues s ! i)"
  by (simp add: owsq_wf_def)

definition owsq_ok :: "('i \<Rightarrow> 'a list) \<Rightarrow> ('w, 'i) owsq \<Rightarrow> bool" where
  "owsq_ok jitems s \<longleftrightarrow> owsq_wf s \<and> owsq_len_ok jitems s"

text \<open>What no operation of a handle changes.\<close>

definition same_frame :: "('w, 'i) owsq \<Rightarrow> ('w, 'i) owsq \<Rightarrow> bool" where
  "same_frame s s' \<longleftrightarrow> os_local_capacity s' = os_local_capacity s \<and> os_index s' = os_index s
     \<and> length (os_local_queues s') = length (os_local_queues s)"

lemma same_frame_refl [simp]: "same_frame s s"
  by (simp add: same_frame_def)

lemma same_frame_trans: "same_frame s s' \<Longrightarrow> same_frame s' s'' \<Longrightarrow> same_frame s s''"
  by (simp add: same_frame_def)

lemma mset_sk_entries_rev [simp]: "mset (sk_entries f (rev m)) = mset (sk_entries f m)"
proof (induction m)
  case (Cons e m)
  then show ?case by (cases e) simp
qed simp

lemma length_sk_entries_rev [simp]: "length (sk_entries f (rev m)) = length (sk_entries f m)"
  by (metis mset_sk_entries_rev size_mset)

text \<open>Replacing one local queue.\<close>

abbreviation set_local :: "nat \<Rightarrow> 'w skipmap \<Rightarrow> ('w, 'i) owsq \<Rightarrow> ('w, 'i) owsq" where
  "set_local i q s \<equiv> s\<lparr>os_local_queues := (os_local_queues s)[i := q]\<rparr>"

lemma set_local_bag:
  assumes "i < length (os_local_queues s)"
  shows "owsq_bag items jitems (set_local i q s) + mset (local_entries items s i) =
           owsq_bag items jitems s + mset (sk_entries items q)"
  using sum_list_update_multiset [OF assms, of "\<lambda>q. mset (sk_entries items q)" q]
  by (simp add: owsq_bag_def locals_bag_def local_entries_def shared_entries_def)

lemma size_own_queue:
  assumes "i < length (os_local_queues s)"
  shows "length (shared_entries jitems s) + length (sk_entries items (os_local_queues s ! i))
    \<le> size (owsq_bag items jitems s)"
proof -
  have "owsq_bag items jitems (set_local i [] s) + mset (local_entries items s i) =
      owsq_bag items jitems s" using set_local_bag [OF assms, of items jitems "[]"] by simp
  then have "size (owsq_bag items jitems (set_local i [] s)) + length (local_entries items s i) =
      size (owsq_bag items jitems s)" by (metis size_mset size_union)
  then show ?thesis by (simp add: owsq_bag_def shared_entries_def local_entries_def)
qed

lemma length_shared_le_bag: "length (shared_entries jitems s) \<le> size (owsq_bag items jitems s)"
  by (simp add: owsq_bag_def)

lemma set_local_entries [simp]:
  "i < length (os_local_queues s) \<Longrightarrow> local_entries items (set_local i q s) i = sk_entries items q"
  "shared_entries jitems (set_local i q s) = shared_entries jitems s"
  by (simp_all add: local_entries_def shared_entries_def)

lemma set_local_frame [simp]: "same_frame s (set_local i q s)"
  by (simp add: same_frame_def)

lemma set_local_ok: "owsq_ok jitems s \<Longrightarrow> sk_wf q \<Longrightarrow> owsq_ok jitems (set_local i q s)"
  using set_update_subset_insert [of "os_local_queues s" i q]
  by (auto simp: owsq_ok_def owsq_wf_def owsq_len_ok_def)

lemma sk_wf_keys: "map fst m' = map fst m \<Longrightarrow> sk_wf m \<Longrightarrow> sk_wf m'"
  by (simp add: sk_wf_def)

text \<open>
  What a pop does to the queues: \<open>popped items jitems r s s'\<close> says that \<open>r\<close> left the
  system and nothing else did.
\<close>

definition popped ::
  "('w \<Rightarrow> 'a list) \<Rightarrow> ('i \<Rightarrow> 'a list) \<Rightarrow> 'a option \<Rightarrow> ('w, 'i) owsq \<Rightarrow> ('w, 'i) owsq \<Rightarrow> bool" where
  "popped items jitems r s s' \<longleftrightarrow> owsq_ok jitems s' \<and> same_frame s s' \<and>
     (case r of None \<Rightarrow> owsq_bag items jitems s' = owsq_bag items jitems s
      | Some x \<Rightarrow> \<exists>p. owsq_bag items jitems s = add_mset (p, x) (owsq_bag items jitems s'))"

context deques
begin

lemma shared_push:
  assumes "owsq_wf s"
  shows "shared_entries jitems (owsq_push_with_priority J p x s) = pq_insert p x (shared_entries jitems s)"
    and "owsq_wf (owsq_push_with_priority J p x s)"
    and "os_local_queues (owsq_push_with_priority J p x s) = os_local_queues s"
    and "owsq_len_ok jitems s \<Longrightarrow> length (shared_entries jitems s) < usize_max \<Longrightarrow>
      owsq_len_ok jitems (owsq_push_with_priority J p x s)"
    and "owsq_bag items jitems (owsq_push_with_priority J p x s) = add_mset (p, x) (owsq_bag items jitems s)"
    and "os_local_capacity (owsq_push_with_priority J p x s) = os_local_capacity s"
    and "os_index (owsq_push_with_priority J p x s) = os_index s"
proof -
  define s' where "s' = owsq_push_with_priority J p x s"
  obtain j m where jm: "get_or_insert_with p (inj_new J) (os_shared_queue s) = (j, m)"
    by fastforce
  have wfs: "sk_wf (os_shared_queue s)" using assms by (simp add: owsq_wf_def)
  have m: "sk_wf m" "map_of m p = Some j" "sk_entries jitems m = sk_entries jitems (os_shared_queue s)"
    using jm wfs
    by (auto simp: get_or_insert_with_def map_of_sk_put jnew sk_entries_put_same split: option.splits)
  have s': "s' = s\<lparr>os_shared_queue := sk_put p (inj_push J x j) m, os_len := usat_add (os_len s) 1\<rparr>"
    by (simp add: s'_def owsq_push_with_priority_def jm)
  have e: "shared_entries jitems s' = pq_insert p x (shared_entries jitems s)"
    using m by (simp add: s' shared_entries_def sk_entries_put_push jpush)
  then show "shared_entries jitems (owsq_push_with_priority J p x s) = pq_insert p x (shared_entries jitems s)"
    by (simp add: s'_def)
  show "owsq_wf (owsq_push_with_priority J p x s)"
    using assms m by (simp add: s'_def [symmetric] s' owsq_wf_def)
  show lq: "os_local_queues (owsq_push_with_priority J p x s) = os_local_queues s"
    by (simp add: s'_def [symmetric] s')
  have "length (shared_entries jitems s') = Suc (length (shared_entries jitems s))"
    by (simp add: e)
  then show "owsq_len_ok jitems s \<Longrightarrow> length (shared_entries jitems s) < usize_max \<Longrightarrow>
      owsq_len_ok jitems (owsq_push_with_priority J p x s)"
    by (simp add: s'_def [symmetric] owsq_len_ok_def) (simp add: s')
  show "owsq_bag items jitems (owsq_push_with_priority J p x s) = add_mset (p, x) (owsq_bag items jitems s)"
    using e lq by (simp add: s'_def [symmetric] owsq_bag_def locals_bag_def)
  show "os_local_capacity (owsq_push_with_priority J p x s) = os_local_capacity s"
    "os_index (owsq_push_with_priority J p x s) = os_index s"
    by (simp_all add: s'_def [symmetric] s')
qed

lemma shared_pop_entries:
  "\<exists>r es'. owsq_pop_entries J es = Some (r, es') \<and> map fst es' = map fst es
     \<and> (case r of None \<Rightarrow> sk_entries jitems es = [] \<and> sk_entries jitems es' = []
         | Some x \<Rightarrow> \<exists>p. sk_entries jitems es = (p, x) # sk_entries jitems es')"
proof (induction es)
  case (Cons e es)
  obtain k j where e: "e = (k, j)" by fastforce
  obtain r j' where st: "inj_steal_loop J j = Some (r, j')"
    "case r of None \<Rightarrow> jitems j = [] \<and> jitems j' = [] | Some x \<Rightarrow> jitems j = x # jitems j'"
    using inj_steal_loop_correct [of j] by blast
  show ?case
  proof (cases r)
    case None
    obtain r' es' where IH: "owsq_pop_entries J es = Some (r', es')" "map fst es' = map fst es"
      "case r' of None \<Rightarrow> sk_entries jitems es = [] \<and> sk_entries jitems es' = []
         | Some x \<Rightarrow> \<exists>p. sk_entries jitems es = (p, x) # sk_entries jitems es'"
      using Cons.IH by blast
    with None st show ?thesis
      by (intro exI [of _ r'] exI [of _ "(k, j') # es'"]) (auto simp: e split: option.splits)
  next
    case (Some x)
    with st show ?thesis by (simp add: e)
  qed
qed simp

text \<open>
  Popping the global queue always returns; it takes the first item in priority order, and
  answers \<open>None\<close> only on an empty queue.
\<close>

lemma shared_pop:
  assumes "owsq_len_ok jitems s"
  shows "\<exists>r s'. owsq_pop J s = Some (r, s')
     \<and> os_local_queues s' = os_local_queues s \<and> os_local_capacity s' = os_local_capacity s
     \<and> os_index s' = os_index s
     \<and> map fst (os_shared_queue s') = map fst (os_shared_queue s)
     \<and> (case r of None \<Rightarrow> shared_entries jitems s = [] \<and> shared_entries jitems s' = [] \<and> os_len s' = os_len s
         | Some x \<Rightarrow> (\<exists>p. shared_entries jitems s = (p, x) # shared_entries jitems s')
              \<and> os_len s' = os_len s - 1)"
proof (cases "owsq_is_empty s")
  case True
  with assms have "shared_entries jitems s = []"
    by (simp add: owsq_is_empty_def owsq_len_ok_def)
  with True show ?thesis by (simp add: owsq_pop_def)
next
  case False
  obtain r es' where "owsq_pop_entries J (os_shared_queue s) = Some (r, es')"
    "map fst es' = map fst (os_shared_queue s)"
    "case r of None \<Rightarrow> sk_entries jitems (os_shared_queue s) = [] \<and> sk_entries jitems es' = []
         | Some x \<Rightarrow> \<exists>p. sk_entries jitems (os_shared_queue s) = (p, x) # sk_entries jitems es'"
    using shared_pop_entries [of "os_shared_queue s"] by blast
  with False show ?thesis
    by (auto simp: owsq_pop_def shared_entries_def split: option.splits)
qed


lemma pop_local_entries_law:
  "\<exists>r q'. pop_local_entries W q = (r, q') \<and> map fst q' = map fst q
     \<and> (case r of None \<Rightarrow> sk_entries items q = [] \<and> sk_entries items q' = []
         | Some x \<Rightarrow> \<exists>p. sk_entries items q = (p, x) # sk_entries items q')"
proof (induction q)
  case (Cons e q)
  obtain k w where e: "e = (k, w)" by fastforce
  obtain r w' where pop: "wk_pop W w = (r, w')" by fastforce
  show ?case
  proof (cases r)
    case None
    obtain r' q' where "pop_local_entries W q = (r', q')" "map fst q' = map fst q"
      "case r' of None \<Rightarrow> sk_entries items q = [] \<and> sk_entries items q' = []
         | Some x \<Rightarrow> \<exists>p. sk_entries items q = (p, x) # sk_entries items q'"
      using Cons.IH by blast
    with None pop wpop_None show ?thesis by (auto simp: e split: option.splits)
  next
    case (Some x)
    with pop wpop_Some show ?thesis by (auto simp: e)
  qed
qed simp

lemma pop_local_law:
  assumes "owsq_ok jitems s" and "ol_queue h < length (os_local_queues s)"
    and "olq_pop_local W s h = (r, s', h')"
  shows "owsq_ok jitems s'" and "same_frame s s'"
    and "ol_queue h' = ol_queue h" and "ol_stealing h' = ol_stealing h"
    and "shared_entries jitems s' = shared_entries jitems s"
    and "case r of
           None \<Rightarrow> local_entries items s (ol_queue h) = [] \<and> local_entries items s' (ol_queue h) = []
             \<and> owsq_bag items jitems s' = owsq_bag items jitems s
         | Some x \<Rightarrow> (\<exists>p. local_entries items s (ol_queue h) =
                (p, x) # local_entries items s' (ol_queue h)
              \<and> owsq_bag items jitems s = add_mset (p, x) (owsq_bag items jitems s'))"
proof -
  define i where "i = ol_queue h"
  have i: "i < length (os_local_queues s)" using assms(2) by (simp add: i_def)
  obtain r0 q where q: "pop_local_entries W (own_queue s h) = (r0, q)"
    and keys: "map fst q = map fst (own_queue s h)"
    and ents0: "case r0 of None \<Rightarrow> sk_entries items (own_queue s h) = [] \<and> sk_entries items q = []
         | Some x \<Rightarrow> \<exists>p. sk_entries items (own_queue s h) = (p, x) # sk_entries items q"
    using pop_local_entries_law [of "own_queue s h"] by blast
  have r: "r = r0" and s': "s' = set_local i q s"
    and h': "ol_queue h' = i" "ol_stealing h' = ol_stealing h"
    using assms(3) unfolding olq_pop_local_def q i_def Let_def by auto
  have ents: "case r of None \<Rightarrow> local_entries items s i = [] \<and> sk_entries items q = []
       | Some x \<Rightarrow> \<exists>p. local_entries items s i = (p, x) # sk_entries items q"
    using ents0 unfolding r local_entries_def i_def .
  have "sk_wf q"
    using assms(1,2) by (intro sk_wf_keys [OF keys]) (simp add: owsq_ok_def owsq_wf_def)
  with assms(1) show "owsq_ok jitems s'" unfolding s' by (rule set_local_ok)
  show "same_frame s s'" "shared_entries jitems s' = shared_entries jitems s"
    by (simp_all add: s')
  show "ol_queue h' = ol_queue h" "ol_stealing h' = ol_stealing h" using h' by (simp_all add: i_def)
  have e: "local_entries items s' i = sk_entries items q" using i by (simp add: s')
  have b: "owsq_bag items jitems s' + mset (local_entries items s i) =
      owsq_bag items jitems s + mset (sk_entries items q)"
    unfolding s' using i by (rule set_local_bag)
  show "case r of
           None \<Rightarrow> local_entries items s (ol_queue h) = [] \<and> local_entries items s' (ol_queue h) = []
             \<and> owsq_bag items jitems s' = owsq_bag items jitems s
         | Some x \<Rightarrow> (\<exists>p. local_entries items s (ol_queue h) =
                (p, x) # local_entries items s' (ol_queue h)
              \<and> owsq_bag items jitems s = add_mset (p, x) (owsq_bag items jitems s'))"
  proof (cases r)
    case None
    with ents e b show ?thesis by (simp add: i_def)
  next
    case (Some x)
    with ents obtain p where "local_entries items s i = (p, x) # sk_entries items q" by auto
    with Some e b show ?thesis by (simp add: i_def)
  qed
qed

text \<open>One pass of \<open>push_to_global\<close> moves items, loses none, and makes progress if it can.\<close>

lemma push_to_global_pass_law:
  assumes "owsq_ok jitems s"
    and "length (shared_entries jitems s) + length (sk_entries items es) \<le> usize_max"
    and "push_to_global_pass W J cnt moved es s = (d, es', s')"
  shows "owsq_ok jitems s' \<and> same_frame s s' \<and> os_local_queues s' = os_local_queues s
     \<and> map fst es' = map fst es
     \<and> mset (shared_entries jitems s') + mset (sk_entries items es') =
         mset (shared_entries jitems s) + mset (sk_entries items es)
     \<and> length (sk_entries items es') + d = length (sk_entries items es) + moved
     \<and> moved \<le> d \<and> (moved \<le> cnt \<longrightarrow> d \<le> cnt)
     \<and> (moved < cnt \<longrightarrow> sk_entries items es \<noteq> [] \<longrightarrow> moved < d)"
  using assms
proof (induction es arbitrary: moved s d es' s')
  case (Cons e es)
  obtain k w where e: "e = (k, w)" by fastforce
  obtain r w' where pop: "wk_pop W w = (r, w')" by fastforce
  show ?case
  proof (cases "moved \<ge> cnt")
    case True
    with Cons.prems show ?thesis by (simp add: e)
  next
    case False
    show ?thesis
    proof (cases r)
      case None
      then have w: "items w = []" "items w' = []" using pop wpop_None by auto
      obtain es1 where rec: "push_to_global_pass W J cnt moved es s = (d, es1, s')"
        and es': "es' = (k, w') # es1"
        using Cons.prems(3) False pop None by (auto simp: e split: prod.splits)
      show ?thesis
        using Cons.IH [OF Cons.prems(1) _ rec] Cons.prems(2) w by (simp add: es' e)
    next
      case (Some x)
      then have w: "items w = x # items w'" using pop wpop_Some by auto
      define s1 where "s1 = owsq_push_with_priority J k x s"
      obtain es1 where rec: "push_to_global_pass W J cnt (moved + 1) es s1 = (d, es1, s')"
        and es': "es' = (k, w') # es1"
        using Cons.prems(3) False pop Some by (auto simp: e s1_def split: prod.splits)
      have ok: "owsq_ok jitems s1" and fr: "same_frame s s1"
        and lq: "os_local_queues s1 = os_local_queues s"
        and sh: "mset (shared_entries jitems s1) = add_mset (k, x) (mset (shared_entries jitems s))"
        and len: "length (shared_entries jitems s1) = Suc (length (shared_entries jitems s))"
        using Cons.prems(1,2) shared_push [of s k x] w
        by (auto simp: s1_def owsq_ok_def same_frame_def e)
      show ?thesis
        using Cons.IH [OF ok _ rec] Cons.prems(2) w lq sh len False same_frame_trans [OF fr, of s']
        by (simp add: es' e)
    qed
  qed
qed simp

text \<open>
  The outer loop returns exactly when the local queue holds the items it is asked to move;
  then it moves them and loses none.
\<close>

lemma push_to_global_loop_total:
  assumes "owsq_ok jitems s" and "cnt \<le> moved + length (sk_entries items q)"
    and "length (shared_entries jitems s) + length (sk_entries items q) \<le> usize_max"
  shows "\<exists>q' s'. push_to_global_loop W J cnt moved q s = Some (q', s')
     \<and> owsq_ok jitems s' \<and> same_frame s s' \<and> os_local_queues s' = os_local_queues s
     \<and> map fst q' = map fst q
     \<and> mset (shared_entries jitems s') + mset (sk_entries items q') =
         mset (shared_entries jitems s) + mset (sk_entries items q)"
  using assms
proof (induction "cnt - moved" arbitrary: moved q s rule: less_induct)
  case less
  show ?case
  proof (cases "moved < cnt")
    case False
    with less.prems show ?thesis by (subst push_to_global_loop.simps) simp
  next
    case True
    obtain d es s1 where pass: "push_to_global_pass W J cnt moved (rev q) s = (d, es, s1)"
      by (metis prod_cases3)
    have room: "length (shared_entries jitems s) + length (sk_entries items (rev q)) \<le> usize_max"
      using less.prems(3) by simp
    note law = push_to_global_pass_law [OF less.prems(1) room pass]
    have "size (mset (shared_entries jitems s1) + mset (sk_entries items es)) =
        size (mset (shared_entries jitems s) + mset (sk_entries items (rev q)))" using law by simp
    then have room1: "length (shared_entries jitems s1) + length (sk_entries items (rev es)) \<le> usize_max"
      using room by simp
    have "sk_entries items (rev q) \<noteq> []"
      using less.prems(2) True by (metis add.right_neutral leD length_sk_entries_rev list.size(3))
    with law True have d: "moved < d" by simp
    have enough: "cnt \<le> d + length (sk_entries items (rev es))"
      using law less.prems(2) by simp
    have smaller: "cnt - d < cnt - moved" using d True by linarith
    have ok1: "owsq_ok jitems s1" using law by blast
    obtain q' s' where
      IH: "push_to_global_loop W J cnt d (rev es) s1 = Some (q', s')"
      "owsq_ok jitems s'" "same_frame s1 s'" "os_local_queues s' = os_local_queues s1"
      "map fst q' = map fst (rev es)"
      "mset (shared_entries jitems s') + mset (sk_entries items q') =
         mset (shared_entries jitems s1) + mset (sk_entries items (rev es))"
      using less.hyps [OF smaller ok1 enough room1] by blast
    have "map fst q' = map fst q"
      using IH(5) law by (simp add: rev_map [symmetric])
    moreover have "same_frame s s'" using law IH(3) same_frame_trans by blast
    ultimately show ?thesis
      using True IH law by (subst push_to_global_loop.simps) (simp add: pass)
  qed
qed

lemma push_to_global_pass_count:
  "push_to_global_pass W J cnt moved es s = (d, es', s') \<Longrightarrow>
     length (sk_entries items es') + d = length (sk_entries items es) + moved"
proof (induction es arbitrary: moved s d es' s')
  case (Cons e es)
  obtain k w where e: "e = (k, w)" by fastforce
  obtain r w' where pop: "wk_pop W w = (r, w')" by fastforce
  show ?case
  proof (cases "moved \<ge> cnt")
    case False
    with Cons.prems pop wpop_None [of w w'] wpop_Some [of w _ w'] show ?thesis
      by (cases r) (auto simp: e split: prod.splits dest!: Cons.IH)
  qed (use Cons.prems in \<open>simp add: e\<close>)
qed simp

lemma push_to_global_loop_returns:
  assumes "push_to_global_loop W J cnt moved q s = Some r"
  shows "cnt \<le> moved + length (sk_entries items q)"
proof -
  have "\<And>W' J'. push_to_global_loop W' J' cnt moved q s = Some r \<Longrightarrow>
      W' = W \<longrightarrow> J' = J \<longrightarrow> cnt \<le> moved + length (sk_entries items q)"
  proof (erule push_to_global_loop.raw_induct [rotated, where P = "\<lambda>W' J' cnt moved q s r.
      W' = W \<longrightarrow> J' = J \<longrightarrow> cnt \<le> moved + length (sk_entries items q)"])
    fix f and W' :: "('w, 'a) worker_ops" and J' :: "('i, 'a) injector_ops"
      and cnt moved q and s :: "('w, 'i) owsq" and r
    assume IH: "\<And>W' J' cnt moved q s r. f W' J' cnt moved q s = Some r \<Longrightarrow>
        W' = W \<longrightarrow> J' = J \<longrightarrow> cnt \<le> moved + length (sk_entries items q)"
      and eq: "(if moved < cnt
          then case push_to_global_pass W' J' cnt moved (rev q) s of
               (moved', es, s') \<Rightarrow> f W' J' cnt moved' (rev es) s'
          else Some (q, s)) = Some r"
    show "W' = W \<longrightarrow> J' = J \<longrightarrow> cnt \<le> moved + length (sk_entries items q)"
    proof (intro impI)
      assume wj: "W' = W" "J' = J"
      show "cnt \<le> moved + length (sk_entries items q)"
      proof (cases "moved < cnt")
        case True
        obtain d es s1 where pass: "push_to_global_pass W J cnt moved (rev q) s = (d, es, s1)"
          by (metis prod_cases3)
        have "cnt \<le> d + length (sk_entries items (rev es))"
          using IH [of W J cnt d "rev es" s1 r] eq True pass by (simp add: wj)
        with push_to_global_pass_count [OF pass] show ?thesis by simp
      qed simp
    qed
  qed
  with assms show ?thesis by blast
qed

lemma push_to_global_law:
  assumes ok: "owsq_ok jitems s" and i: "ol_queue h < length (os_local_queues s)"
    and room: "size (owsq_bag items jitems s) < usize_max"
    and res: "olq_push_to_global W J p x s h = Some (s', h')"
  shows "owsq_ok jitems s' \<and> same_frame s s' \<and> ol_queue h' = ol_queue h
     \<and> ol_stealing h' = ol_stealing h
     \<and> owsq_bag items jitems s' = add_mset (p, x) (owsq_bag items jitems s)"
proof -
  define i where "i = ol_queue h"
  have "push_to_global_loop W J (ol_len h div 2) 0 (own_queue s h) s \<noteq> None"
    using res unfolding olq_push_to_global_def Let_def by (metis option.distinct(1) option.map(1))
  then obtain q s1 where
    loop: "push_to_global_loop W J (ol_len h div 2) 0 (own_queue s h) s = Some (q, s1)" by fast
  have s': "s' = owsq_push_with_priority J p x (set_local i q s1)"
    and h': "h' = h\<lparr>ol_len := ol_len h - ol_len h div 2\<rparr>"
    using res unfolding olq_push_to_global_def Let_def loop i_def by simp_all
  have "length (shared_entries jitems s) + length (sk_entries items (own_queue s h)) \<le> usize_max"
    using size_own_queue [OF i, of jitems items] room by simp
  from push_to_global_loop_total [OF ok push_to_global_loop_returns [OF loop] this]
  obtain q2 s2 where tot: "push_to_global_loop W J (ol_len h div 2) 0 (own_queue s h) s = Some (q2, s2)"
    "owsq_ok jitems s2" "same_frame s s2" "os_local_queues s2 = os_local_queues s"
    "map fst q2 = map fst (own_queue s h)"
    "mset (shared_entries jitems s2) + mset (sk_entries items q2) =
       mset (shared_entries jitems s) + mset (sk_entries items (own_queue s h))"
    by blast
  have eqs: "q2 = q" "s2 = s1" using tot(1) loop by simp_all
  note laws = tot(2-6) [unfolded eqs]
  have "sk_wf (own_queue s h)" using ok assms(2) by (simp add: owsq_ok_def owsq_wf_def)
  with laws(4) have "sk_wf q" by (rule sk_wf_keys)
  then have ok2: "owsq_ok jitems (set_local i q s1)" using laws(1) by (intro set_local_ok)
  have i1: "i < length (os_local_queues s1)" using assms(2) laws(3) by (simp add: i_def)
  have "owsq_bag items jitems s1 + mset (sk_entries items q) =
      owsq_bag items jitems s + mset (local_entries items s1 i)"
    using laws(5) by (simp add: owsq_bag_def locals_bag_def local_entries_def laws(3) i_def ac_simps)
  with set_local_bag [OF i1, of items jitems q]
  have bag: "owsq_bag items jitems (set_local i q s1) = owsq_bag items jitems s" by simp
  have fr: "same_frame s (set_local i q s1)"
    using laws(2) same_frame_trans [OF _ set_local_frame] by blast
  define s2 where "s2 = set_local i q s1"
  have "owsq_ok jitems (owsq_push_with_priority J p x s2)"
    "same_frame s (owsq_push_with_priority J p x s2)"
    "owsq_bag items jitems (owsq_push_with_priority J p x s2) =
       add_mset (p, x) (owsq_bag items jitems s2)"
    using ok2 fr shared_push [of s2 p x] room bag length_shared_le_bag [of jitems s2 items]
    unfolding s2_def [symmetric] by (simp_all add: owsq_ok_def same_frame_def)
  then show ?thesis using bag unfolding s' s2_def [symmetric] h' by simp
qed

lemma get_or_insert_worker:
  assumes "sk_wf q" and "get_or_insert_with p (wk_new W c) q = (w, q')"
  shows "sk_wf q'" and "map_of q' p = Some w" and "sk_entries items q' = sk_entries items q"
    and "items w = (case map_of q p of None \<Rightarrow> [] | Some w' \<Rightarrow> items w')"
  using assms
  by (auto simp: get_or_insert_with_def map_of_sk_put wnew sk_entries_put_same split: option.splits)

text \<open>A local push that returns adds exactly its item, wherever it goes.\<close>

lemma local_push_law:
  assumes ok: "owsq_ok jitems s" and i: "ol_queue h < length (os_local_queues s)"
    and room: "size (owsq_bag items jitems s) < usize_max"
    and res: "olq_push_with_priority W J p x s h = Some (s', h')"
  shows "owsq_ok jitems s' \<and> same_frame s s' \<and> ol_queue h' = ol_queue h
     \<and> ol_stealing h' = ol_stealing h
     \<and> owsq_bag items jitems s' = add_mset (p, x) (owsq_bag items jitems s)"
proof (cases "olq_is_local_full s h")
  case True
  with res have "olq_push_to_global W J p x s h = Some (s', h')"
    by (simp add: olq_push_with_priority_def)
  with ok i room show ?thesis by (rule push_to_global_law)
next
  case False
  obtain w q where wq: "get_or_insert_with p (wk_new W (os_local_capacity s)) (own_queue s h) = (w, q)"
    by fastforce
  have wfq: "sk_wf (own_queue s h)" using ok i by (simp add: owsq_ok_def owsq_wf_def)
  note ins = get_or_insert_worker [OF wfq wq]
  show ?thesis
  proof (cases "wk_push W x w")
    case None
    define s1 where "s1 = set_local (ol_queue h) q s"
    have res1: "olq_push_to_global W J p x s1 h = Some (s', h')"
      using res False None by (simp add: olq_push_with_priority_def wq s1_def)
    have ok1: "owsq_ok jitems s1" unfolding s1_def using ok ins(1) by (rule set_local_ok)
    have fr: "same_frame s s1" by (simp add: s1_def)
    have i1: "ol_queue h < length (os_local_queues s1)" using i by (simp add: s1_def)
    have "owsq_bag items jitems s1 = owsq_bag items jitems s"
      using set_local_bag [OF i, of items jitems q] ins(3) by (simp add: s1_def local_entries_def)
    with push_to_global_law [OF ok1 i1 _ res1] room same_frame_trans [OF fr] show ?thesis by simp
  next
    case (Some w')
    define q' where "q' = sk_put p w' q"
    have s': "s' = set_local (ol_queue h) q' s"
      and h': "h' = h\<lparr>ol_len := usat_add (ol_len h) 1\<rparr>"
      using res False Some by (simp_all add: olq_push_with_priority_def wq q'_def)
    have "items w' = items w @ [x]" using wpush [OF Some] by simp
    with ins have ent: "sk_entries items q' = pq_insert p x (local_entries items s (ol_queue h))"
      by (simp add: q'_def sk_entries_put_push local_entries_def)
    have "owsq_ok jitems s'" unfolding s' using ok ins(1) by (intro set_local_ok) (simp_all add: q'_def)
    moreover have "owsq_bag items jitems s' = add_mset (p, x) (owsq_bag items jitems s)"
      using set_local_bag [OF i, of items jitems q'] ent by (simp add: s')
    ultimately show ?thesis by (simp add: s' h')
  qed
qed

text \<open>
  A local push into a handle that is not full goes to the handle's own queue, behind the items
  of the same priority, if the worker of that priority has room.
\<close>

lemma local_push_ordered:
  assumes ok: "owsq_ok jitems s" and i: "ol_queue h < length (os_local_queues s)"
    and room: "ol_len h < os_local_capacity s"
    and cap: "\<forall>w. map_of (own_queue s h) p = Some w \<longrightarrow> length (items w) < wk_capacity W w"
  shows "\<exists>s' h'. olq_push_with_priority W J p x s h = Some (s', h')
     \<and> local_entries items s' (ol_queue h) = pq_insert p x (local_entries items s (ol_queue h))
     \<and> shared_entries jitems s' = shared_entries jitems s"
proof -
  obtain w q where wq: "get_or_insert_with p (wk_new W (os_local_capacity s)) (own_queue s h) = (w, q)"
    by fastforce
  have wfq: "sk_wf (own_queue s h)" using ok i by (simp add: owsq_ok_def owsq_wf_def)
  note ins = get_or_insert_worker [OF wfq wq]
  have "length (items w) < wk_capacity W w"
  proof (cases "map_of (own_queue s h) p")
    case None
    then have "w = wk_new W (os_local_capacity s)" using wq by (simp add: get_or_insert_with_def)
    then show ?thesis using wnew_cap [of "os_local_capacity s"] room by (simp add: wnew)
  next
    case (Some w')
    then have "w = w'" using wq by (simp add: get_or_insert_with_def)
    with cap Some show ?thesis by simp
  qed
  then obtain w' where push: "wk_push W x w = Some w'" using wpush_room [of w x] by fast
  have "items w' = items w @ [x]" using wpush [OF push] by simp
  with ins have ent: "sk_entries items (sk_put p w' q) = pq_insert p x (local_entries items s (ol_queue h))"
    by (simp add: sk_entries_put_push local_entries_def)
  show ?thesis
    using room i push ent by (simp add: olq_push_with_priority_def olq_is_local_full_def wq)
qed

lemma sk_entries_Nil_lookup: "sk_entries f m = [] \<Longrightarrow> map_of m k = Some v \<Longrightarrow> f v = []"
  by (induction m) (auto split: if_splits)

text \<open>One successful steal moves items from the sibling to the (empty) own queue.\<close>

lemma steal_one_bag:
  assumes ok: "owsq_ok jitems s" and i: "i < length (os_local_queues s)"
    and o: "j < length (os_local_queues s)" and "i \<noteq> j"
    and emp: "local_entries items s j = []"
    and wi: "map_of (os_local_queues s ! i) k = Some worker"
    and wj: "map_of (os_local_queues s ! j) k = Some into"
    and steal: "wk_steal W worker into f = Some (worker', into')"
  defines "s' \<equiv> set_local j (sk_put k into' (os_local_queues s ! j))
                 (set_local i (sk_put k worker' (os_local_queues s ! i)) s)"
  shows "owsq_ok jitems s' \<and> owsq_bag items jitems s' = owsq_bag items jitems s
     \<and> local_entries items s' j \<noteq> [] \<and> shared_entries jitems s' = shared_entries jitems s"
proof -
  define qi where "qi = os_local_queues s ! i"
  define qj where "qj = os_local_queues s ! j"
  define A where "A = sk_put k worker' qi"
  define B where "B = sk_put k into' qj"
  define s1 where "s1 = set_local i A s"
  have s': "s' = set_local j B s1" by (simp add: s'_def s1_def A_def B_def qi_def qj_def)
  have wf: "sk_wf qi" "sk_wf qj" using ok i o by (simp_all add: qi_def qj_def owsq_ok_def owsq_wf_def)
  have o1: "j < length (os_local_queues s1)" using o by (simp add: s1_def)
  have lj: "local_entries items s1 j = []" using emp \<open>i \<noteq> j\<close> by (simp add: s1_def local_entries_def)
  have into: "items into = []"
    by (rule sk_entries_Nil_lookup [OF emp [unfolded local_entries_def] wj])
  obtain n where n: "0 < n" "n \<le> length (items worker)" "items worker' = drop n (items worker)"
      "items into' = take n (items worker)"
    using wsteal [OF steal] into by auto
  have mA: "mset (sk_entries items A) + mset (map (Pair k) (items worker)) =
      mset (sk_entries items qi) + mset (map (Pair k) (items worker'))"
    unfolding A_def using wf(1) wi by (intro mset_sk_entries_put) (simp_all add: qi_def)
  have mB: "mset (sk_entries items B) = mset (map (Pair k) (items into'))"
    using mset_sk_entries_put [OF wf(2), of k into items into'] wj into emp
    by (simp add: B_def qj_def local_entries_def)
  have split: "mset (map (Pair k) (items worker)) =
      mset (map (Pair k) (items worker')) + mset (map (Pair k) (items into'))"
    unfolding n(3,4) by (metis append_take_drop_id map_append mset_append union_commute)
  have b1: "owsq_bag items jitems s1 + mset (sk_entries items qi) =
      owsq_bag items jitems s + mset (sk_entries items A)"
    using set_local_bag [OF i, of items jitems A] by (simp add: s1_def local_entries_def qi_def)
  have b2: "owsq_bag items jitems s' = owsq_bag items jitems s1 + mset (sk_entries items B)"
    using set_local_bag [OF o1, of items jitems B] lj by (simp add: s')
  have "owsq_bag items jitems s' + mset (sk_entries items qi) + mset (map (Pair k) (items worker)) =
      (owsq_bag items jitems s1 + mset (sk_entries items qi))
        + mset (map (Pair k) (items into')) + mset (map (Pair k) (items worker))"
    by (simp only: b2 mB ac_simps)
  also have "\<dots> = owsq_bag items jitems s
        + (mset (sk_entries items A) + mset (map (Pair k) (items worker)))
        + mset (map (Pair k) (items into'))"
    unfolding b1 by (simp only: ac_simps)
  also have "\<dots> = owsq_bag items jitems s + mset (sk_entries items qi)
        + mset (map (Pair k) (items worker))"
    unfolding mA by (simp only: split ac_simps)
  finally have bag: "owsq_bag items jitems s' = owsq_bag items jitems s" by simp
  have "owsq_ok jitems s'" unfolding s' s1_def
    using ok wf by (intro set_local_ok) (simp_all add: A_def B_def)
  moreover have "local_entries items s' j = sk_entries items B" using o1 by (simp add: s')
  then have "local_entries items s' j \<noteq> []" using mB n by auto
  moreover have "shared_entries jitems s' = shared_entries jitems s"
    by (simp add: shared_entries_def s' s1_def)
  ultimately show ?thesis using bag by blast
qed

lemma steal_from_sibling_law:
  assumes "owsq_ok jitems s" and "i < length (os_local_queues s)"
    and "ol_queue h < length (os_local_queues s)"
    and "local_entries items s (ol_queue h) = []"
    and "steal_from_sibling W i ks s h = (b, s', h')"
  shows "owsq_ok jitems s' \<and> same_frame s s' \<and> ol_queue h' = ol_queue h
     \<and> ol_stealing h' = ol_stealing h
     \<and> owsq_bag items jitems s' = owsq_bag items jitems s
     \<and> shared_entries jitems s' = shared_entries jitems s
     \<and> (b \<longleftrightarrow> local_entries items s' (ol_queue h) \<noteq> [])"
  using assms
proof (induction ks arbitrary: s)
  case (Cons k ks)
  define j where "j = ol_queue h"
  show ?case
  proof (cases "\<exists>worker. map_of (os_local_queues s ! i) k = Some worker \<and> \<not> wk_is_empty W worker")
    case False
    then have "steal_from_sibling W i ks s h = (b, s', h')"
      using Cons.prems(5) by (auto split: option.splits)
    with Cons.prems(1-4) show ?thesis by (rule Cons.IH)
  next
    case True
    then obtain worker where wi: "map_of (os_local_queues s ! i) k = Some worker"
      and ne: "items worker \<noteq> []" by (auto simp: wempty)
    have ij: "i \<noteq> j"
      using Cons.prems(4) wi ne sk_entries_Nil_lookup [of items "os_local_queues s ! j" k worker]
      by (auto simp: local_entries_def j_def)
    obtain into own where io:
      "get_or_insert_with k (wk_new W (os_local_capacity s)) (own_queue s h) = (into, own)"
      by fastforce
    have "sk_wf (own_queue s h)" using Cons.prems(1,3) by (simp add: owsq_ok_def owsq_wf_def)
    note ins = get_or_insert_worker [OF this io]
    define s1 where "s1 = set_local j own s"
    have ok1: "owsq_ok jitems s1" unfolding s1_def using Cons.prems(1) ins(1) by (rule set_local_ok)
    have len1: "i < length (os_local_queues s1)" "j < length (os_local_queues s1)"
      using Cons.prems(2,3) by (simp_all add: s1_def j_def)
    have emp1: "local_entries items s1 j = []"
      using Cons.prems(3,4) ins(3) by (simp add: s1_def j_def local_entries_def)
    have bag1: "owsq_bag items jitems s1 = owsq_bag items jitems s"
      using set_local_bag [OF Cons.prems(3), of items jitems own] ins(3)
      by (simp add: s1_def j_def local_entries_def)
    have fr1: "same_frame s s1" and sh1: "shared_entries jitems s1 = shared_entries jitems s"
      by (simp_all add: s1_def)
    define f where "f = steal_count W s h worker"
    show ?thesis
    proof (cases "wk_steal W worker into f")
      case None
      then have "steal_from_sibling W i ks s1 h = (b, s', h')"
        using Cons.prems(5) wi ne by (simp add: io wempty Let_def f_def [symmetric] s1_def j_def)
      with Cons.IH [OF ok1 len1(1)] len1(2) emp1 bag1 sh1 same_frame_trans [OF fr1]
      show ?thesis unfolding j_def by metis
    next
      case (Some ab)
      then obtain worker' into' where st: "wk_steal W worker into f = Some (worker', into')"
        by (cases ab) simp
      have qi: "os_local_queues s1 ! i = os_local_queues s ! i" using ij by (simp add: s1_def)
      have qj: "os_local_queues s1 ! j = own" using Cons.prems(3) by (simp add: s1_def j_def)
      define s2 where "s2 = set_local j (sk_put k into' (os_local_queues s1 ! j))
                 (set_local i (sk_put k worker' (os_local_queues s1 ! i)) s1)"
      have "b" and s': "s' = s2" and h': "ol_queue h' = j" "ol_stealing h' = ol_stealing h"
        using Cons.prems(5) wi ne ij st
        by (auto simp: io wempty Let_def f_def [symmetric] s1_def j_def s2_def qj)
      have fr2: "same_frame s s2" using fr1 by (simp add: s2_def same_frame_def)
      have mi: "map_of (os_local_queues s1 ! i) k = Some worker" using wi by (simp add: qi)
      have mj: "map_of (os_local_queues s1 ! j) k = Some into" using ins(2) by (simp add: qj)
      have law: "owsq_ok jitems s2 \<and> owsq_bag items jitems s2 = owsq_bag items jitems s1
          \<and> local_entries items s2 j \<noteq> [] \<and> shared_entries jitems s2 = shared_entries jitems s1"
        unfolding s2_def by (rule steal_one_bag [OF ok1 len1 ij emp1 mi mj st])
      show ?thesis
        unfolding s' j_def [symmetric] h' using \<open>b\<close> fr2 law bag1 sh1 by (intro conjI) simp_all
    qed
  qed
qed simp

lemma steal_siblings_law:
  assumes "owsq_ok jitems s" and "ol_queue h < length (os_local_queues s)"
    and "local_entries items s (ol_queue h) = []"
    and "steal_siblings W start is s h = (b, s', h')"
  shows "owsq_ok jitems s' \<and> same_frame s s' \<and> ol_queue h' = ol_queue h
     \<and> ol_stealing h' = ol_stealing h
     \<and> owsq_bag items jitems s' = owsq_bag items jitems s
     \<and> shared_entries jitems s' = shared_entries jitems s
     \<and> (b \<longleftrightarrow> local_entries items s' (ol_queue h) \<noteq> [])"
  using assms
proof (induction "is" arbitrary: s h)
  case (Cons i "is")
  define n where "n = length (os_local_queues s)"
  define j where "j = (start + i) mod n"
  show ?case
  proof (cases "olq_can_steal s h")
    case False
    with Cons.prems show ?thesis by simp
  next
    case True
    obtain b1 s1 h1 where one:
      "steal_from_sibling W j (map fst (os_local_queues s ! j)) s h = (b1, s1, h1)"
      by (metis prod_cases3)
    have j: "j < length (os_local_queues s)"
      using Cons.prems(2) by (auto simp: j_def n_def intro!: mod_less_divisor)
    note law = steal_from_sibling_law [OF Cons.prems(1) j Cons.prems(2,3) one]
    show ?thesis
    proof (cases b1)
      case True
      with Cons.prems(4) \<open>olq_can_steal s h\<close> one law show ?thesis
        by (auto simp: j_def n_def Let_def)
    next
      case False
      then have rec: "steal_siblings W start is s1 h1 = (b, s', h')"
        using Cons.prems(4) \<open>olq_can_steal s h\<close> one by (auto simp: j_def n_def Let_def)
      have "ol_queue h1 < length (os_local_queues s1)" "local_entries items s1 (ol_queue h1) = []"
        "owsq_ok jitems s1"
        using law False Cons.prems(2) by (auto simp: same_frame_def)
      with Cons.IH [of s1 h1] rec law show ?thesis
        using same_frame_trans [of s s1 s'] by auto
    qed
  qed
qed simp

lemma shared_pop_bag:
  assumes "owsq_ok jitems s"
  shows "\<exists>r s'. owsq_pop J s = Some (r, s') \<and> owsq_ok jitems s' \<and> same_frame s s'
     \<and> os_local_queues s' = os_local_queues s
     \<and> (case r of
          None \<Rightarrow> shared_entries jitems s = [] \<and> owsq_bag items jitems s' = owsq_bag items jitems s
        | Some x \<Rightarrow> \<exists>p. shared_entries jitems s = (p, x) # shared_entries jitems s'
            \<and> owsq_bag items jitems s = add_mset (p, x) (owsq_bag items jitems s'))"
proof -
  obtain r s' where pop: "owsq_pop J s = Some (r, s')"
    and fr: "os_local_queues s' = os_local_queues s" "os_local_capacity s' = os_local_capacity s"
      "os_index s' = os_index s" "map fst (os_shared_queue s') = map fst (os_shared_queue s)"
    and res: "case r of
        None \<Rightarrow> shared_entries jitems s = [] \<and> shared_entries jitems s' = [] \<and> os_len s' = os_len s
      | Some x \<Rightarrow> (\<exists>p. shared_entries jitems s = (p, x) # shared_entries jitems s')
           \<and> os_len s' = os_len s - 1"
    using shared_pop [of s] assms unfolding owsq_ok_def by blast
  have wf: "owsq_wf s'"
    using assms sk_wf_keys [OF fr(4)] fr(1) by (simp add: owsq_ok_def owsq_wf_def)
  have bag: "locals_bag items s' = locals_bag items s" by (simp add: locals_bag_def fr)
  have frame: "same_frame s s'" by (simp add: same_frame_def fr)
  show ?thesis
  proof (cases r)
    case None
    with res assms have "owsq_len_ok jitems s'" by (simp add: owsq_ok_def owsq_len_ok_def)
    with None res wf bag frame fr pop show ?thesis by (simp add: owsq_ok_def owsq_bag_def)
  next
    case (Some x)
    then obtain p where e: "shared_entries jitems s = (p, x) # shared_entries jitems s'"
      and "os_len s' = os_len s - 1" using res by auto
    with assms have "owsq_len_ok jitems s'" by (simp add: owsq_ok_def owsq_len_ok_def)
    with Some e wf bag frame fr pop show ?thesis by (simp add: owsq_ok_def owsq_bag_def)
  qed
qed

lemma popped_shared:
  assumes "owsq_ok jitems s"
  shows "\<exists>r s'. owsq_pop J s = Some (r, s') \<and> popped items jitems r s s'
     \<and> os_local_queues s' = os_local_queues s
     \<and> (case r of None \<Rightarrow> shared_entries jitems s = []
        | Some x \<Rightarrow> \<exists>p. shared_entries jitems s = (p, x) # shared_entries jitems s')"
proof -
  from shared_pop_bag [OF assms] obtain r s' where *: "owsq_pop J s = Some (r, s')" "owsq_ok jitems s'"
    "same_frame s s'" "os_local_queues s' = os_local_queues s"
    "case r of
          None \<Rightarrow> shared_entries jitems s = [] \<and> owsq_bag items jitems s' = owsq_bag items jitems s
        | Some x \<Rightarrow> \<exists>p. shared_entries jitems s = (p, x) # shared_entries jitems s'
            \<and> owsq_bag items jitems s = add_mset (p, x) (owsq_bag items jitems s')"
    by blast
  then show ?thesis by (cases r) (auto simp: popped_def)
qed

lemma popped_local:
  assumes "owsq_ok jitems s" and "ol_queue h < length (os_local_queues s)"
    and "olq_pop_local W s h = (r, s', h')"
  shows "popped items jitems r s s'"
  using pop_local_law [OF assms] by (cases r) (auto simp: popped_def)

lemma popped_after:
  assumes "popped items jitems r s1 s'"
    and "owsq_bag items jitems s1 = owsq_bag items jitems s" and "same_frame s s1"
  shows "popped items jitems r s s'"
  using assms same_frame_trans [of s s1 s'] by (cases r) (auto simp: popped_def)

lemma popped_None: "popped items jitems None s s' \<Longrightarrow> owsq_bag items jitems s' = owsq_bag items jitems s
    \<and> owsq_ok jitems s' \<and> same_frame s s'"
  by (simp add: popped_def)

text \<open>
  The second half of \<open>pop\<close>, once the own queue was found empty: steal and pop locally, or
  fall back to the global queue. \<open>None\<close> then means that nothing was in the global queue.
\<close>

lemma pop_steal_law:
  assumes ok: "owsq_ok jitems s" and i: "ol_queue h < length (os_local_queues s)"
    and emp: "local_entries items s (ol_queue h) = []"
    and res: "steal_siblings W start is s h = (b, s3, h3)"
  shows "\<exists>r s' h'. (if b then Some (olq_pop_local W s3 (h3\<lparr>ol_stealing := False\<rparr>))
        else map_option (\<lambda>(r, s''). (r, s'', h3\<lparr>ol_stealing := False\<rparr>)) (owsq_pop J s3)) = Some (r, s', h')
     \<and> popped items jitems r s s' \<and> ol_queue h' = ol_queue h \<and> \<not> ol_stealing h'
     \<and> (r = None \<longrightarrow> shared_entries jitems s = [])"
proof -
  note law = steal_siblings_law [OF ok i emp res]
  define h4 where "h4 = h3\<lparr>ol_stealing := False\<rparr>"
  have ok3: "owsq_ok jitems s3" using law by blast
  have i3: "ol_queue h4 < length (os_local_queues s3)"
    using law i by (simp add: h4_def same_frame_def)
  show ?thesis
  proof (cases b)
    case True
    obtain r s' h' where pop: "olq_pop_local W s3 h4 = (r, s', h')" by (metis prod_cases3)
    have ne: "local_entries items s3 (ol_queue h4) \<noteq> []" using law True by (simp add: h4_def)
    have "r \<noteq> None" using pop_local_law(6) [OF ok3 i3 pop] ne by (cases r) auto
    moreover have "popped items jitems r s s'"
      using law by (intro popped_after [OF popped_local [OF ok3 i3 pop]]) blast+
    moreover have "ol_queue h' = ol_queue h" "\<not> ol_stealing h'"
      using pop_local_law(3,4) [OF ok3 i3 pop] law by (simp_all add: h4_def)
    ultimately show ?thesis
      using True pop by (auto simp: h4_def)
  next
    case False
    obtain r s' where pop: "owsq_pop J s3 = Some (r, s')" "popped items jitems r s3 s'"
      "case r of None \<Rightarrow> shared_entries jitems s3 = []
        | Some x \<Rightarrow> \<exists>p. shared_entries jitems s3 = (p, x) # shared_entries jitems s'"
      using popped_shared [OF ok3] by blast
    have "popped items jitems r s s'" using law by (intro popped_after [OF pop(2)]) blast+
    moreover have "r = None \<longrightarrow> shared_entries jitems s = []" using pop(3) law by auto
    moreover have "ol_queue h4 = ol_queue h" "\<not> ol_stealing h4" using law by (simp_all add: h4_def)
    ultimately show ?thesis using False pop(1) by (simp add: h4_def)
  qed
qed

text \<open>
  \<open>pop\<close> always returns, keeps the invariant, takes at most its result out of the system, and
  answers \<open>None\<close> only if neither the own nor the global queue held an item.
\<close>

lemma pop_law:
  assumes ok: "owsq_ok jitems s" and i: "ol_queue h < length (os_local_queues s)"
  shows "\<exists>r s' h'. olq_pop W J start s h = Some (r, s', h') \<and> popped items jitems r s s'
     \<and> ol_queue h' = ol_queue h \<and> ol_stealing h' = ol_stealing h
     \<and> (r = None \<longrightarrow> local_entries items s (ol_queue h) = [] \<and> shared_entries jitems s = [])"
proof -
  obtain t h1 where tick: "olq_do_tick h = (t, h1)" by fastforce
  have h1: "ol_queue h1 = ol_queue h" "ol_stealing h1 = ol_stealing h"
    using tick by (auto simp: olq_do_tick_def Let_def split: if_splits)
  have none: "popped items jitems None s s" using ok by (simp add: popped_def)
  obtain r1 s1 where first: "(if t mod 61 = 0 then owsq_pop J s else Some (None, s)) = Some (r1, s1)"
    "popped items jitems r1 s s1" "os_local_queues s1 = os_local_queues s"
    using popped_shared [OF ok] none by (cases "t mod 61 = 0") auto
  show ?thesis
  proof (cases r1)
    case (Some x)
    with first tick h1 show ?thesis by (simp add: olq_pop_def)
  next
    case None
    note p1 = popped_None [OF first(2) [unfolded None]]
    have ok1: "owsq_ok jitems s1" and i1: "ol_queue h1 < length (os_local_queues s1)"
      using p1 i h1 first(3) by simp_all
    obtain r2 s2 h2 where loc: "olq_pop_local W s1 h1 = (r2, s2, h2)" by (metis prod_cases3)
    note law2 = pop_local_law [OF ok1 i1 loc]
    have p2: "popped items jitems r2 s s2"
      using p1 by (intro popped_after [OF popped_local [OF ok1 i1 loc]]) blast+
    show ?thesis
    proof (cases r2)
      case (Some x)
      with None first tick h1 loc p2 law2 show ?thesis by (simp add: olq_pop_def)
    next
      case r2: None
      have empty: "local_entries items s (ol_queue h) = []"
        using law2(6) first(3) by (simp add: r2 local_entries_def h1)
      have i2: "ol_queue h2 < length (os_local_queues s2)"
        and ok2: "owsq_ok jitems s2" and e2: "local_entries items s2 (ol_queue h2) = []"
        using law2 i1 by (simp_all add: same_frame_def r2)
      have sh: "shared_entries jitems s2 = [] \<Longrightarrow> shared_entries jitems s = []"
      proof -
        assume "shared_entries jitems s2 = []"
        then have "shared_entries jitems s1 = []" using law2(5) by simp
        then have "owsq_bag items jitems s = locals_bag items s"
          using p1 first(3) by (simp add: owsq_bag_def locals_bag_def)
        then show ?thesis by (simp add: owsq_bag_def)
      qed
      note p2' = popped_None [OF p2 [unfolded r2]]
      show ?thesis
      proof (cases "ol_stealing h2")
        case True
        obtain r s' where pop: "owsq_pop J s2 = Some (r, s')" "popped items jitems r s2 s'"
          "case r of None \<Rightarrow> shared_entries jitems s2 = []
            | Some x \<Rightarrow> \<exists>p. shared_entries jitems s2 = (p, x) # shared_entries jitems s'"
          using popped_shared [OF ok2] by blast
        have "popped items jitems r s s'" using p2' by (intro popped_after [OF pop(2)]) blast+
        moreover have "olq_pop W J start s h = Some (r, s', h2)"
          using True None r2 first(1) tick loc pop(1) by (simp add: olq_pop_def)
        moreover have "r = None \<longrightarrow> shared_entries jitems s = []" using pop(3) sh by auto
        ultimately show ?thesis using law2(3,4) h1 empty by simp
      next
        case False
        obtain b s3 h3 where st: "steal_siblings W start [0..<length (os_local_queues s2)] s2
            (h2\<lparr>ol_stealing := True\<rparr>) = (b, s3, h3)" by (metis prod_cases3)
        obtain r s' h' where fin: "(if b then Some (olq_pop_local W s3 (h3\<lparr>ol_stealing := False\<rparr>))
            else map_option (\<lambda>(r, s''). (r, s'', h3\<lparr>ol_stealing := False\<rparr>)) (owsq_pop J s3)) =
              Some (r, s', h')"
          "popped items jitems r s2 s'" "ol_queue h' = ol_queue h2" "\<not> ol_stealing h'"
          "r = None \<longrightarrow> shared_entries jitems s2 = []"
          using pop_steal_law [of s2 "h2\<lparr>ol_stealing := True\<rparr>", OF ok2 _ _ st] i2 e2 by auto
        have "popped items jitems r s s'"
          using p2' by (intro popped_after [OF fin(2)]) blast+
        moreover have "olq_pop W J start s h = Some (r, s', h')"
          using False None r2 first(1) tick loc st fin(1)
          by (simp add: olq_pop_def split: if_splits bool.splits)
        ultimately show ?thesis using False fin(3-5) law2(3,4) h1 empty sh by auto
      qed
    qed
  qed
qed

text \<open>
  Which queue serves a pop: every 61st tick the global one first, otherwise the own one in
  priority order.
\<close>

lemma pop_tick_61:
  assumes "owsq_ok jitems s" and "fst (olq_do_tick h) mod 61 = 0"
    and "shared_entries jitems s = (p, x) # es"
  shows "\<exists>s' h'. olq_pop W J start s h = Some (Some x, s', h')
     \<and> shared_entries jitems s' = es \<and> os_local_queues s' = os_local_queues s"
proof -
  obtain r s' where "owsq_pop J s = Some (r, s')" "os_local_queues s' = os_local_queues s"
    "case r of None \<Rightarrow> shared_entries jitems s = []
        | Some x \<Rightarrow> \<exists>p. shared_entries jitems s = (p, x) # shared_entries jitems s'"
    using popped_shared [OF assms(1)] by blast
  with assms(2,3) show ?thesis
    by (cases r; cases "olq_do_tick h") (auto simp: olq_pop_def)
qed

lemma pop_own_first:
  assumes ok: "owsq_ok jitems s" and i: "ol_queue h < length (os_local_queues s)"
    and "fst (olq_do_tick h) mod 61 \<noteq> 0"
    and "local_entries items s (ol_queue h) = (p, x) # es"
  shows "\<exists>s' h'. olq_pop W J start s h = Some (Some x, s', h')
     \<and> local_entries items s' (ol_queue h) = es \<and> shared_entries jitems s' = shared_entries jitems s"
proof -
  obtain t h1 where tick: "olq_do_tick h = (t, h1)" by fastforce
  have h1: "ol_queue h1 = ol_queue h"
    using tick by (auto simp: olq_do_tick_def Let_def split: if_splits)
  obtain r s' h' where loc: "olq_pop_local W s h1 = (r, s', h')" by (metis prod_cases3)
  note law = pop_local_law [OF ok i [folded h1] loc]
  show ?thesis
  proof (cases r)
    case None
    with law(6) assms(4) show ?thesis by (simp add: h1)
  next
    case (Some y)
    with law(5,6) assms(3,4) tick loc show ?thesis by (auto simp: olq_pop_def h1)
  qed
qed

text \<open>
  When \<open>push_to_global\<close> returns: exactly if the own queue really holds half of what the
  handle's counter says.
\<close>

lemma push_to_global_hangs_iff:
  assumes ok: "owsq_ok jitems s" and i: "ol_queue h < length (os_local_queues s)"
    and room: "size (owsq_bag items jitems s) < usize_max"
  shows "olq_push_to_global W J p x s h = None \<longleftrightarrow>
    length (local_entries items s (ol_queue h)) < ol_len h div 2"
proof -
  have len: "length (shared_entries jitems s) + length (sk_entries items (own_queue s h)) \<le> usize_max"
    using size_own_queue [OF i, of jitems items] room by simp
  have "push_to_global_loop W J (ol_len h div 2) 0 (own_queue s h) s = None \<longleftrightarrow>
      length (sk_entries items (own_queue s h)) < ol_len h div 2"
  proof (cases "ol_len h div 2 \<le> 0 + length (sk_entries items (own_queue s h))")
    case True
    then obtain r where "push_to_global_loop W J (ol_len h div 2) 0 (own_queue s h) s = Some r"
      using push_to_global_loop_total [OF ok True len] by blast
    with True show ?thesis by simp
  next
    case False
    then have "push_to_global_loop W J (ol_len h div 2) 0 (own_queue s h) s = None"
      using push_to_global_loop_returns [of "ol_len h div 2" 0 "own_queue s h" s] by (meson not_Some_eq)
    with False show ?thesis by simp
  qed
  then show ?thesis by (simp add: olq_push_to_global_def Let_def local_entries_def)
qed

end

section \<open>A single handle\<close>

text \<open>
  With one local queue and one handle on it nothing can be stolen, the handle's counter does not
  exceed what its queue holds, and so every operation returns. \<open>sole\<close> is that invariant; it asks
  nothing of the global queue.
\<close>

definition sole :: "('w \<Rightarrow> 'a list) \<Rightarrow> ('w, 'i) owsq \<times> olq \<Rightarrow> bool" where
  "sole items q \<longleftrightarrow> (case q of (s, h) \<Rightarrow> length (os_local_queues s) = 1 \<and> ol_queue h = 0
     \<and> sk_wf (os_local_queues s ! 0) \<and> ol_len h \<le> length (sk_entries items (os_local_queues s ! 0)))"

lemma owsq_push_locals [simp]:
  "os_local_queues (owsq_push_with_priority J p x s) = os_local_queues s"
  "os_local_capacity (owsq_push_with_priority J p x s) = os_local_capacity s"
  by (simp_all add: owsq_push_with_priority_def split: prod.splits)

context deques
begin

lemma push_to_global_pass_progress:
  "push_to_global_pass W J cnt moved es s = (d, es', s') \<Longrightarrow>
     os_local_queues s' = os_local_queues s \<and> map fst es' = map fst es
     \<and> moved \<le> d \<and> (moved \<le> cnt \<longrightarrow> d \<le> cnt)
     \<and> (moved < cnt \<longrightarrow> sk_entries items es \<noteq> [] \<longrightarrow> moved < d)"
proof (induction es arbitrary: moved s d es' s')
  case (Cons e es)
  obtain k w where e: "e = (k, w)" by fastforce
  obtain r w' where pop: "wk_pop W w = (r, w')" by fastforce
  show ?case
  proof (cases "moved \<ge> cnt")
    case True
    with Cons.prems show ?thesis by (auto simp: e)
  next
    case False
    show ?thesis
    proof (cases r)
      case None
      then have w: "items w = []" using pop wpop_None by auto
      obtain es1 where rec: "push_to_global_pass W J cnt moved es s = (d, es1, s')"
        and es': "es' = (k, w') # es1"
        using Cons.prems False pop None by (auto simp: e split: prod.splits)
      from Cons.IH [OF rec] w show ?thesis by (simp add: es' e)
    next
      case (Some x)
      obtain es1 where rec: "push_to_global_pass W J cnt (moved + 1) es
          (owsq_push_with_priority J k x s) = (d, es1, s')"
        and es': "es' = (k, w') # es1"
        using Cons.prems False pop Some by (auto simp: e split: prod.splits)
      from Cons.IH [OF rec] False show ?thesis by (simp add: es' e)
    qed
  qed
qed simp

lemma push_to_global_loop_moves:
  assumes "moved \<le> cnt" and "cnt \<le> moved + length (sk_entries items q)"
  shows "\<exists>q' s'. push_to_global_loop W J cnt moved q s = Some (q', s')
     \<and> os_local_queues s' = os_local_queues s \<and> map fst q' = map fst q
     \<and> length (sk_entries items q') + cnt = length (sk_entries items q) + moved"
  using assms
proof (induction "cnt - moved" arbitrary: moved q s rule: less_induct)
  case less
  show ?case
  proof (cases "moved < cnt")
    case False
    with less.prems show ?thesis by (subst push_to_global_loop.simps) simp
  next
    case True
    obtain d es s1 where pass: "push_to_global_pass W J cnt moved (rev q) s = (d, es, s1)"
      by (metis prod_cases3)
    note law = push_to_global_pass_progress [OF pass] push_to_global_pass_count [OF pass]
    have "sk_entries items (rev q) \<noteq> []"
      using less.prems(2) True by (metis add.right_neutral leD length_sk_entries_rev list.size(3))
    with law True have d: "moved < d" "d \<le> cnt" by simp_all
    have smaller: "cnt - d < cnt - moved" using d True by linarith
    have enough: "cnt \<le> d + length (sk_entries items (rev es))" using law(2) less.prems(2) by simp
    obtain q' s' where IH: "push_to_global_loop W J cnt d (rev es) s1 = Some (q', s')"
      "os_local_queues s' = os_local_queues s1" "map fst q' = map fst (rev es)"
      "length (sk_entries items q') + cnt = length (sk_entries items (rev es)) + d"
      using less.hyps [OF smaller d(2) enough, of s1] by blast
    have "map fst q' = map fst q" using IH(3) law(1) by (simp add: rev_map [symmetric])
    with True IH law pass show ?thesis by (subst push_to_global_loop.simps) simp
  qed
qed

lemma length_worker_put:
  assumes "sk_wf m" and "map_of m k = Some w"
  shows "length (sk_entries items (sk_put k w' m)) + length (items w) =
    length (sk_entries items m) + length (items w')"
proof -
  have "mset (sk_entries items (sk_put k w' m)) + mset (map (Pair k) (items w)) =
      mset (sk_entries items m) + mset (map (Pair k) (items w'))"
    using assms by (intro mset_sk_entries_put)
  then show ?thesis by (metis length_map size_mset size_union)
qed

lemma sole_push_to_global:
  assumes "sole items (s, h)"
  shows "\<exists>q'. olq_push_to_global W J p x s h = Some q' \<and> sole items q'"
proof -
  define n where "n = ol_len h div 2"
  have so: "length (os_local_queues s) = 1" "ol_queue h = 0" "sk_wf (os_local_queues s ! 0)"
    "ol_len h \<le> length (sk_entries items (os_local_queues s ! 0))" using assms by (simp_all add: sole_def)
  have n: "n \<le> length (sk_entries items (os_local_queues s ! 0))"
    using so(4) div_le_dividend [of "ol_len h" 2] by (simp add: n_def)
  obtain q s' where loop: "push_to_global_loop W J n 0 (os_local_queues s ! 0) s = Some (q, s')"
    "os_local_queues s' = os_local_queues s" "map fst q = map fst (os_local_queues s ! 0)"
    "length (sk_entries items q) + n = length (sk_entries items (os_local_queues s ! 0))"
    using push_to_global_loop_moves [of 0 n "os_local_queues s ! 0" s] n by auto
  have "sk_wf q" using loop(3) so(3) by (rule sk_wf_keys)
  moreover have "ol_len h - n \<le> length (sk_entries items q)" using loop(4) so(4) by simp
  ultimately show ?thesis
    using loop(1,2) so(1,2) by (simp add: olq_push_to_global_def Let_def n_def [symmetric] sole_def)
qed

lemma sole_push:
  assumes "sole items (s, h)"
  shows "\<exists>q'. olq_push_with_priority W J p x s h = Some q' \<and> sole items q'"
proof (cases "olq_is_local_full s h")
  case True
  with sole_push_to_global [OF assms] show ?thesis by (simp add: olq_push_with_priority_def)
next
  case False
  have so: "length (os_local_queues s) = 1" "ol_queue h = 0" "sk_wf (os_local_queues s ! 0)"
    "ol_len h \<le> length (sk_entries items (os_local_queues s ! 0))" using assms by (simp_all add: sole_def)
  obtain w q where wq: "get_or_insert_with p (wk_new W (os_local_capacity s)) (os_local_queues s ! 0) = (w, q)"
    by fastforce
  note ins = get_or_insert_worker [OF so(3) wq]
  show ?thesis
  proof (cases "wk_push W x w")
    case None
    have "sole items (set_local 0 q s, h)" using so ins by (simp add: sole_def)
    from sole_push_to_global [OF this, of p x] None False so(2) wq show ?thesis
      by (simp add: olq_push_with_priority_def)
  next
    case (Some w')
    have "length (items w') = Suc (length (items w))" using wpush [OF Some] by simp
    with length_worker_put [OF ins(1,2), of w'] ins(3)
    have "length (sk_entries items (sk_put p w' q)) = Suc (length (sk_entries items (os_local_queues s ! 0)))"
      by simp
    moreover have "usat_add (ol_len h) 1 \<le> Suc (ol_len h)" by (simp add: usat_add_def)
    ultimately have "sole items (set_local 0 (sk_put p w' q) s, h\<lparr>ol_len := usat_add (ol_len h) 1\<rparr>)"
      using so ins(1) by (simp add: sole_def)
    with Some False so(2) wq show ?thesis by (simp add: olq_push_with_priority_def)
  qed
qed

lemma sole_pop_local:
  assumes "sole items (s, h)" and "olq_pop_local W s h = (r, s', h')"
  shows "sole items (s', h')" and "r = None \<Longrightarrow> sk_entries items (os_local_queues s' ! 0) = []"
proof -
  have so: "length (os_local_queues s) = 1" "ol_queue h = 0" "sk_wf (os_local_queues s ! 0)"
    "ol_len h \<le> length (sk_entries items (os_local_queues s ! 0))" using assms by (simp_all add: sole_def)
  obtain r0 q where q: "pop_local_entries W (os_local_queues s ! 0) = (r0, q)"
    "map fst q = map fst (os_local_queues s ! 0)"
    "case r0 of None \<Rightarrow> sk_entries items (os_local_queues s ! 0) = [] \<and> sk_entries items q = []
       | Some x \<Rightarrow> \<exists>p. sk_entries items (os_local_queues s ! 0) = (p, x) # sk_entries items q"
    using pop_local_entries_law [of "os_local_queues s ! 0"] by blast
  have eqs: "r = r0" "s' = set_local 0 q s"
      "h' = h\<lparr>ol_len := (case r0 of None \<Rightarrow> ol_len h | Some x \<Rightarrow> ol_len h - 1)\<rparr>"
    using assms(2) so(2) by (auto simp: olq_pop_local_def q(1))
  have "sk_wf q" using q(2) so(3) by (rule sk_wf_keys)
  with so q(3) show "sole items (s', h')" by (cases r0) (auto simp: sole_def eqs)
  show "r = None \<Longrightarrow> sk_entries items (os_local_queues s' ! 0) = []"
    using q(3) so(1) by (simp add: eqs)
qed

lemma steal_from_empty:
  "sk_entries items (os_local_queues s ! i) = [] \<Longrightarrow> steal_from_sibling W i ks s h = (False, s, h)"
proof (induction ks)
  case (Cons k ks)
  have "\<And>w. map_of (os_local_queues s ! i) k = Some w \<Longrightarrow> wk_is_empty W w"
    using sk_entries_Nil_lookup [OF Cons.prems] by (simp add: wempty)
  with Cons show ?case by (auto split: option.splits)
qed simp

lemma sole_steal:
  assumes "sole items (s, h)" and "sk_entries items (os_local_queues s ! 0) = []"
  shows "steal_siblings W start is s h = (False, s, h)"
proof (induction "is")
  case (Cons i "is")
  have "length (os_local_queues s) = 1" using assms(1) by (simp add: sole_def)
  with Cons steal_from_empty [OF assms(2)] show ?case by simp
qed simp

lemma owsq_pop_returns: "\<exists>r s'. owsq_pop J s = Some (r, s') \<and> os_local_queues s' = os_local_queues s"
proof (cases "owsq_is_empty s")
  case False
  obtain r es where "owsq_pop_entries J (os_shared_queue s) = Some (r, es)"
    using shared_pop_entries [of "os_shared_queue s"] by blast
  with False show ?thesis by (simp add: owsq_pop_def)
qed (simp add: owsq_pop_def)

lemma sole_frame:
  "sole items (s, h) \<Longrightarrow> os_local_queues s' = os_local_queues s \<Longrightarrow> ol_queue h' = ol_queue h \<Longrightarrow>
     ol_len h' = ol_len h \<Longrightarrow> sole items (s', h')"
  by (simp add: sole_def)

lemma sole_pop:
  assumes "sole items (s, h)"
  shows "\<exists>r q'. olq_pop W J start s h = Some (r, q') \<and> sole items q'"
proof -
  obtain t h1 where tick: "olq_do_tick h = (t, h1)" by fastforce
  have h1: "ol_queue h1 = ol_queue h" "ol_len h1 = ol_len h"
    using tick by (auto simp: olq_do_tick_def Let_def split: if_splits)
  obtain r0 s0 where pop0: "owsq_pop J s = Some (r0, s0)" "os_local_queues s0 = os_local_queues s"
    using owsq_pop_returns by blast
  obtain r1 s1 where first: "(if t mod 61 = 0 then owsq_pop J s else Some (None, s)) = Some (r1, s1)"
    "os_local_queues s1 = os_local_queues s" using pop0 by (cases "t mod 61 = 0") simp_all
  have so1: "sole items (s1, h1)" using sole_frame [OF assms first(2) h1] .
  obtain r2 s2 h2 where loc: "olq_pop_local W s1 h1 = (r2, s2, h2)" by (metis prod_cases3)
  note so2 = sole_pop_local [OF so1 loc]
  have st: "sole items (s2, h2\<lparr>ol_stealing := True\<rparr>)" using so2(1) by (simp add: sole_def)
  obtain r3 s3 where pop3: "owsq_pop J s2 = Some (r3, s3)" "os_local_queues s3 = os_local_queues s2"
    using owsq_pop_returns by blast
  have so3: "sole items (s3, h2\<lparr>ol_stealing := b\<rparr>)" "sole items (s3, h2)" for b
    using sole_frame [OF so2(1) pop3(2)] by simp_all
  show ?thesis
  proof (cases "r1 = None \<and> r2 = None")
    case True
    have "steal_siblings W start [0..<length (os_local_queues s2)] s2 (h2\<lparr>ol_stealing := True\<rparr>) =
        (False, s2, h2\<lparr>ol_stealing := True\<rparr>)"
      using True by (intro sole_steal [OF st so2(2)]) simp
    with True tick first(1) loc pop3 so3 show ?thesis
      by (cases "ol_stealing h2") (simp_all add: olq_pop_def)
  next
    case False
    with tick first(1) loc so1 so2(1) show ?thesis
      by (cases r1; cases r2) (simp_all add: olq_pop_def)
  qed
qed

end

section \<open>The interleaved system\<close>

text \<open>
  The global queue with the handles given out so far, and the operations any thread may perform
  on them, in any order. \<open>ows_exec\<close> runs one operation; \<open>None\<close>: it does not return.
\<close>

record ('w, 'i) ows_system =
  sy_queue :: "('w, 'i) owsq"
  sy_handles :: "olq list"

datatype 'a ows_op =
    Op_push int 'a
  | Op_pop
  | Op_local_queue
  | Op_local_push nat int 'a
  | Op_local_pop nat nat

fun ows_exec ::
  "('w, 'a) worker_ops \<Rightarrow> ('i, 'a) injector_ops \<Rightarrow> 'a ows_op \<Rightarrow> ('w, 'i) ows_system
    \<Rightarrow> ('a option \<times> ('w, 'i) ows_system) option" where
  "ows_exec W J (Op_push p x) y =
     Some (None, y\<lparr>sy_queue := owsq_push_with_priority J p x (sy_queue y)\<rparr>)"
| "ows_exec W J Op_pop y =
     map_option (\<lambda>(r, s). (r, y\<lparr>sy_queue := s\<rparr>)) (owsq_pop J (sy_queue y))"
| "ows_exec W J Op_local_queue y =
     (case (owsq_local_queue (sy_queue y) :: (unit, olq \<times> ('w, 'i) owsq) rust) of
        Ok (h, s) \<Rightarrow> Some (None, \<lparr>sy_queue = s, sy_handles = sy_handles y @ [h]\<rparr>)
      | _ \<Rightarrow> None)"
| "ows_exec W J (Op_local_push i p x) y =
     (if i < length (sy_handles y)
      then map_option (\<lambda>(s, h). (None, \<lparr>sy_queue = s, sy_handles = (sy_handles y)[i := h]\<rparr>))
             (olq_push_with_priority W J p x (sy_queue y) (sy_handles y ! i))
      else None)"
| "ows_exec W J (Op_local_pop i start) y =
     (if i < length (sy_handles y)
      then map_option (\<lambda>(r, s, h). (r, \<lparr>sy_queue = s, sy_handles = (sy_handles y)[i := h]\<rparr>))
             (olq_pop W J start (sy_queue y) (sy_handles y ! i))
      else None)"

fun op_input :: "'a ows_op \<Rightarrow> 'a multiset" where
  "op_input (Op_push p x) = {#x#}"
| "op_input (Op_local_push i p x) = {#x#}"
| "op_input _ = {#}"

text \<open>
  \<open>ows_reach W J n c inp out y\<close>: the system \<open>y\<close> is reached from a new queue with \<open>n\<close> local
  queues of capacity \<open>c\<close> by operations that pushed the items \<open>inp\<close> and returned \<open>out\<close>.
\<close>

inductive ows_reach ::
  "('w, 'a) worker_ops \<Rightarrow> ('i, 'a) injector_ops \<Rightarrow> nat \<Rightarrow> nat \<Rightarrow> 'a multiset \<Rightarrow> 'a multiset
    \<Rightarrow> ('w, 'i) ows_system \<Rightarrow> bool"
  for W J n c where
  ows_start: "ows_reach W J n c {#} {#} \<lparr>sy_queue = owsq_new n c, sy_handles = []\<rparr>"
| ows_step: "ows_reach W J n c inp out y \<Longrightarrow> ows_exec W J opr y = Some (r, y') \<Longrightarrow>
    ows_reach W J n c (inp + op_input opr) (out + mset_option r) y'"

definition sys_ok :: "('i \<Rightarrow> 'a list) \<Rightarrow> nat \<Rightarrow> ('w, 'i) ows_system \<Rightarrow> bool" where
  "sys_ok jitems n y \<longleftrightarrow> owsq_ok jitems (sy_queue y) \<and> length (os_local_queues (sy_queue y)) = n
     \<and> (\<forall>h\<in>set (sy_handles y). ol_queue h < n \<and> \<not> ol_stealing h)"

context deques
begin

abbreviation sys_items :: "('w, 'i) ows_system \<Rightarrow> 'a multiset" where
  "sys_items y \<equiv> image_mset snd (owsq_bag items jitems (sy_queue y))"

lemma popped_items:
  "popped items jitems r s s' \<Longrightarrow> image_mset snd (owsq_bag items jitems s) =
     image_mset snd (owsq_bag items jitems s') + mset_option r"
  by (cases r) (auto simp: popped_def)

text \<open>One operation keeps the invariant and accounts for every item.\<close>

lemma ows_exec_law:
  assumes ok: "sys_ok jitems n y" and room: "size (sys_items y) + size (op_input opr) \<le> usize_max"
    and exec: "ows_exec W J opr y = Some (r, y')"
  shows "sys_ok jitems n y' \<and> sys_items y + op_input opr =
    sys_items y' + mset_option r"
proof -
  have q: "owsq_ok jitems (sy_queue y)" and n: "length (os_local_queues (sy_queue y)) = n"
    and hs: "\<And>i. i < length (sy_handles y) \<Longrightarrow> ol_queue (sy_handles y ! i) < n \<and> \<not> ol_stealing (sy_handles y ! i)"
    using ok by (simp_all add: sys_ok_def)
  have set_h: "\<And>i h s. \<lbrakk>owsq_ok jitems s; length (os_local_queues s) = n; ol_queue h < n; \<not> ol_stealing h\<rbrakk>
      \<Longrightarrow> sys_ok jitems n \<lparr>sy_queue = s, sy_handles = (sy_handles y)[i := h]\<rparr>"
    using ok set_update_subset_insert [of "sy_handles y"] by (fastforce simp: sys_ok_def)
  show ?thesis
  proof (cases opr)
    case (Op_push p x)
    with exec q room ok length_shared_le_bag [of jitems "sy_queue y" items] show ?thesis
      using shared_push [of "sy_queue y" p x] by (auto simp: sys_ok_def owsq_ok_def)
  next
    case Op_pop
    obtain r' s' where pop: "owsq_pop J (sy_queue y) = Some (r', s')" "popped items jitems r' (sy_queue y) s'"
      using popped_shared [OF q] by blast
    with Op_pop exec have y': "r = r'" "y' = y\<lparr>sy_queue := s'\<rparr>" by simp_all
    with popped_items [OF pop(2)] pop(2) ok show ?thesis
      by (simp add: sys_ok_def popped_def same_frame_def Op_pop)
  next
    case Op_local_queue
    with exec ok n show ?thesis
      by (auto simp: owsq_local_queue_def Let_def sys_ok_def owsq_ok_def owsq_wf_def owsq_len_ok_def
          shared_entries_def owsq_bag_def locals_bag_def split: if_splits)
  next
    case (Op_local_push i p x)
    then obtain s h where push: "i < length (sy_handles y)"
      "olq_push_with_priority W J p x (sy_queue y) (sy_handles y ! i) = Some (s, h)"
      and y': "r = None" "y' = \<lparr>sy_queue = s, sy_handles = (sy_handles y)[i := h]\<rparr>"
      using exec by (auto split: if_splits)
    have iq: "ol_queue (sy_handles y ! i) < length (os_local_queues (sy_queue y))"
      using hs [OF push(1)] n by simp
    have "size (owsq_bag items jitems (sy_queue y)) < usize_max"
      using room by (simp add: Op_local_push)
    note law = local_push_law [OF q iq this push(2)]
    have "sys_ok jitems n y'"
      unfolding y' using law hs [OF push(1)] n by (intro set_h) (simp_all add: same_frame_def)
    with law show ?thesis by (simp add: y' Op_local_push)
  next
    case (Op_local_pop i start)
    with exec have i: "i < length (sy_handles y)" by (auto split: if_splits)
    have iq: "ol_queue (sy_handles y ! i) < length (os_local_queues (sy_queue y))"
      using hs [OF i] n by simp
    obtain r' s h where pop: "olq_pop W J start (sy_queue y) (sy_handles y ! i) = Some (r', s, h)"
      and law: "popped items jitems r' (sy_queue y) s" "ol_queue h = ol_queue (sy_handles y ! i)"
        "ol_stealing h = ol_stealing (sy_handles y ! i)"
      using pop_law [OF q iq] by blast
    have y': "r = r'" "y' = \<lparr>sy_queue = s, sy_handles = (sy_handles y)[i := h]\<rparr>"
      using exec i pop by (simp_all add: Op_local_pop)
    have "sys_ok jitems n y'"
      unfolding y' using law hs [OF i] n by (intro set_h) (simp_all add: same_frame_def popped_def)
    with popped_items [OF law(1)] show ?thesis by (simp add: y' Op_local_pop)
  qed
qed

text \<open>In every reachable system, what was pushed is what was popped plus what is queued.\<close>

lemma ows_reach_law:
  assumes "ows_reach W J n c inp out y" and "size inp \<le> usize_max"
  shows "sys_ok jitems n y \<and> inp = out + sys_items y"
  using assms
proof (induction rule: ows_reach.induct)
  case ows_start
  then show ?case by (simp add: sys_ok_def owsq_ok_def) (simp add: owsq_new_def)
next
  case (ows_step inp out y opr r y')
  have IH: "sys_ok jitems n y" "inp = out + sys_items y" using ows_step.IH ows_step.prems by simp_all
  have "size (sys_items y) + size (op_input opr) \<le> usize_max"
    using ows_step.prems IH(2) by simp
  from ows_exec_law [OF IH(1) this ows_step.hyps(2)]
  show ?case unfolding IH(2) by (simp add: ac_simps)
qed

end

text \<open>A sequence of operations that all return, and the results it gives.\<close>

fun ows_run ::
  "('w, 'a) worker_ops \<Rightarrow> ('i, 'a) injector_ops \<Rightarrow> 'a ows_op list \<Rightarrow> ('w, 'i) ows_system
    \<Rightarrow> ('a option list \<times> ('w, 'i) ows_system) option" where
  "ows_run W J [] y = Some ([], y)"
| "ows_run W J (opr # ops) y =
     (case ows_exec W J opr y of
        None \<Rightarrow> None
      | Some (r, y') \<Rightarrow> map_option (\<lambda>(rs, y''). (r # rs, y'')) (ows_run W J ops y'))"

lemma ows_run_reach:
  "ows_run W J ops y = Some (rs, y') \<Longrightarrow> ows_reach W J n c inp out y \<Longrightarrow>
     ows_reach W J n c (inp + (\<Sum>opr\<leftarrow>ops. op_input opr)) (out + (\<Sum>r\<leftarrow>rs. mset_option r)) y'"
proof (induction ops arbitrary: y rs inp out)
  case (Cons opr ops)
  from Cons.prems(1) obtain r y1 rs1 where step: "ows_exec W J opr y = Some (r, y1)"
    and run: "ows_run W J ops y1 = Some (rs1, y')" and rs: "rs = r # rs1"
    by (auto split: option.splits)
  show ?case
    using Cons.IH [OF run ows_step [OF Cons.prems(2) step]] by (simp add: rs ac_simps)
qed simp

section \<open>Properties\<close>

text \<open>
  C1. Conservation: in every system reachable from a new queue by any interleaving of global
  and local operations, the items pushed so far are exactly the items popped so far plus the
  items still queued, each as often. Nothing is lost, duplicated or invented, stealing and
  moving to the global queue included.
\<close>

theorem ordered_conservation:
  assumes "deques W items J jitems retries"
    and "ows_reach W J n c inp out y" and "size inp \<le> usize_max"
  shows "inp = out + image_mset snd (owsq_bag items jitems (sy_queue y))"
  using deques.ows_reach_law [OF assms] by blast

definition demo_ops :: "nat ows_op list" where
  "demo_ops = [Op_local_queue, Op_local_queue, Op_local_push 0 0 1, Op_local_push 0 0 2,
     Op_local_pop 1 0, Op_push 5 9, Op_local_push 0 0 3, Op_local_push 0 0 4, Op_local_pop 1 0]"

text \<open>The handle of queue 1 steals twice from queue 0, whose owner's counter never learns of it.\<close>

definition drifted_system :: "(nat \<times> nat list, nat list) ows_system" where
  "drifted_system =
     \<lparr>sy_queue = \<lparr>os_shared_queue = [(0, [2, 3]), (5, [9])], os_len = 3, os_local_capacity = 2,
        os_local_queues = [[(0, 2, [])], [(0, 2, [])]], os_index = 2\<rparr>,
      sy_handles = [\<lparr>ol_tick = 0, ol_stealing = False, ol_queue = 0, ol_len = 2\<rparr>,
        \<lparr>ol_tick = 2, ol_stealing = False, ol_queue = 1, ol_len = 0\<rparr>]\<rparr>"

lemma demo_run:
  "ows_run fifo_worker fifo_injector demo_ops \<lparr>sy_queue = owsq_new 2 2, sy_handles = []\<rparr> =
     Some ([None, None, None, None, Some 1, None, None, None, Some 4], drifted_system)"
  by code_simp

lemma demo_reach:
  "ows_reach fifo_worker fifo_injector 2 2 {#1, 2, 9, 3, 4#} {#4, 1#} drifted_system"
proof -
  have "(\<Sum>opr\<leftarrow>demo_ops. op_input opr) = {#1, 2, 9, 3, 4#}"
    by (simp add: demo_ops_def add_mset_commute)
  with ows_run_reach [OF demo_run ows_start] show ?thesis by simp
qed

theorem ordered_conservation_witness:
  "{#1, 2, 9, 3, 4#} = {#4, 1#} + image_mset snd
     (owsq_bag fifo_items (\<lambda>xs. xs) (sy_queue drifted_system))"
  by (rule ordered_conservation [OF fifo.deques_axioms demo_reach]) (simp add: usize_max_def)

text \<open>
  C2. A local \<open>pop\<close> always returns: no retry or steal loop of it runs for ever. It takes
  exactly its result out of the system, and answers \<open>None\<close> only when its own queue and the
  global queue were both empty.
\<close>

theorem ordered_pop_total:
  assumes "deques W items J jitems retries"
    and "owsq_ok jitems s" and "ol_queue h < length (os_local_queues s)"
  shows "\<exists>r s' h'. olq_pop W J start s h = Some (r, s', h') \<and> popped items jitems r s s'
     \<and> (r = None \<longrightarrow> local_entries items s (ol_queue h) = [] \<and> shared_entries jitems s = [])"
  using deques.pop_law [OF assms] by blast

theorem ordered_pop_total_witness:
  "\<exists>r s' h'. olq_pop fifo_worker fifo_injector 0 (sy_queue drifted_system)
       (sy_handles drifted_system ! 0) = Some (r, s', h')
     \<and> popped fifo_items (\<lambda>xs. xs) r (sy_queue drifted_system) s'
     \<and> (r = None \<longrightarrow> local_entries fifo_items (sy_queue drifted_system)
            (ol_queue (sy_handles drifted_system ! 0)) = []
          \<and> shared_entries (\<lambda>xs. xs) (sy_queue drifted_system) = [])"
  by (rule ordered_pop_total [OF fifo.deques_axioms])
    (simp_all add: drifted_system_def owsq_ok_def owsq_wf_def owsq_len_ok_def shared_entries_def)




definition ticking_handle :: olq where
  "ticking_handle = \<lparr>ol_tick = 60, ol_stealing = False, ol_queue = 0, ol_len = 0\<rparr>"


text \<open>
  C5. When a push onto a full handle returns: exactly if the handle's own queue really holds
  at least half of what its counter says. A handle whose counter is right never hangs.
\<close>

theorem full_push_hangs_iff:
  assumes "deques W items J jitems retries"
    and "owsq_ok jitems s" and "ol_queue h < length (os_local_queues s)"
    and "size (owsq_bag items jitems s) < usize_max" and "olq_is_local_full s h"
  shows "olq_push_with_priority W J p x s h = None \<longleftrightarrow>
    length (local_entries items s (ol_queue h)) < ol_len h div 2"
  using deques.push_to_global_hangs_iff [OF assms(1-4)] assms(5)
  by (simp add: olq_push_with_priority_def)

text \<open>The drifted system is one where it hangs: its first handle counts two items, and has none.\<close>

theorem full_push_hangs_iff_witness:
  "olq_push_with_priority fifo_worker fifo_injector 0 5 (sy_queue drifted_system)
       (sy_handles drifted_system ! 0) = None \<longleftrightarrow>
    length (local_entries fifo_items (sy_queue drifted_system)
       (ol_queue (sy_handles drifted_system ! 0))) < ol_len (sy_handles drifted_system ! 0) div 2"
  by (rule full_push_hangs_iff [OF fifo.deques_axioms])
    (simp_all add: drifted_system_def owsq_ok_def owsq_wf_def owsq_len_ok_def shared_entries_def
      owsq_bag_def locals_bag_def fifo_items_def usize_max_def olq_is_local_full_def)

text \<open>
  The counter of a handle does drift: stealing takes items out of a queue without telling
  its owner. Two handles on two queues of capacity two, five pushes and two pops reach a
  system in which one more push never returns.
\<close>

lemma push_can_hang:
  "\<exists>inp out (y :: (nat \<times> nat list, nat list) ows_system).
     ows_reach fifo_worker fifo_injector 2 2 inp out y \<and> size inp = 5
     \<and> ows_exec fifo_worker fifo_injector (Op_local_push 0 0 5) y = None"
proof -
  have "olq_push_with_priority fifo_worker fifo_injector 0 5 (sy_queue drifted_system)
       (sy_handles drifted_system ! 0) = None"
    using fifo.push_to_global_hangs_iff [of "sy_queue drifted_system" "sy_handles drifted_system ! 0" 0 5]
    by (simp add: drifted_system_def owsq_ok_def owsq_wf_def owsq_len_ok_def shared_entries_def
      owsq_bag_def locals_bag_def local_entries_def fifo_items_def usize_max_def
      olq_is_local_full_def olq_push_with_priority_def)
  moreover have "0 < length (sy_handles drifted_system)" by (simp add: drifted_system_def)
  ultimately have "ows_exec fifo_worker fifo_injector (Op_local_push 0 0 5) drifted_system = None"
    by simp
  with demo_reach show ?thesis by (intro exI conjI) (assumption, simp_all)
qed

end
