(* ===== verification/OC_Scheduler.thy ===== *)
theory OC_Scheduler
  imports OC_Coroutine OC_Ordered_Work_Steal "HOL-Library.AList"
begin

text \<open>
  \<^verbatim>\<open>core/src/scheduler.rs\<close>: the scheduler of one thread with its ready queue, its heap of
  suspended coroutines, its table of coroutines in a syscall and the heap of their deadlines,
  and the process-wide sets \<open>RUNNING_COROUTINES\<close> and \<open>CANCEL_COROUTINES\<close>.

  The scheduler is a client of the ready queue: it takes its operations as a record, and what it
  relies on is the locale \<open>ready_queue\<close>, which the ordered work-stealing queue provides. The
  clock is a function of the number of times it was read. The scheduling loop has fuel, and
  \<open>Hang\<close> is its value when the fuel is spent or a push does not return.
\<close>

section \<open>Data\<close>

type_synonym sco_state = "(unit, nat option) coroutine_state"
type_synonym ('k, 'l) sco = "('k, unit, nat option, 'l) coroutine"

record ('c, 'q) ready_ops =
  rq_push :: "'c \<Rightarrow> 'q \<Rightarrow> 'q option"
  rq_pop :: "'q \<Rightarrow> ('c option \<times> 'q) option"
  rq_is_empty :: "'q \<Rightarrow> bool"

record ('k, 'l) suspend_item =
  si_timestamp :: u64
  si_coroutine :: "('k, 'l) sco"

record syscall_suspend_item =
  ssi_timestamp :: u64
  ssi_co_id :: u64

text \<open>\<open>impl Ord\<close> of both items turns the order of the time stamps around: earliest on top.\<close>

definition si_lt :: "('k, 'l) suspend_item \<Rightarrow> ('k, 'l) suspend_item \<Rightarrow> bool" where
  "si_lt a b \<longleftrightarrow> si_timestamp b < si_timestamp a"

definition ssi_lt :: "syscall_suspend_item \<Rightarrow> syscall_suspend_item \<Rightarrow> bool" where
  "ssi_lt a b \<longleftrightarrow> ssi_timestamp b < ssi_timestamp a"

record ('k, 'l, 'q) scheduler =
  sc_name :: string
  sc_stack_size :: nat
  sc_listeners :: "'l list"
  sc_ready :: 'q
  sc_suspend :: "('k, 'l) suspend_item list"
  sc_syscall :: "(u64 \<times> ('k, 'l) sco) list"
  sc_syscall_suspend :: "syscall_suspend_item list"

text \<open>
  The system around it: the two process-wide sets, the thread with its thread-local stack
  \<open>SCHEDULER\<close>, and how often the clock was read.
\<close>

record ('k, 'l, 'q, 'w) sched_sys =
  ss_sched :: "('k, 'l, 'q) scheduler"
  ss_running :: "(u64 \<times> nat) list"
  ss_cancel :: "u64 set"
  ss_current :: "string list"
  ss_thread :: "'w thread"
  ss_reads :: nat

text \<open>What a coroutine's body does to the scheduler while it runs.\<close>

datatype ('k, 'l) sched_ext = X_submit "('k, 'l) sco" | X_cancel u64

record ('k, 'l, 'q, 'w) sched_env =
  se_rq :: "(('k, 'l) sco, 'q) ready_ops"
  se_lsn :: "('l, unit, nat option, 'w) listener"
  se_seg :: "(unit, 'k, unit, nat option, ('k, 'l) sched_ext) body"
  se_clock :: "nat \<Rightarrow> u64"
  se_self :: nat

datatype sched_error = SE_coroutine "(unit, nat option) co_error" | SE_other string

section \<open>Operations\<close>

definition read_now ::
  "('k, 'l, 'q, 'w) sched_env \<Rightarrow> ('k, 'l, 'q, 'w) sched_sys \<Rightarrow> u64 \<times> ('k, 'l, 'q, 'w) sched_sys" where
  "read_now E s = (se_clock E (ss_reads s), s\<lparr>ss_reads := Suc (ss_reads s)\<rparr>)"

abbreviation on_sched ::
  "(('k, 'l, 'q) scheduler \<Rightarrow> ('k, 'l, 'q) scheduler) \<Rightarrow> ('k, 'l, 'q, 'w) sched_sys \<Rightarrow> ('k, 'l, 'q, 'w) sched_sys" where
  "on_sched f s \<equiv> s\<lparr>ss_sched := f (ss_sched s)\<rparr>"

definition sched_new :: "string \<Rightarrow> nat \<Rightarrow> 'q \<Rightarrow> ('k, 'l, 'q) scheduler" where
  "sched_new name stack_size local_queue =
     \<lparr>sc_name = name, sc_stack_size = stack_size, sc_listeners = [], sc_ready = local_queue,
      sc_suspend = [], sc_syscall = [], sc_syscall_suspend = []\<rparr>"

definition sched_add_listener :: "'l \<Rightarrow> ('k, 'l, 'q) scheduler \<Rightarrow> ('k, 'l, 'q) scheduler" where
  "sched_add_listener l sc = sc\<lparr>sc_listeners := sc_listeners sc @ [l]\<rparr>"

definition ready_push ::
  "('k, 'l, 'q, 'w) sched_env \<Rightarrow> ('k, 'l) sco \<Rightarrow> ('k, 'l, 'q, 'w) sched_sys \<Rightarrow> ('k, 'l, 'q, 'w) sched_sys option" where
  "ready_push E co s =
     map_option (\<lambda>q. on_sched (\<lambda>sc. sc\<lparr>sc_ready := q\<rparr>) s) (rq_push (se_rq E) co (sc_ready (ss_sched s)))"

definition submit_raw_co ::
  "('k, 'l, 'q, 'w) sched_env \<Rightarrow> ('k, 'l) sco \<Rightarrow> ('k, 'l, 'q, 'w) sched_sys
    \<Rightarrow> (u64 \<times> ('k, 'l, 'q, 'w) sched_sys) option" where
  "submit_raw_co E co s =
     (let co' = fold add_listener (sc_listeners (ss_sched s)) co
      in map_option (Pair (co_id co')) (ready_push E co' s))"

definition submit_co ::
  "('k, 'l, 'q, 'w) sched_env
    \<Rightarrow> (string option \<Rightarrow> 'k \<Rightarrow> nat option \<Rightarrow> int option \<Rightarrow> (sched_error, ('k, 'l) sco) rust) \<Rightarrow> string
    \<Rightarrow> 'k \<Rightarrow> nat option \<Rightarrow> int option \<Rightarrow> ('k, 'l, 'q, 'w) sched_sys
    \<Rightarrow> (sched_error, u64 \<times> ('k, 'l, 'q, 'w) sched_sys) rust" where
  "submit_co E new uuid f stack_size priority s =
     rust_bind (new (Some (sc_name (ss_sched s) @ ''@'' @ uuid)) f
         (Some (case stack_size of None \<Rightarrow> sc_stack_size (ss_sched s) | Some n \<Rightarrow> n)) priority)
       (\<lambda>co. of_loop (submit_raw_co E co s))"

definition try_resume ::
  "('k, 'l, 'q, 'w) sched_env \<Rightarrow> u64 \<Rightarrow> ('k, 'l, 'q, 'w) sched_sys
    \<Rightarrow> (sched_error, ('k, 'l, 'q, 'w) sched_sys) rust" where
  "try_resume E cid s =
     (case map_of (sc_syscall (ss_sched s)) cid of
        None \<Rightarrow> Ok s
      | Some co \<Rightarrow>
          (let s1 = on_sched (\<lambda>sc. sc\<lparr>sc_syscall := AList.delete cid (sc_syscall sc)\<rparr>) s
           in case co_state co of
                Cs_Syscall val n (Ss_Suspend ts) \<Rightarrow>
                  (case co_syscall (se_lsn E) val n Ss_Callback co (ss_thread s) of
                     (Ok u, co', th) \<Rightarrow> of_loop (ready_push E co' (s1\<lparr>ss_thread := th\<rparr>))
                   | _ \<Rightarrow> Panic ''change syscall state failed'')
              | _ \<Rightarrow> Panic ''try_resume unexpect CoroutineState''))"

definition try_cancel_coroutine :: "u64 \<Rightarrow> ('k, 'l, 'q, 'w) sched_sys \<Rightarrow> ('k, 'l, 'q, 'w) sched_sys" where
  "try_cancel_coroutine cid s = s\<lparr>ss_cancel := insert cid (ss_cancel s)\<rparr>"

definition get_scheduling_thread :: "u64 \<Rightarrow> ('k, 'l, 'q, 'w) sched_sys \<Rightarrow> nat option" where
  "get_scheduling_thread cid s = map_of (ss_running s) cid"

subsection \<open>\<open>check_ready\<close>\<close>

fun check_suspend ::
  "('k, 'l, 'q, 'w) sched_env \<Rightarrow> ('k, 'l) suspend_item list \<Rightarrow> ('k, 'l, 'q, 'w) sched_sys
    \<Rightarrow> (sched_error, unit) rust \<times> ('k, 'l, 'q, 'w) sched_sys" where
  "check_suspend E [] s = (Ok (), on_sched (\<lambda>sc. sc\<lparr>sc_suspend := []\<rparr>) s)"
| "check_suspend E (item # items) s =
     (case read_now E s of (t, s1) \<Rightarrow>
        if t < si_timestamp item
        then (Ok (), on_sched (\<lambda>sc. sc\<lparr>sc_suspend := item # items\<rparr>) s1)
        else
          (case read_now E (on_sched (\<lambda>sc. sc\<lparr>sc_suspend := items\<rparr>) s1) of (t', s2) \<Rightarrow>
             (case co_ready (se_lsn E) t' (si_coroutine item) (ss_thread s2) of
                (Ok u, co, th) \<Rightarrow>
                  (case ready_push E co (s2\<lparr>ss_thread := th\<rparr>) of
                     None \<Rightarrow> (Hang, s2\<lparr>ss_thread := th\<rparr>)
                   | Some s3 \<Rightarrow> check_suspend E items s3)
              | (Err e, co, th) \<Rightarrow> (Err (SE_coroutine e), s2\<lparr>ss_thread := th\<rparr>)
              | (Panic m, co, th) \<Rightarrow> (Panic m, s2\<lparr>ss_thread := th\<rparr>)
              | (Hang, co, th) \<Rightarrow> (Hang, s2\<lparr>ss_thread := th\<rparr>))))"

fun check_syscall_suspend ::
  "('k, 'l, 'q, 'w) sched_env \<Rightarrow> syscall_suspend_item list \<Rightarrow> ('k, 'l, 'q, 'w) sched_sys
    \<Rightarrow> (sched_error, unit) rust \<times> ('k, 'l, 'q, 'w) sched_sys" where
  "check_syscall_suspend E [] s = (Ok (), on_sched (\<lambda>sc. sc\<lparr>sc_syscall_suspend := []\<rparr>) s)"
| "check_syscall_suspend E (item # items) s =
     (case read_now E s of (t, s1) \<Rightarrow>
        if t < ssi_timestamp item
        then (Ok (), on_sched (\<lambda>sc. sc\<lparr>sc_syscall_suspend := item # items\<rparr>) s1)
        else
          (let s2 = on_sched (\<lambda>sc. sc\<lparr>sc_syscall_suspend := items\<rparr>) s1
           in case map_of (sc_syscall (ss_sched s2)) (ssi_co_id item) of
                None \<Rightarrow> check_syscall_suspend E items s2
              | Some co \<Rightarrow>
                  (let s3 = on_sched (\<lambda>sc. sc\<lparr>sc_syscall := AList.delete (ssi_co_id item) (sc_syscall sc)\<rparr>) s2
                   in case co_state co of
                        Cs_Syscall val n (Ss_Suspend ts) \<Rightarrow>
                          (case co_syscall (se_lsn E) val n Ss_Timeout co (ss_thread s3) of
                             (Ok u, co', th) \<Rightarrow>
                               (case ready_push E co' (s3\<lparr>ss_thread := th\<rparr>) of
                                  None \<Rightarrow> (Hang, s3\<lparr>ss_thread := th\<rparr>)
                                | Some s4 \<Rightarrow> check_syscall_suspend E items s4)
                           | (Err e, co', th) \<Rightarrow> (Err (SE_coroutine e), s3\<lparr>ss_thread := th\<rparr>)
                           | (Panic m, co', th) \<Rightarrow> (Panic m, s3\<lparr>ss_thread := th\<rparr>)
                           | (Hang, co', th) \<Rightarrow> (Hang, s3\<lparr>ss_thread := th\<rparr>))
                      | _ \<Rightarrow> (Panic ''check_ready should never execute to here'', s3))))"

definition check_ready ::
  "('k, 'l, 'q, 'w) sched_env \<Rightarrow> ('k, 'l, 'q, 'w) sched_sys
    \<Rightarrow> (sched_error, unit) rust \<times> ('k, 'l, 'q, 'w) sched_sys" where
  "check_ready E s =
     (case check_suspend E (sc_suspend (ss_sched s)) s of
        (Ok u, s1) \<Rightarrow> check_syscall_suspend E (sc_syscall_suspend (ss_sched s1)) s1
      | r \<Rightarrow> r)"

subsection \<open>The scheduling loop\<close>

type_synonym sched_results = "(u64 \<times> (string, nat option) rust) list"

fun apply_ext ::
  "('k, 'l, 'q, 'w) sched_env \<Rightarrow> ('k, 'l) sched_ext list \<Rightarrow> ('k, 'l, 'q, 'w) sched_sys
    \<Rightarrow> ('k, 'l, 'q, 'w) sched_sys option" where
  "apply_ext E [] s = Some s"
| "apply_ext E (X_submit co # xs) s =
     (case submit_raw_co E co s of None \<Rightarrow> None | Some (cid, s') \<Rightarrow> apply_ext E xs s')"
| "apply_ext E (X_cancel cid # xs) s = apply_ext E xs (try_cancel_coroutine cid s)"

text \<open>Where the coroutine goes after its resume answered \<open>st\<close>.\<close>

definition dispatch ::
  "('k, 'l, 'q, 'w) sched_env \<Rightarrow> ('k, 'l) sco \<Rightarrow> sco_state \<Rightarrow> sched_results \<Rightarrow> ('k, 'l, 'q, 'w) sched_sys
    \<Rightarrow> (sched_error, sched_results) rust \<times> ('k, 'l, 'q, 'w) sched_sys" where
  "dispatch E co st results s =
     (let insert_result = (\<lambda>r. if map_of results (co_id co) = None
                                then (Ok (AList.update (co_id co) r results), s)
                                else (Panic ''not consume result'', s))
      in case st of
           Cs_Syscall u n state \<Rightarrow>
             (let s1 = on_sched (\<lambda>sc. sc\<lparr>sc_syscall := AList.update (co_id co) co (sc_syscall sc)\<rparr>) s
              in (Ok results,
                  case state of
                    Ss_Suspend timestamp \<Rightarrow>
                      on_sched (\<lambda>sc. sc\<lparr>sc_syscall_suspend :=
                        heap_push ssi_lt \<lparr>ssi_timestamp = timestamp, ssi_co_id = co_id co\<rparr> (sc_syscall_suspend sc)\<rparr>) s1
                  | _ \<Rightarrow> s1))
         | Cs_Suspend u timestamp \<Rightarrow>
             (case read_now E s of (t, s1) \<Rightarrow>
                if timestamp > t
                then (Ok results,
                      on_sched (\<lambda>sc. sc\<lparr>sc_suspend :=
                        heap_push si_lt \<lparr>si_timestamp = timestamp, si_coroutine = co\<rparr> (sc_suspend sc)\<rparr>) s1)
                else (case ready_push E co s1 of
                        None \<Rightarrow> (Hang, s1)
                      | Some s2 \<Rightarrow> (Ok results, s2)))
         | Cs_Cancelled \<Rightarrow> (Ok results, s)
         | Cs_Complete result \<Rightarrow> insert_result (Ok result)
         | Cs_Error message \<Rightarrow> insert_result (Err message)
         | _ \<Rightarrow> (Err (SE_other ''try_timeout_schedule should never execute to here''), s))"

definition resume_popped ::
  "('k, 'l, 'q, 'w) sched_env \<Rightarrow> ('k, 'l) sco \<Rightarrow> sched_results \<Rightarrow> ('k, 'l, 'q, 'w) sched_sys
    \<Rightarrow> (sched_error, sched_results) rust \<times> ('k, 'l, 'q, 'w) sched_sys" where
  "resume_popped E co results s =
     (if co_id co \<in> ss_cancel s
      then (Ok results, s\<lparr>ss_cancel := ss_cancel s - {co_id co}\<rparr>)
      else
        (case read_now E (s\<lparr>ss_running := AList.update (co_id co) (se_self E) (ss_running s)\<rparr>) of (t, s1) \<Rightarrow>
           (case resume_with (se_lsn E) (se_seg E) () t () co (ss_thread s1) of
              ((r, co', th), xs) \<Rightarrow>
                (case apply_ext E xs (s1\<lparr>ss_thread := th\<rparr>) of
                   None \<Rightarrow> (Hang, s1\<lparr>ss_thread := th\<rparr>)
                 | Some s2 \<Rightarrow>
                     (case r of
                        Ok st \<Rightarrow> dispatch E co' st results
                          (s2\<lparr>ss_running := AList.delete (co_id co) (ss_running s2)\<rparr>)
                      | Err e \<Rightarrow> (Err (SE_coroutine e), s2)
                      | Panic m \<Rightarrow> (Panic m, s2)
                      | Hang \<Rightarrow> (Hang, s2))))))"

fun do_schedule ::
  "('k, 'l, 'q, 'w) sched_env \<Rightarrow> nat \<Rightarrow> u64 \<Rightarrow> sched_results \<Rightarrow> ('k, 'l, 'q, 'w) sched_sys
    \<Rightarrow> (sched_error, u64 \<times> sched_results) rust \<times> ('k, 'l, 'q, 'w) sched_sys" where
  "do_schedule E 0 timeout_time results s = (Hang, s)"
| "do_schedule E (Suc fuel) timeout_time results s =
     (case read_now E s of (t, s1) \<Rightarrow>
        let left_time = sat_sub timeout_time t
        in if left_time = 0 then (Ok (0, results), s1)
           else case check_ready E s1 of
             (Ok u, s2) \<Rightarrow>
               (case rq_pop (se_rq E) (sc_ready (ss_sched s2)) of
                  None \<Rightarrow> (Hang, s2)
                | Some (None, q) \<Rightarrow> (Ok (left_time, results), on_sched (\<lambda>sc. sc\<lparr>sc_ready := q\<rparr>) s2)
                | Some (Some co, q) \<Rightarrow>
                    (case resume_popped E co results (on_sched (\<lambda>sc. sc\<lparr>sc_ready := q\<rparr>) s2) of
                       (Ok results', s3) \<Rightarrow> do_schedule E fuel timeout_time results' s3
                     | (Err e, s3) \<Rightarrow> (Err e, s3)
                     | (Panic m, s3) \<Rightarrow> (Panic m, s3)
                     | (Hang, s3) \<Rightarrow> (Hang, s3)))
           | (Err e, s2) \<Rightarrow> (Err e, s2)
           | (Panic m, s2) \<Rightarrow> (Panic m, s2)
           | (Hang, s2) \<Rightarrow> (Hang, s2))"

definition try_timeout_schedule ::
  "('k, 'l, 'q, 'w) sched_env \<Rightarrow> nat \<Rightarrow> u64 \<Rightarrow> ('k, 'l, 'q, 'w) sched_sys
    \<Rightarrow> (sched_error, u64 \<times> sched_results) rust \<times> ('k, 'l, 'q, 'w) sched_sys" where
  "try_timeout_schedule E fuel timeout_time s =
     (case do_schedule E fuel timeout_time [] (s\<lparr>ss_current := sc_name (ss_sched s) # ss_current s\<rparr>) of
        (r, s') \<Rightarrow> (r, s'\<lparr>ss_current := tl (ss_current s')\<rparr>))"

definition try_timed_schedule ::
  "('k, 'l, 'q, 'w) sched_env \<Rightarrow> nat \<Rightarrow> nat \<Rightarrow> ('k, 'l, 'q, 'w) sched_sys
    \<Rightarrow> (sched_error, u64 \<times> sched_results) rust \<times> ('k, 'l, 'q, 'w) sched_sys" where
  "try_timed_schedule E fuel dur s =
     (case read_now E s of (t, s1) \<Rightarrow> try_timeout_schedule E fuel (get_timeout_time t dur) s1)"

definition try_schedule ::
  "('k, 'l, 'q, 'w) sched_env \<Rightarrow> nat \<Rightarrow> ('k, 'l, 'q, 'w) sched_sys
    \<Rightarrow> (sched_error, sched_results) rust \<times> ('k, 'l, 'q, 'w) sched_sys" where
  "try_schedule E fuel s =
     (case try_timeout_schedule E fuel u64_max s of
        (Ok (left_time, results), s') \<Rightarrow> (Ok results, s')
      | (Err e, s') \<Rightarrow> (Err e, s')
      | (Panic m, s') \<Rightarrow> (Panic m, s')
      | (Hang, s') \<Rightarrow> (Hang, s'))"

definition sched_drop ::
  "('k, 'l, 'q, 'w) sched_env \<Rightarrow> nat \<Rightarrow> bool \<Rightarrow> ('k, 'l, 'q, 'w) sched_sys
    \<Rightarrow> (sched_error, unit) rust \<times> ('k, 'l, 'q, 'w) sched_sys" where
  "sched_drop E fuel panicking s =
     (if panicking then (Ok (), s)
      else case try_timed_schedule E fuel (30 * 10 ^ 9) s of
        (Ok r, s') \<Rightarrow>
          (if \<not> rq_is_empty (se_rq E) (sc_ready (ss_sched s'))
           then (Panic ''There are still coroutines to be carried out in the ready queue'', s')
           else if sc_suspend (ss_sched s') \<noteq> []
           then (Panic ''There are still coroutines to be carried out in the suspend queue'', s')
           else if sc_syscall (ss_sched s') \<noteq> []
           then (Panic ''There are still coroutines to be carried out in the syscall queue'', s')
           else (Ok (), s'))
      | (Err e, s') \<Rightarrow> (Panic ''Failed to stop scheduler'', s')
      | (Panic m, s') \<Rightarrow> (Panic m, s')
      | (Hang, s') \<Rightarrow> (Hang, s'))"

section \<open>What the scheduler relies on\<close>

text \<open>
  The contract of the ready queue: a push that returns adds its coroutine, a pop returns and
  takes out exactly what it answers.
\<close>

locale ready_queue =
  fixes RQ :: "('c, 'q) ready_ops" and rq_inv :: "'q \<Rightarrow> bool" and rq_items :: "'q \<Rightarrow> 'c multiset"
  assumes push_law: "rq_inv q \<Longrightarrow> size (rq_items q) < usize_max \<Longrightarrow> rq_push RQ c q = Some q' \<Longrightarrow>
      rq_inv q' \<and> rq_items q' = add_mset c (rq_items q)"
    and pop_law: "rq_inv q \<Longrightarrow> \<exists>r q'. rq_pop RQ q = Some (r, q') \<and> rq_inv q'
      \<and> rq_items q = rq_items q' + mset_option r"

text \<open>The ordered work-stealing queue as a ready queue: its global part and one local handle.\<close>

definition olq_ready ::
  "('w, 'c) worker_ops \<Rightarrow> ('i, 'c) injector_ops \<Rightarrow> ('c \<Rightarrow> int option) \<Rightarrow> (olq \<Rightarrow> nat)
    \<Rightarrow> ('c, ('w, 'i) owsq \<times> olq) ready_ops" where
  "olq_ready W J prio random =
     \<lparr>rq_push = (\<lambda>c (s, h). olq_push W J prio c s h),
      rq_pop = (\<lambda>(s, h). map_option (\<lambda>(r, s', h'). (r, (s', h'))) (olq_pop W J (random h) s h)),
      rq_is_empty = (\<lambda>(s, h). olq_is_empty W s)\<rparr>"

definition olq_inv :: "('i \<Rightarrow> 'c list) \<Rightarrow> ('w, 'i) owsq \<times> olq \<Rightarrow> bool" where
  "olq_inv jitems q \<longleftrightarrow> owsq_ok jitems (fst q) \<and> ol_queue (snd q) < length (os_local_queues (fst q))"

definition olq_items ::
  "('w \<Rightarrow> 'c list) \<Rightarrow> ('i \<Rightarrow> 'c list) \<Rightarrow> ('w, 'i) owsq \<times> olq \<Rightarrow> 'c multiset" where
  "olq_items items jitems q = image_mset snd (owsq_bag items jitems (fst q))"

sublocale deques \<subseteq> olq: ready_queue "olq_ready W J prio random" "olq_inv jitems" "olq_items items jitems"
proof (unfold_locales, goal_cases)
  case (1 q c q')
  obtain s h where q: "q = (s, h)" by fastforce
  obtain s' h' where q': "q' = (s', h')" by fastforce
  define p where "p = (case prio c of None \<Rightarrow> DEFAULT_PRECEDENCE | Some p \<Rightarrow> p)"
  have "olq_push_with_priority W J p c s h = Some (s', h')"
    using 1(3) by (simp add: q q' olq_ready_def olq_push_def p_def)
  from local_push_law [OF _ _ _ this] 1(1,2) show ?case
    by (auto simp: q q' olq_inv_def olq_items_def same_frame_def)
next
  case (2 q)
  obtain s h where q: "q = (s, h)" by fastforce
  have "owsq_ok jitems s" "ol_queue h < length (os_local_queues s)" using 2 by (simp_all add: q olq_inv_def)
  from pop_law [OF this, of "random h"] obtain r s' h' where
    pop: "olq_pop W J (random h) s h = Some (r, s', h')" "popped items jitems r s s'" "ol_queue h' = ol_queue h"
    by blast
  have "owsq_ok jitems s'" "same_frame s s'" using pop(2) by (simp_all add: popped_def)
  with pop popped_items [OF pop(2)] 2 show ?case
    by (simp add: q olq_inv_def olq_items_def olq_ready_def same_frame_def)
qed

text \<open>
  A cooperative body, relative to a property \<open>good\<close> of the rest of a body and the state it is
  resumed in: it returns, panics and is cancelled only while its coroutine is running, it is
  suspended only while running or in a syscall that waits with a deadline, whichever way it
  is resumed then it is cooperative again, and what it submits is ready and cooperative.
\<close>

fun act_state :: "('y, 'x) co_action \<Rightarrow> ('y, 'r) coroutine_state \<Rightarrow> ('y, 'r) coroutine_state" where
  "act_state (A_syscall v n st) s =
     (case s of Cs_Running \<Rightarrow> Cs_Syscall v n st
      | Cs_Syscall y m st' \<Rightarrow> if m = n then Cs_Syscall v n st else s
      | _ \<Rightarrow> s)"
| "act_state A_running s =
     (case s of Cs_Ready \<Rightarrow> Cs_Running | Cs_Syscall y m Ss_Executing \<Rightarrow> Cs_Running | _ \<Rightarrow> s)"
| "act_state (A_ext x) s = s"

definition resumed_state :: "('y, 'r) coroutine_state \<Rightarrow> ('y, 'r) coroutine_state" where
  "resumed_state st = (case st of Cs_Syscall y n Ss_Callback \<Rightarrow> st | Cs_Syscall y n Ss_Timeout \<Rightarrow> st | _ \<Rightarrow> Cs_Running)"

definition is_pending :: "sco_state \<Rightarrow> bool" where
  "is_pending st \<longleftrightarrow> (case st of Cs_Ready \<Rightarrow> True | Cs_Suspend y ts \<Rightarrow> True
     | Cs_Syscall y n Ss_Callback \<Rightarrow> True | Cs_Syscall y n Ss_Timeout \<Rightarrow> True | _ \<Rightarrow> False)"

definition ends_ok :: "('k \<Rightarrow> sco_state \<Rightarrow> bool) \<Rightarrow> (unit, nat option) seg_end \<Rightarrow> 'k \<Rightarrow> sco_state \<Rightarrow> bool" where
  "ends_ok good e k st \<longleftrightarrow>
     (case e of E_return v \<Rightarrow> st = Cs_Running | E_panic m \<Rightarrow> st = Cs_Running | E_cancel \<Rightarrow> st = Cs_Running
      | _ \<Rightarrow> (case st of
           Cs_Running \<Rightarrow> (\<forall>ts. good k (Cs_Suspend () ts)) \<and> good k Cs_Ready
         | Cs_Syscall u n (Ss_Suspend ts) \<Rightarrow>
             good k (Cs_Syscall () n Ss_Callback) \<and> good k (Cs_Syscall () n Ss_Timeout)
         | _ \<Rightarrow> False))"

definition submits :: "(unit, ('k, 'l) sched_ext) co_action list \<Rightarrow> ('k, 'l) sco list" where
  "submits acts = concat (map (\<lambda>a. case a of A_ext (X_submit co) \<Rightarrow> [co] | _ \<Rightarrow> []) acts)"

definition cooperative ::
  "(unit, 'k, unit, nat option, ('k, 'l) sched_ext) body \<Rightarrow> ('k \<Rightarrow> sco_state \<Rightarrow> bool) \<Rightarrow> nat \<Rightarrow> bool" where
  "cooperative seg good n \<longleftrightarrow>
     (\<forall>k st acts e k'. good k st \<longrightarrow> is_pending st \<longrightarrow> seg () k = (acts, e, k') \<longrightarrow>
        ends_ok good e k' (fold act_state acts (resumed_state st))
        \<and> length (submits acts) \<le> n
        \<and> (\<forall>co\<in>set (submits acts). co_state co = Cs_Ready \<and> good (co_inner co) Cs_Ready))"

lemma cooperativeD:
  assumes "cooperative seg good n" "good k st" "is_pending st" "seg () k = (acts, e, k')"
  shows "ends_ok good e k' (fold act_state acts (resumed_state st))" and "length (submits acts) \<le> n"
    and "co \<in> set (submits acts) \<Longrightarrow> co_state co = Cs_Ready \<and> good (co_inner co) Cs_Ready"
  using assms unfolding cooperative_def by blast+

section \<open>One resume of a cooperative coroutine\<close>

definition on_cpu :: "('y, 'r) coroutine_state \<Rightarrow> bool" where
  "on_cpu st \<longleftrightarrow> st = Cs_Running \<or> (\<exists>y n s. st = Cs_Syscall y n s)"

definition ext_of :: "('y, 'x) co_action \<Rightarrow> 'x list" where
  "ext_of a = (case a of A_ext x \<Rightarrow> [x] | _ \<Rightarrow> [])"

lemma run_action_state:
  assumes "run_action lsn t a (co, th, xs) = (co', th', xs')" and "on_cpu (co_state co)"
  shows "co_state co' = act_state a (co_state co) \<and> on_cpu (co_state co') \<and> xs' = xs @ ext_of a"
proof (cases a)
  case (A_syscall v n st)
  with assms show ?thesis
    by (auto simp: on_cpu_def ext_of_def co_syscall_def change_state_def Let_def split: if_splits)
next
  case A_running
  show ?thesis
  proof (cases "co_state co")
    case (Cs_Syscall y n s)
    with assms A_running show ?thesis
      by (cases s) (auto simp: on_cpu_def ext_of_def co_running_def change_state_def Let_def)
  qed (use assms A_running in \<open>auto simp: on_cpu_def ext_of_def co_running_def\<close>)
next
  case (A_ext x)
  with assms show ?thesis by (simp add: ext_of_def)
qed

lemma run_actions_state:
  "fold (run_action lsn t) acts (co, th, xs) = (co', th', xs') \<Longrightarrow> on_cpu (co_state co) \<Longrightarrow>
     co_state co' = fold act_state acts (co_state co) \<and> on_cpu (co_state co')
     \<and> xs' = xs @ concat (map ext_of acts)"
proof (induction acts arbitrary: co th xs)
  case (Cons a acts)
  obtain co1 th1 xs1 where one: "run_action lsn t a (co, th, xs) = (co1, th1, xs1)"
    by (metis prod_cases3)
  note st = run_action_state [OF one Cons.prems(2)]
  have "fold (run_action lsn t) acts (co1, th1, xs1) = (co', th', xs')" using Cons.prems(1) one by simp
  from Cons.IH [OF this] st show ?case by auto
qed simp

lemma co_running_pending:
  assumes "co_running lsn t co th = (r, co', th')" and "is_pending (co_state co)" "runnable t (co_state co)"
  shows "co_state co' = resumed_state (co_state co) \<and> on_cpu (co_state co')"
proof (cases "co_state co")
  case (Cs_Syscall y n s)
  with assms show ?thesis
    by (cases s) (auto simp: co_running_def resumed_state_def on_cpu_def is_pending_def)
qed (use assms in \<open>auto simp: co_running_def resumed_state_def on_cpu_def is_pending_def change_state_def Let_def\<close>)

text \<open>Where a cooperative coroutine can be after its resume.\<close>

definition parked_ok :: "('k \<Rightarrow> sco_state \<Rightarrow> bool) \<Rightarrow> ('k, 'l) sco \<Rightarrow> bool" where
  "parked_ok good co \<longleftrightarrow>
     (case co_state co of
        Cs_Suspend u ts \<Rightarrow> good (co_inner co) (co_state co) \<and> good (co_inner co) Cs_Ready
      | Cs_Syscall u n (Ss_Suspend ts) \<Rightarrow>
          good (co_inner co) (Cs_Syscall () n Ss_Callback) \<and> good (co_inner co) (Cs_Syscall () n Ss_Timeout)
      | Cs_Cancelled \<Rightarrow> True | Cs_Complete v \<Rightarrow> True | Cs_Error m \<Rightarrow> True
      | _ \<Rightarrow> False)"

lemma from_running_inner:
  "from_running lsn new ev co th = (r, co', th') \<Longrightarrow> co_inner co' = co_inner co \<and> co_id co' = co_id co"
  by (cases "co_state co") (auto simp: from_running_def change_state_def Let_def)

lemma raw_resume_cooperative:
  assumes raw: "raw_resume lsn seg () t () co th = ((r, co', th'), xs)"
    and sg: "seg () (co_inner co) = (acts, e, k)"
    and run: "on_cpu (co_state co)"
    and ends: "ends_ok good e k (fold act_state acts (co_state co))"
  shows "r = Ok (co_state co') \<and> parked_ok good co' \<and> co_id co' = co_id co \<and> xs = concat (map ext_of acts)"
proof -
  obtain co1 th1 xs1 where rn:
    "fold (run_action lsn t) acts (co, init_current_su (co_id co) th, []) = (co1, th1, xs1)"
    by (metis prod_cases3)
  obtain sw th2 where lv: "leave_segment () e th1 = (sw, th2)" by fastforce
  define co2 where "co2 = co1\<lparr>co_inner := k\<rparr>"
  have inner: "inner_resume lsn seg () t () co th = (sw, co2, th2, xs1)"
    by (simp add: inner_resume_def sg rn lv co2_def)
  have st: "co_state co2 = fold act_state acts (co_state co)" "on_cpu (co_state co2)"
    and xs1: "xs1 = concat (map ext_of acts)" and k: "co_inner co2 = k" and cid: "co_id co2 = co_id co"
    using run_actions_state [OF rn run] co_steps_stacks(5) [OF run_actions_steps [OF rn]]
    by (auto simp: co2_def)
  have last: "rust_bind r2 (\<lambda>_. Ok new) = Ok (co_state co3) \<and> co_state co3 = new
      \<and> co_inner co3 = k \<and> co_id co3 = co_id co"
    if "from_running lsn new ev co2 th3 = (r2, co3, th4)" "co_state co2 = Cs_Running" for new ev th3 r2 co3 th4
    using from_running_result(1,2) [OF that(1)] from_running_inner [OF that(1)] that(2) k cid by simp
  note raw' = raw [unfolded raw_resume_def inner]
  note ends' = ends [folded st(1)]
  show ?thesis
  proof (cases sw)
    case (Returned out)
    with lv consider v where "e = E_return v" "out = Ok v" | m where "e = E_panic m" "out = Err m"
      by (cases e) auto
    then show ?thesis
    proof cases
      case (1 v)
      with ends' have "co_state co2 = Cs_Running" by (simp add: ends_ok_def)
      with last [of "Cs_Complete v"] raw' 1 show ?thesis
        by (auto simp: Returned co_complete_def parked_ok_def xs1 split: prod.splits)
    next
      case (2 m)
      with ends' have "co_state co2 = Cs_Running" by (simp add: ends_ok_def)
      with last [of "Cs_Error m"] raw' 2 show ?thesis
        by (auto simp: Returned co_error_def parked_ok_def xs1 split: prod.splits)
    qed
  next
    case (Yield y)
    show ?thesis
    proof (cases "co_state co2")
      case Cs_Running
      obtain c th3 where ic: "is_cancel th2 = (c, th3)" by fastforce
      show ?thesis
      proof (cases c)
        case True
        with last [of Cs_Cancelled] raw' Cs_Running show ?thesis
          by (auto simp: Yield ic co_cancel_def parked_ok_def xs1 split: prod.splits)
      next
        case False
        obtain ts th4 where tt: "take_timestamp th3 = (ts, th4)" by fastforce
        have "e = E_cancel \<or> (\<forall>ts. good k (Cs_Suspend () ts)) \<and> good k Cs_Ready"
          using ends' Cs_Running Yield lv by (cases e) (auto simp: ends_ok_def)
        moreover have "e \<noteq> E_cancel"
          using lv ic False by (auto simp: is_cancel_def clean_current_su_def push_cancel_def)
        ultimately have "\<forall>ts. good k (Cs_Suspend () ts)" "good k Cs_Ready" by auto
        with last [of "Cs_Suspend y ts"] raw' Cs_Running False show ?thesis
          by (auto simp: Yield ic tt co_suspend_def parked_ok_def xs1 split: prod.splits)
      qed
    next
      case (Cs_Syscall u n s)
      with ends' have "parked_ok good co2"
        by (cases e; cases s) (auto simp: ends_ok_def parked_ok_def k)
      with raw' Cs_Syscall cid show ?thesis by (auto simp: Yield xs1)
    qed (use st(2) in \<open>auto simp: on_cpu_def\<close>)
  qed
qed

lemma resume_cooperative:
  assumes coop: "cooperative seg good n" and g: "good (co_inner co) (co_state co)"
    and pend: "is_pending (co_state co)" and run: "runnable t (co_state co)"
    and res: "resume_with lsn seg () t () co th = ((r, co', th'), xs)"
    and sg: "seg () (co_inner co) = (acts, e, k)"
  shows "r = Ok (co_state co') \<and> parked_ok good co' \<and> co_id co' = co_id co \<and> xs = concat (map ext_of acts)"
proof -
  obtain r1 co1 th1 where ru: "co_running lsn t co (init_current_co (co_id co) th) = (r1, co1, th1)"
    by (metis prod_cases3)
  have ok: "r1 = Ok ()" using co_running_runnable(1) [OF ru] run by simp
  obtain r2 co2 th2 xs2 where raw: "raw_resume lsn seg () t () co1 th1 = ((r2, co2, th2), xs2)"
    by (metis prod.exhaust_sel)
  note st = co_steps_stacks(5,6) [OF co_op_okD [OF co_running_ok ru]]
  note st1 = co_running_pending [OF ru pend run]
  have eqs: "r = r2" "co' = co2" "xs = xs2"
    using res pend ru ok raw by (cases "co_state co"; simp add: resume_with_def is_pending_def)+
  have "ends_ok good e k (fold act_state acts (co_state co1))"
    using cooperativeD(1) [OF coop g pend sg] st1 by simp
  moreover have "seg () (co_inner co1) = (acts, e, k)" using sg st by simp
  ultimately show ?thesis
    using raw_resume_cooperative [OF raw, of acts e k good] st1 st eqs by auto
qed

section \<open>Safety of the scheduling loop\<close>

lemma runnable_mono: "runnable t st \<Longrightarrow> t \<le> t' \<Longrightarrow> runnable t' st"
  by (cases st) auto

definition suspend_ok :: "('k \<Rightarrow> sco_state \<Rightarrow> bool) \<Rightarrow> ('k, 'l) suspend_item list \<Rightarrow> bool" where
  "suspend_ok good items \<longleftrightarrow> sorted (map si_timestamp items)
     \<and> (\<forall>it\<in>set items. co_state (si_coroutine it) = Cs_Suspend () (si_timestamp it)
          \<and> parked_ok good (si_coroutine it))"

definition syscall_ok :: "('k \<Rightarrow> sco_state \<Rightarrow> bool) \<Rightarrow> (u64 \<times> ('k, 'l) sco) list \<Rightarrow> bool" where
  "syscall_ok good m \<longleftrightarrow> distinct (map fst m)
     \<and> (\<forall>(i, co)\<in>set m. co_id co = i \<and> parked_ok good co
          \<and> (\<exists>u n ts. co_state co = Cs_Syscall u n (Ss_Suspend ts)))"

definition ready_co :: "('k \<Rightarrow> sco_state \<Rightarrow> bool) \<Rightarrow> u64 \<Rightarrow> ('k, 'l) sco \<Rightarrow> bool" where
  "ready_co good t co \<longleftrightarrow> good (co_inner co) (co_state co) \<and> is_pending (co_state co) \<and> runnable t (co_state co)"

lemma set_alist_delete: "set (AList.delete i m) \<subseteq> set m"
  by (induction m) auto

lemma set_alist_update: "set (AList.update i v m) \<subseteq> insert (i, v) (set m)"
  by (induction m) auto

lemma mset_alist_delete:
  "map_of m i = Some v \<Longrightarrow> distinct (map fst m) \<Longrightarrow> mset m = add_mset (i, v) (mset (AList.delete i m))"
proof (induction m)
  case (Cons e m)
  then show ?case by (cases e) (auto split: if_splits)
qed simp

lemma length_alist_delete:
  "map_of m i = Some v \<Longrightarrow> distinct (map fst m) \<Longrightarrow> length m = Suc (length (AList.delete i m))"
  using mset_alist_delete [of m i v] by (metis size_add_mset size_mset)

lemma mset_alist_update:
  "i \<notin> fst ` set m \<Longrightarrow> mset (AList.update i v m) = add_mset (i, v) (mset m)"
proof (induction m)
  case (Cons e m)
  then show ?case by (cases e) auto
qed simp

lemma length_alist_update: "length (AList.update i v m) \<le> Suc (length m)"
proof (induction m)
  case (Cons e m)
  then show ?case by (cases e) auto
qed simp

lemma syscall_ok_delete: "syscall_ok good m \<Longrightarrow> syscall_ok good (AList.delete i m)"
  using set_alist_delete [of i m] by (auto simp: syscall_ok_def AList.distinct_delete)

lemma syscall_ok_update:
  assumes "syscall_ok good m" "co_id co = i" "parked_ok good co"
    "co_state co = Cs_Syscall u n (Ss_Suspend ts)"
  shows "syscall_ok good (AList.update i co m)"
  using assms set_alist_update [of i co m] by (auto simp: syscall_ok_def distinct_update)

lemma sorted_heap_push_si:
  assumes "sorted (map si_timestamp h)"
  shows "sorted (map si_timestamp (heap_push si_lt it h))"
    and "set (heap_push si_lt it h) = insert it (set h)" and "length (heap_push si_lt it h) = Suc (length h)"
    and "mset (heap_push si_lt it h) = add_mset it (mset h)"
proof -
  show s: "set (heap_push si_lt it h) = insert it (set h)" by (induction h) auto
  show "length (heap_push si_lt it h) = Suc (length h)" by (induction h) auto
  show "mset (heap_push si_lt it h) = add_mset it (mset h)" by (induction h) auto
  show "sorted (map si_timestamp (heap_push si_lt it h))"
    using assms
  proof (induction h)
    case (Cons x h)
    have "set (heap_push si_lt it h) = insert it (set h)" by (induction h) auto
    with Cons show ?case by (auto simp: si_lt_def)
  qed simp
qed

definition sched_inv ::
  "('k, 'l, 'q, 'w) sched_env \<Rightarrow> ('q \<Rightarrow> bool) \<Rightarrow> ('q \<Rightarrow> ('k, 'l) sco multiset)
    \<Rightarrow> ('k \<Rightarrow> sco_state \<Rightarrow> bool) \<Rightarrow> ('k, 'l, 'q, 'w) sched_sys \<Rightarrow> bool" where
  "sched_inv E rq_inv rq_items good s \<longleftrightarrow> rq_inv (sc_ready (ss_sched s))
     \<and> (\<forall>co\<in>#rq_items (sc_ready (ss_sched s)). ready_co good (se_clock E (ss_reads s)) co)
     \<and> suspend_ok good (sc_suspend (ss_sched s)) \<and> syscall_ok good (sc_syscall (ss_sched s))"

text \<open>The ids of the coroutines the scheduler holds, wherever they wait.\<close>

definition sched_ids ::
  "('q \<Rightarrow> ('k, 'l) sco multiset) \<Rightarrow> ('k, 'l, 'q, 'w) sched_sys \<Rightarrow> u64 multiset" where
  "sched_ids rq_items s = image_mset co_id (rq_items (sc_ready (ss_sched s)))
     + mset (map (\<lambda>it. co_id (si_coroutine it)) (sc_suspend (ss_sched s)))
     + mset (map fst (sc_syscall (ss_sched s)))"

text \<open>
  The scheduler on a ready queue that keeps its contract, with cooperative bodies and a clock
  that does not run backwards.
\<close>

locale scheduling = ready_queue "se_rq E" rq_inv rq_items
  for E :: "('k, 'l, 'q, 'w) sched_env" and rq_inv rq_items +
  fixes good :: "'k \<Rightarrow> sco_state \<Rightarrow> bool" and subm :: nat
  assumes coop: "cooperative (se_seg E) good subm" and clock: "mono (se_clock E)"
begin

abbreviation inv :: "('k, 'l, 'q, 'w) sched_sys \<Rightarrow> bool" where
  "inv \<equiv> sched_inv E rq_inv rq_items good"

abbreviation ids :: "('k, 'l, 'q, 'w) sched_sys \<Rightarrow> u64 multiset" where
  "ids \<equiv> sched_ids rq_items"

lemma size_ready: "size (rq_items (sc_ready (ss_sched s))) \<le> size (ids s)"
  by (simp add: sched_ids_def)

lemma inv_read_now: "inv s \<Longrightarrow> read_now E s = (t, s') \<Longrightarrow> inv s' \<and> ids s' = ids s
    \<and> t \<le> se_clock E (ss_reads s')"
proof -
  assume a: "inv s" "read_now E s = (t, s')"
  have "se_clock E (ss_reads s) \<le> se_clock E (ss_reads s')"
    using a(2) monoD [OF clock, of "ss_reads s" "Suc (ss_reads s)"] by (auto simp: read_now_def)
  then have "\<And>co. ready_co good (se_clock E (ss_reads s)) co \<Longrightarrow> ready_co good (se_clock E (ss_reads s')) co"
    using runnable_mono unfolding ready_co_def by blast
  moreover have "ss_sched s' = ss_sched s" "t = se_clock E (ss_reads s)" using a(2) by (auto simp: read_now_def)
  ultimately show ?thesis
    using a(1) \<open>se_clock E (ss_reads s) \<le> se_clock E (ss_reads s')\<close> by (auto simp: sched_inv_def sched_ids_def)
qed

lemma inv_ready_push:
  assumes "inv s" and "size (ids s) < usize_max"
    and "ready_co good (se_clock E (ss_reads s)) co" and push: "ready_push E co s = Some s'"
  shows "inv s' \<and> ids s' = add_mset (co_id co) (ids s) \<and> ss_reads s' = ss_reads s"
proof -
  obtain q where q: "rq_push (se_rq E) co (sc_ready (ss_sched s)) = Some q"
    and s': "s' = on_sched (\<lambda>sc. sc\<lparr>sc_ready := q\<rparr>) s"
    using push by (auto simp: ready_push_def)
  from push_law [OF _ _ q] assms(1-3) size_ready [of s] show ?thesis
    by (auto simp: s' sched_inv_def sched_ids_def)
qed

lemma inv_suspend: "inv s \<Longrightarrow> suspend_ok good items \<Longrightarrow> inv (on_sched (\<lambda>sc. sc\<lparr>sc_suspend := items\<rparr>) s)"
  by (simp add: sched_inv_def)

lemma inv_thread [simp]: "inv (s\<lparr>ss_thread := th\<rparr>) = inv s" "ids (s\<lparr>ss_thread := th\<rparr>) = ids s"
  "inv (s\<lparr>ss_cancel := c\<rparr>) = inv s" "ids (s\<lparr>ss_cancel := c\<rparr>) = ids s"
  "inv (s\<lparr>ss_running := m\<rparr>) = inv s" "ids (s\<lparr>ss_running := m\<rparr>) = ids s"
  by (simp_all add: sched_inv_def sched_ids_def)

lemma co_ready_due:
  assumes "co_state co = Cs_Suspend () ts" and "ts \<le> t" and "parked_ok good co"
    and "co_ready lsn t co th = (r, co', th')"
  shows "r = Ok () \<and> co_id co' = co_id co \<and> ready_co good t' co'"
  using assms
  by (auto simp: co_ready_def change_state_def Let_def ready_co_def parked_ok_def is_pending_def)

lemma check_suspend_law:
  assumes "inv (on_sched (\<lambda>sc. sc\<lparr>sc_suspend := items\<rparr>) s)"
    and "size (ids (on_sched (\<lambda>sc. sc\<lparr>sc_suspend := items\<rparr>) s)) \<le> usize_max"
    and "check_suspend E items s = (r, s')"
  shows "r = Hang \<or> r = Ok () \<and> inv s' \<and> ids s' = ids (on_sched (\<lambda>sc. sc\<lparr>sc_suspend := items\<rparr>) s)"
  using assms
proof (induction items arbitrary: s)
  case (Cons it items)
  obtain t s1 where n1: "read_now E s = (t, s1)" by fastforce
  show ?case
  proof (cases "t < si_timestamp it")
    case True
    have "read_now E (on_sched (\<lambda>sc. sc\<lparr>sc_suspend := it # items\<rparr>) s) =
        (t, on_sched (\<lambda>sc. sc\<lparr>sc_suspend := it # items\<rparr>) s1)"
      using n1 by (auto simp: read_now_def)
    from inv_read_now [OF Cons.prems(1) this] Cons.prems(3) n1 True show ?thesis by auto
  next
    case False
    obtain t' s2 where n2: "read_now E (on_sched (\<lambda>sc. sc\<lparr>sc_suspend := items\<rparr>) s1) = (t', s2)"
      by fastforce
    obtain r1 co th where rd: "co_ready (se_lsn E) t' (si_coroutine it) (ss_thread s2) = (r1, co, th)"
      by (metis prod_cases3)
    have it: "co_state (si_coroutine it) = Cs_Suspend () (si_timestamp it)" "parked_ok good (si_coroutine it)"
      and ok: "suspend_ok good items"
      using Cons.prems(1) by (auto simp: sched_inv_def suspend_ok_def)
    have "inv (on_sched (\<lambda>sc. sc\<lparr>sc_suspend := items\<rparr>) s)"
      using Cons.prems(1) ok by (simp add: sched_inv_def)
    then have i1: "inv (on_sched (\<lambda>sc. sc\<lparr>sc_suspend := items\<rparr>) s1)" and tt: "t \<le> se_clock E (ss_reads s1)"
      using inv_read_now [of "on_sched (\<lambda>sc. sc\<lparr>sc_suspend := items\<rparr>) s" t
          "on_sched (\<lambda>sc. sc\<lparr>sc_suspend := items\<rparr>) s1"] n1 by (auto simp: read_now_def)
    note i2 = inv_read_now [OF i1 n2]
    have "t' = se_clock E (ss_reads s1)" using n2 by (auto simp: read_now_def)
    then have due: "si_timestamp it \<le> t'" using False tt by simp
    note rc = co_ready_due [OF it(1) due it(2) rd]
    have tot: "size (ids s2) < usize_max"
      and tot2: "add_mset (co_id (si_coroutine it)) (ids s2) = ids (on_sched (\<lambda>sc. sc\<lparr>sc_suspend := it # items\<rparr>) s)"
      using Cons.prems(2) n1 n2 by (auto simp: sched_ids_def read_now_def)
    show ?thesis
    proof (cases "ready_push E co (s2\<lparr>ss_thread := th\<rparr>)")
      case None
      with Cons.prems(3) n1 n2 rd rc False show ?thesis by simp
    next
      case (Some s3)
      have "inv (s2\<lparr>ss_thread := th\<rparr>)" using i2 by simp
      from inv_ready_push [OF this _ _ Some] rc tot
      have i3: "inv s3" "ids s3 = ids (on_sched (\<lambda>sc. sc\<lparr>sc_suspend := it # items\<rparr>) s)"
        unfolding tot2 [symmetric] by simp_all
      have su: "sc_suspend (ss_sched s3) = items"
        using Some n2 by (auto simp: ready_push_def read_now_def)
      have "on_sched (\<lambda>sc. sc\<lparr>sc_suspend := items\<rparr>) s3 = s3"
        using su by (cases s3; cases "ss_sched s3") auto
      with Cons.IH [of s3] i3 Cons.prems(2,3) n1 n2 rd rc False Some show ?thesis by auto
    qed
  qed
qed simp

lemma co_syscall_same:
  assumes "co_state co = Cs_Syscall () n (Ss_Suspend ts)" and "parked_ok good co"
    and "st = Ss_Callback \<or> st = Ss_Timeout"
    and "co_syscall lsn () n st co th = (r, co', th')"
  shows "r = Ok () \<and> co_id co' = co_id co \<and> ready_co good t' co'"
  using assms
  by (auto simp: co_syscall_def change_state_def Let_def ready_co_def parked_ok_def is_pending_def)

lemma inv_syscall_suspend [simp]:
  "inv (on_sched (\<lambda>sc. sc\<lparr>sc_syscall_suspend := items\<rparr>) s) = inv s"
  "ids (on_sched (\<lambda>sc. sc\<lparr>sc_syscall_suspend := items\<rparr>) s) = ids s"
  by (simp_all add: sched_inv_def sched_ids_def)

lemma check_syscall_suspend_law:
  assumes "inv s" and "size (ids s) \<le> usize_max" and "check_syscall_suspend E items s = (r, s')"
  shows "r = Hang \<or> r = Ok () \<and> inv s' \<and> ids s' = ids s"
  using assms
proof (induction items arbitrary: s)
  case (Cons it items)
  obtain t s1 where n1: "read_now E s = (t, s1)" by fastforce
  note i1 = inv_read_now [OF Cons.prems(1) n1]
  define s2 where "s2 = on_sched (\<lambda>sc. sc\<lparr>sc_syscall_suspend := items\<rparr>) s1"
  have i2: "inv s2" "ids s2 = ids s" using i1 by (simp_all add: s2_def)
  show ?case
  proof (cases "t < ssi_timestamp it")
    case True
    with Cons.prems(3) n1 i1 show ?thesis by auto
  next
    case False
    show ?thesis
    proof (cases "map_of (sc_syscall (ss_sched s2)) (ssi_co_id it)")
      case None
      with Cons.prems(3) n1 False have "check_syscall_suspend E items s2 = (r, s')"
        by (simp add: s2_def)
      with Cons.IH [of s2] i2 Cons.prems(2) show ?thesis by simp
    next
      case (Some co)
      define s3 where "s3 = on_sched (\<lambda>sc. sc\<lparr>sc_syscall := AList.delete (ssi_co_id it) (sc_syscall sc)\<rparr>) s2"
      have ok: "syscall_ok good (sc_syscall (ss_sched s2))" using i2 by (simp add: sched_inv_def)
      obtain n ts where co: "co_state co = Cs_Syscall () n (Ss_Suspend ts)" "parked_ok good co"
        using ok map_of_SomeD [OF Some] by (auto simp: syscall_ok_def)
      have i3: "inv s3" using i2(1) syscall_ok_delete [OF ok] by (simp add: sched_inv_def s3_def)
      have "mset (sc_syscall (ss_sched s2)) = add_mset (ssi_co_id it, co) (mset (sc_syscall (ss_sched s3)))"
        using mset_alist_delete [OF Some] ok by (simp add: syscall_ok_def s3_def)
      then have "mset (map fst (sc_syscall (ss_sched s2))) =
          add_mset (ssi_co_id it) (mset (map fst (sc_syscall (ss_sched s3))))" by simp
      moreover have "co_id co = ssi_co_id it" using ok map_of_SomeD [OF Some] by (auto simp: syscall_ok_def)
      ultimately have "ids s2 = add_mset (co_id co) (ids s3)" by (simp add: sched_ids_def s3_def)
      then have tot: "ids s = add_mset (co_id co) (ids s3)" by (simp add: i2(2))
      obtain r1 co' th where sy: "co_syscall (se_lsn E) () n Ss_Timeout co (ss_thread s3) = (r1, co', th)"
        by (metis prod_cases3)
      note rc = co_syscall_same [OF co _ sy]
      show ?thesis
      proof (cases "ready_push E co' (s3\<lparr>ss_thread := th\<rparr>)")
        case None
        with Cons.prems(3) n1 False Some co sy rc show ?thesis
          by (simp add: s2_def s3_def)
      next
        case push: (Some s4)
        have "inv (s3\<lparr>ss_thread := th\<rparr>)" using i3 by simp
        from inv_ready_push [OF this _ _ push] rc tot Cons.prems(2)
        have i4: "inv s4" "ids s4 = ids s" by simp_all
        have "check_syscall_suspend E items s4 = (r, s')"
          using Cons.prems(3) n1 False Some co sy rc push
          by (simp add: s2_def s3_def)
        with Cons.IH [of s4] i4 Cons.prems(2) show ?thesis by simp
      qed
    qed
  qed
qed auto

lemma check_ready_law:
  assumes "inv s" and "size (ids s) \<le> usize_max" and "check_ready E s = (r, s')"
  shows "r = Hang \<or> r = Ok () \<and> inv s' \<and> ids s' = ids s"
proof -
  have eq: "on_sched (\<lambda>sc. sc\<lparr>sc_suspend := sc_suspend (ss_sched s)\<rparr>) s = s"
    by (cases s; cases "ss_sched s") auto
  obtain r1 s1 where c1: "check_suspend E (sc_suspend (ss_sched s)) s = (r1, s1)" by fastforce
  from check_suspend_law [OF _ _ c1] assms(1,2) eq
  have "r1 = Hang \<or> r1 = Ok () \<and> inv s1 \<and> ids s1 = ids s" by simp
  then show ?thesis
  proof
    assume "r1 = Hang"
    with c1 assms(3) show ?thesis by (simp add: check_ready_def)
  next
    assume a: "r1 = Ok () \<and> inv s1 \<and> ids s1 = ids s"
    with c1 assms(3) have "check_syscall_suspend E (sc_syscall_suspend (ss_sched s1)) s1 = (r, s')"
      by (simp add: check_ready_def)
    from check_syscall_suspend_law [OF _ _ this] a assms(2) show ?thesis by auto
  qed
qed

lemma fold_add_listener: "co_inner (fold add_listener ls co) = co_inner co
    \<and> co_state (fold add_listener ls co) = co_state co \<and> co_id (fold add_listener ls co) = co_id co"
  by (induction ls arbitrary: co) (simp_all add: add_listener_def)

definition ext_submits :: "('k, 'l) sched_ext list \<Rightarrow> ('k, 'l) sco list" where
  "ext_submits xs = concat (map (\<lambda>x. case x of X_submit co \<Rightarrow> [co] | X_cancel i \<Rightarrow> []) xs)"

lemma ext_submits_acts: "ext_submits (concat (map ext_of acts)) = submits acts"
  by (induction acts) (auto simp: ext_submits_def submits_def ext_of_def split: co_action.splits)

lemma apply_ext_law:
  assumes "inv s" and "size (ids s) + length (ext_submits xs) \<le> usize_max"
    and "\<forall>co\<in>set (ext_submits xs). co_state co = Cs_Ready \<and> good (co_inner co) Cs_Ready"
    and "apply_ext E xs s = Some s'"
  shows "inv s' \<and> ids s' = ids s + mset (map co_id (ext_submits xs)) \<and> ss_reads s' = ss_reads s"
  using assms
proof (induction xs arbitrary: s)
  case Nil
  then show ?case by (simp add: ext_submits_def)
next
  case (Cons x xs)
  show ?case
  proof (cases x)
    case (X_submit co)
    then obtain i s1 where sub: "submit_raw_co E co s = Some (i, s1)" and rest: "apply_ext E xs s1 = Some s'"
      using Cons.prems(4) by (auto split: option.splits)
    have len: "ext_submits (x # xs) = co # ext_submits xs" by (simp add: ext_submits_def X_submit)
    define co' where "co' = fold add_listener (sc_listeners (ss_sched s)) co"
    have push: "ready_push E co' s = Some s1"
      using sub by (auto simp: submit_raw_co_def Let_def co'_def)
    have rc: "ready_co good t co'" for t
      using Cons.prems(3) fold_add_listener [of "sc_listeners (ss_sched s)" co] len
      by (simp add: ready_co_def co'_def is_pending_def)
    have cid: "co_id co' = co_id co" by (simp add: co'_def fold_add_listener)
    have "size (ids s) < usize_max" using Cons.prems(2) len by simp
    from inv_ready_push [OF Cons.prems(1) this rc push] Cons.IH [OF _ _ _ rest] Cons.prems(2,3) len
    show ?thesis by (simp add: cid)
  next
    case (X_cancel i)
    then have len: "ext_submits (X_cancel i # xs) = ext_submits xs" by (simp add: ext_submits_def)
    have "inv (try_cancel_coroutine i s)" "ids (try_cancel_coroutine i s) = ids s"
      "ss_reads (try_cancel_coroutine i s) = ss_reads s"
      using Cons.prems(1) by (simp_all add: try_cancel_coroutine_def)
    with Cons.IH [of "try_cancel_coroutine i s"] Cons.prems(2-4) X_cancel show ?thesis by (simp add: len)
  qed
qed

lemma apply_ext_syscall:
  "apply_ext E xs s = Some s' \<Longrightarrow> sc_syscall (ss_sched s') = sc_syscall (ss_sched s)"
proof (induction xs arbitrary: s)
  case (Cons x xs)
  then show ?case
    by (cases x) (auto simp: submit_raw_co_def ready_push_def try_cancel_coroutine_def Let_def split: option.splits)
qed simp

text \<open>
  What a dispatch lets go of: a cancelled coroutine, and a coroutine in the syscall table that
  is overwritten by another one with the same id.
\<close>

definition let_go :: "('k, 'l) sco \<Rightarrow> ('k, 'l, 'q, 'w) sched_sys \<Rightarrow> u64 multiset" where
  "let_go co s =
     (case co_state co of
        Cs_Cancelled \<Rightarrow> {#co_id co#}
      | Cs_Syscall u n st \<Rightarrow> (if co_id co \<in> fst ` set (sc_syscall (ss_sched s)) then {#co_id co#} else {#})
      | _ \<Rightarrow> {#})"

lemma mset_keys_update:
  "mset (map fst (AList.update i v m)) + (if i \<in> fst ` set m then {#i#} else {#}) = add_mset i (mset (map fst m))"
proof (cases "i \<in> fst ` set m")
  case True
  then show ?thesis by (simp add: update_keys)
next
  case False
  then show ?thesis by (simp add: update_keys)
qed

lemma dispatch_law:
  assumes "inv s" and "size (ids s) < usize_max" and "parked_ok good co"
    and "dispatch E co (co_state co) results s = (r, s')"
  shows "r = Hang \<or> r = Panic ''not consume result'' \<and> co_id co \<in> fst ` set results
    \<or> (\<exists>results'. r = Ok results' \<and> inv s'
         \<and> ids s' + mset (map fst results') + let_go co s =
             add_mset (co_id co) (ids s + mset (map fst results)))"
proof (cases "co_state co")
  case (Cs_Suspend u ts)
  obtain t s1 where n1: "read_now E s = (t, s1)" by fastforce
  note i1 = inv_read_now [OF assms(1) n1]
  have lg: "let_go co s = {#}" by (simp add: let_go_def Cs_Suspend)
  show ?thesis
  proof (cases "ts > t")
    case True
    define it where "it = \<lparr>si_timestamp = ts, si_coroutine = co\<rparr>"
    define s2 where "s2 = on_sched (\<lambda>sc. sc\<lparr>sc_suspend := heap_push si_lt it (sc_suspend sc)\<rparr>) s1"
    have ok: "suspend_ok good (sc_suspend (ss_sched s1))" using i1 by (simp add: sched_inv_def)
    then have hp: "sorted (map si_timestamp (heap_push si_lt it (sc_suspend (ss_sched s1))))"
      "set (heap_push si_lt it (sc_suspend (ss_sched s1))) = insert it (set (sc_suspend (ss_sched s1)))"
      "mset (heap_push si_lt it (sc_suspend (ss_sched s1))) = add_mset it (mset (sc_suspend (ss_sched s1)))"
      by (auto simp: suspend_ok_def sorted_heap_push_si)
    have "suspend_ok good (heap_push si_lt it (sc_suspend (ss_sched s1)))"
      using ok hp(1,2) assms(3) Cs_Suspend by (auto simp: suspend_ok_def it_def)
    then have "inv s2" using i1 by (simp add: sched_inv_def s2_def)
    moreover have "ids s2 = add_mset (co_id co) (ids s1)"
      using hp(3) by (simp add: sched_ids_def s2_def it_def)
    moreover have "r = Ok results" "s' = s2"
      using assms(4) Cs_Suspend n1 True by (simp_all add: dispatch_def s2_def it_def)
    ultimately show ?thesis using i1 lg by simp
  next
    case False
    show ?thesis
    proof (cases "ready_push E co s1")
      case None
      with assms(4) Cs_Suspend n1 False show ?thesis by (simp add: dispatch_def)
    next
      case (Some s2)
      have "ready_co good (se_clock E (ss_reads s1)) co"
        using assms(3) Cs_Suspend False i1 by (auto simp: ready_co_def parked_ok_def is_pending_def)
      from inv_ready_push [OF _ _ this Some] i1 assms(2) have "inv s2" "ids s2 = add_mset (co_id co) (ids s)"
        by simp_all
      moreover have "r = Ok results" "s' = s2"
        using assms(4) Cs_Suspend n1 False Some by (simp_all add: dispatch_def)
      ultimately show ?thesis using lg by simp
    qed
  qed
next
  case (Cs_Syscall u n st)
  then obtain ts where st: "st = Ss_Suspend ts" using assms(3) by (cases st) (auto simp: parked_ok_def)
  define s1 where "s1 = on_sched (\<lambda>sc. sc\<lparr>sc_syscall := AList.update (co_id co) co (sc_syscall sc)\<rparr>) s"
  have "syscall_ok good (sc_syscall (ss_sched s))" using assms(1) by (simp add: sched_inv_def)
  from syscall_ok_update [OF this refl assms(3) Cs_Syscall [unfolded st]]
  have "inv s1" using assms(1) by (simp add: sched_inv_def s1_def)
  moreover have "ids s1 + let_go co s = add_mset (co_id co) (ids s)"
    using mset_keys_update [of "co_id co" co "sc_syscall (ss_sched s)"]
    by (simp add: sched_ids_def s1_def let_go_def Cs_Syscall)
  moreover have "r = Ok results" "inv s' = inv s1" "ids s' = ids s1"
    using assms(4) Cs_Syscall st by (auto simp: dispatch_def s1_def sched_inv_def sched_ids_def)
  ultimately show ?thesis by (simp add: ac_simps)
next
  case (Cs_Complete v)
  with assms show ?thesis
    by (auto simp: dispatch_def Let_def let_go_def mset_alist_update map_of_eq_None_iff split: if_splits)
next
  case (Cs_Error m)
  with assms show ?thesis
    by (auto simp: dispatch_def Let_def let_go_def mset_alist_update map_of_eq_None_iff split: if_splits)
qed (use assms in \<open>auto simp: dispatch_def Let_def let_go_def parked_ok_def\<close>)

text \<open>
  One turn of the loop: the popped coroutine is parked again, finished with a result, or let
  go of, and every other coroutine stays where it is.
\<close>

lemma resume_popped_law:
  assumes "inv s" and "size (ids s) + subm < usize_max"
    and "ready_co good (se_clock E (ss_reads s)) co"
    and "resume_popped E co results s = (r, s')"
  shows "r = Hang \<or> r = Panic ''not consume result'' \<and> co_id co \<in> fst ` set results
    \<or> (\<exists>results' X C. r = Ok results' \<and> inv s'
         \<and> ids s' + mset (map fst results') + C = add_mset (co_id co) (ids s + mset (map fst results)) + X
         \<and> size X \<le> subm
         \<and> (C = {#} \<or> C = {#co_id co#} \<and>
             (co_id co \<in> ss_cancel s \<or> co_id co \<in> fst ` set (sc_syscall (ss_sched s))
              \<or> (\<exists>t th co' th' xs. resume_with (se_lsn E) (se_seg E) () t () co th = ((Ok Cs_Cancelled, co', th'), xs)))))"
proof (cases "co_id co \<in> ss_cancel s")
  case True
  with assms(1,4) show ?thesis
    by (auto simp: resume_popped_def intro!: exI [of _ "{#}"] exI [of _ "{#co_id co#}"])
next
  case False
  define s0 where "s0 = s\<lparr>ss_running := AList.update (co_id co) (se_self E) (ss_running s)\<rparr>"
  obtain t s1 where n1: "read_now E s0 = (t, s1)" by fastforce
  have i1: "inv s1" "ids s1 = ids s" "t = se_clock E (ss_reads s)"
    using inv_read_now [OF _ n1] assms(1) n1 by (auto simp: s0_def read_now_def)
  obtain acts e k where sg: "se_seg E () (co_inner co) = (acts, e, k)" by (metis prod_cases3)
  obtain r1 co' th xs where res:
    "resume_with (se_lsn E) (se_seg E) () t () co (ss_thread s1) = ((r1, co', th), xs)"
    by (metis prod.exhaust_sel)
  have g: "good (co_inner co) (co_state co)" "is_pending (co_state co)" "runnable t (co_state co)"
    using assms(3) i1(3) by (simp_all add: ready_co_def)
  note rc = resume_cooperative [OF coop g res sg]
  have len: "length (ext_submits xs) \<le> subm"
    and subs: "\<forall>co\<in>set (ext_submits xs). co_state co = Cs_Ready \<and> good (co_inner co) Cs_Ready"
    using cooperativeD(2,3) [OF coop g(1,2) sg] rc by (simp_all add: ext_submits_acts)
  show ?thesis
  proof (cases "apply_ext E xs (s1\<lparr>ss_thread := th\<rparr>)")
    case None
    with assms(4) False n1 res show ?thesis by (simp add: resume_popped_def s0_def)
  next
    case (Some s2)
    define X where "X = mset (map co_id (ext_submits xs))"
    from apply_ext_law [OF _ _ subs Some] i1 len assms(2)
    have i2: "inv s2" "ids s2 = ids s + X" by (simp_all add: X_def)
    define s3 where "s3 = s2\<lparr>ss_running := AList.delete (co_id co) (ss_running s2)\<rparr>"
    have d: "dispatch E co' (co_state co') results s3 = (r, s')"
      using assms(4) False n1 res Some rc by (simp add: resume_popped_def s0_def s3_def)
    have sX: "size X \<le> subm" using len by (simp add: X_def)
    have "inv s3" "size (ids s3) < usize_max" "parked_ok good co'"
      using i2 sX assms(2) rc by (simp_all add: s3_def)
    note dl = dispatch_law [OF this d]
    have tab: "sc_syscall (ss_sched s3) = sc_syscall (ss_sched s)"
      using apply_ext_syscall [OF Some] n1 by (auto simp: s3_def s0_def read_now_def)
    have lg: "let_go co' s3 = {#} \<or> let_go co' s3 = {#co_id co#} \<and>
        (co_id co \<in> fst ` set (sc_syscall (ss_sched s)) \<or> co_state co' = Cs_Cancelled)"
      using rc tab by (cases "co_state co'") (auto simp: let_go_def)
    have rc': "co_id co' = co_id co" "r1 = Ok (co_state co')" using rc by blast+
    have ids3: "ids s3 = ids s + X" using i2 by (simp add: s3_def)
    from dl [unfolded ids3 rc'] consider "r = Hang" | "r = Panic ''not consume result'' \<and> co_id co \<in> fst ` set results"
      | results' where "r = Ok results'" "inv s'"
        "ids s' + mset (map fst results') + let_go co' s3 =
             add_mset (co_id co) (ids s + X + mset (map fst results))"
      by blast
    then show ?thesis
    proof cases
      case (3 results')
      have "ids s' + mset (map fst results') + let_go co' s3 =
          add_mset (co_id co) (ids s + mset (map fst results)) + X"
        using 3(3) by (simp add: ac_simps)
      moreover have "let_go co' s3 = {#} \<or> let_go co' s3 = {#co_id co#} \<and>
          (co_id co \<in> ss_cancel s \<or> co_id co \<in> fst ` set (sc_syscall (ss_sched s))
              \<or> (\<exists>t th co' th' xs. resume_with (se_lsn E) (se_seg E) () t () co th = ((Ok Cs_Cancelled, co', th'), xs)))"
        using lg res rc' by metis
      ultimately show ?thesis using 3(1,2) sX by blast
    qed blast+
  qed
qed

text \<open>
  Safety of the loop: it never answers an error, and the only panic it can end in is the
  assertion on the results of two coroutines with the same id.
\<close>

lemma do_schedule_law:
  assumes "inv s" and "size (ids s) + length results + fuel * subm < usize_max"
    and "do_schedule E fuel timeout_time results s = (r, s')"
  shows "r = Hang \<or> r = Panic ''not consume result'' \<or> (\<exists>v. r = Ok v \<and> inv s')"
  using assms
proof (induction fuel arbitrary: results s)
  case (Suc fuel)
  obtain t s1 where n1: "read_now E s = (t, s1)" by fastforce
  note i1 = inv_read_now [OF Suc.prems(1) n1]
  show ?case
  proof (cases "sat_sub timeout_time t = 0")
    case True
    with Suc.prems(3) n1 i1 show ?thesis by auto
  next
    case False
    obtain rc s2 where cr: "check_ready E s1 = (rc, s2)" by fastforce
    have "rc = Hang \<or> rc = Ok () \<and> inv s2 \<and> ids s2 = ids s"
      using check_ready_law [OF _ _ cr] i1 Suc.prems(2) by auto
    then show ?thesis
    proof
      assume "rc = Hang"
      with Suc.prems(3) n1 False cr show ?thesis by simp
    next
      assume i2: "rc = Ok () \<and> inv s2 \<and> ids s2 = ids s"
      then have "rq_inv (sc_ready (ss_sched s2))" by (simp add: sched_inv_def)
      from pop_law [OF this] obtain p q where pop: "rq_pop (se_rq E) (sc_ready (ss_sched s2)) = Some (p, q)"
        "rq_inv q" "rq_items (sc_ready (ss_sched s2)) = rq_items q + mset_option p" by blast
      define s3 where "s3 = on_sched (\<lambda>sc. sc\<lparr>sc_ready := q\<rparr>) s2"
      have i3: "inv s3" using i2 pop by (auto simp: sched_inv_def s3_def)
      show ?thesis
      proof (cases p)
        case None
        with Suc.prems(3) n1 False cr i2 pop(1) i3 show ?thesis by (auto simp: s3_def)
      next
        case (Some co)
        obtain r3 s4 where rp: "resume_popped E co results s3 = (r3, s4)" by fastforce
        have rcO: "ready_co good (se_clock E (ss_reads s3)) co"
          using i2 pop(3) Some by (simp add: sched_inv_def s3_def)
        have "ids s2 = add_mset (co_id co) (ids s3)"
          using pop(3) Some by (simp add: sched_ids_def s3_def)
        then have tot: "ids s = add_mset (co_id co) (ids s3)" using i2 by simp
        then have "size (ids s3) + subm < usize_max" using Suc.prems(2) by simp
        from resume_popped_law [OF i3 this rcO rp]
        consider "r3 = Hang \<or> r3 = Panic ''not consume result''"
          | results' X C where "r3 = Ok results'" "inv s4" "size X \<le> subm"
            "ids s4 + mset (map fst results') + C = ids s + mset (map fst results) + X"
          unfolding tot by auto
        then show ?thesis
        proof cases
          case 1
          with Suc.prems(3) n1 False cr i2 pop(1) Some rp show ?thesis by (auto simp: s3_def)
        next
          case (2 results' X C)
          have "do_schedule E fuel timeout_time results' s4 = (r, s')"
            using Suc.prems(3) n1 False cr i2 pop(1) Some rp 2(1) by (simp add: s3_def)
          moreover have "size (ids s4 + mset (map fst results') + C) = size (ids s + mset (map fst results) + X)"
            using 2(4) by simp
          then have "size (ids s4) + length results' \<le> size (ids s) + length results + subm"
            using 2(3) by simp
          ultimately show ?thesis using Suc.IH [of s4 results'] 2(2) Suc.prems(2) by simp
        qed
      qed
    qed
  qed
qed simp

text \<open>
  Wake-ups: after \<open>check_ready\<close> no coroutine is left suspended that was due when it started,
  and none was woken that is not due when it ends.
\<close>

lemma check_suspend_wakes:
  assumes "sorted (map si_timestamp items)" and "check_suspend E items s = (Ok (), s')"
  shows "(\<forall>it\<in>set (sc_suspend (ss_sched s')). se_clock E (ss_reads s) < si_timestamp it)
    \<and> (\<forall>it\<in>set items. se_clock E (ss_reads s') < si_timestamp it \<longrightarrow> it \<in> set (sc_suspend (ss_sched s')))
    \<and> ss_reads s \<le> ss_reads s'"
  using assms
proof (induction items arbitrary: s)
  case (Cons it items)
  obtain t s1 where n1: "read_now E s = (t, s1)" by fastforce
  have t: "t = se_clock E (ss_reads s)" "ss_reads s1 = Suc (ss_reads s)" using n1 by (auto simp: read_now_def)
  show ?case
  proof (cases "t < si_timestamp it")
    case True
    then have s': "s' = on_sched (\<lambda>sc. sc\<lparr>sc_suspend := it # items\<rparr>) s1" using Cons.prems(2) n1 by simp
    have "\<forall>it'\<in>set (it # items). si_timestamp it \<le> si_timestamp it'" using Cons.prems(1) by simp
    with True show ?thesis using t unfolding s' by (auto dest: less_le_trans)
  next
    case False
    obtain t' s2 where n2: "read_now E (on_sched (\<lambda>sc. sc\<lparr>sc_suspend := items\<rparr>) s1) = (t', s2)"
      by fastforce
    obtain r1 co th where rd: "co_ready (se_lsn E) t' (si_coroutine it) (ss_thread s2) = (r1, co, th)"
      by (metis prod_cases3)
    have "r1 = Ok ()" using Cons.prems(2) n1 n2 rd False by (cases r1) auto
    then obtain s3 where push: "ready_push E co (s2\<lparr>ss_thread := th\<rparr>) = Some s3"
      and rec: "check_suspend E items s3 = (Ok (), s')"
      using Cons.prems(2) n1 n2 rd False by (auto split: option.splits)
    have r3: "ss_reads s3 = Suc (Suc (ss_reads s))"
      using push n2 t(2) by (auto simp: ready_push_def read_now_def)
    have IH: "\<forall>it\<in>set (sc_suspend (ss_sched s')). se_clock E (ss_reads s3) < si_timestamp it"
      "\<forall>it\<in>set items. se_clock E (ss_reads s') < si_timestamp it \<longrightarrow> it \<in> set (sc_suspend (ss_sched s'))"
      "ss_reads s3 \<le> ss_reads s'"
      using Cons.IH [OF _ rec] Cons.prems(1) by simp_all
    have c: "se_clock E (ss_reads s) \<le> se_clock E (ss_reads s3)" "se_clock E (ss_reads s) \<le> se_clock E (ss_reads s')"
      using IH(3) r3 by (auto intro!: monoD [OF clock])
    have "\<not> se_clock E (ss_reads s') < si_timestamp it"
      using False c(2) t(1) by (meson not_less order.trans less_le_trans order.strict_implies_order le_less_trans)
    with IH c(1) r3 show ?thesis by (auto intro: le_less_trans)
  qed
qed auto

lemma check_syscall_suspend_frame:
  "check_syscall_suspend E items s = (r, s') \<Longrightarrow>
     sc_suspend (ss_sched s') = sc_suspend (ss_sched s) \<and> ss_reads s \<le> ss_reads s'"
proof (induction items arbitrary: s)
  case (Cons it items)
  obtain t s1 where n1: "read_now E s = (t, s1)" by fastforce
  then have "ss_reads s1 = Suc (ss_reads s)" "ss_sched s1 = ss_sched s" by (auto simp: read_now_def)
  moreover have "\<And>co a b. ready_push E co a = Some b \<Longrightarrow>
      sc_suspend (ss_sched b) = sc_suspend (ss_sched a) \<and> ss_reads b = ss_reads a"
    by (auto simp: ready_push_def)
  ultimately show ?case
    using Cons.prems n1
    by (fastforce simp: Let_def dest: Cons.IH split: if_splits option.splits coroutine_state.splits
        syscall_state.splits prod.splits rust.splits)
qed auto

lemma check_ready_wakes:
  assumes "inv s" and "check_ready E s = (Ok (), s')"
  shows "(\<forall>it\<in>set (sc_suspend (ss_sched s')). se_clock E (ss_reads s) < si_timestamp it)
    \<and> (\<forall>it\<in>set (sc_suspend (ss_sched s)). se_clock E (ss_reads s') < si_timestamp it \<longrightarrow> it \<in> set (sc_suspend (ss_sched s')))"
proof -
  obtain r1 s1 where c1: "check_suspend E (sc_suspend (ss_sched s)) s = (r1, s1)" by fastforce
  with assms(2) have "r1 = Ok ()" and c2: "check_syscall_suspend E (sc_syscall_suspend (ss_sched s1)) s1 = (Ok (), s')"
    by (cases r1; auto simp: check_ready_def)+
  have so: "sorted (map si_timestamp (sc_suspend (ss_sched s)))"
    using assms(1) by (simp add: sched_inv_def suspend_ok_def)
  note w = check_suspend_wakes [OF so c1 [unfolded \<open>r1 = Ok ()\<close>]]
  note f = check_syscall_suspend_frame [OF c2]
  have "se_clock E (ss_reads s1) \<le> se_clock E (ss_reads s')" using f by (intro monoD [OF clock]) simp
  with w f show ?thesis by (auto dest: le_less_trans)
qed

end

section \<open>The loop returns\<close>

lemma raw_resume_returns: "raw_resume lsn seg zero t arg co th = ((r, co', th'), xs) \<Longrightarrow> r \<noteq> Hang"
proof -
  assume raw: "raw_resume lsn seg zero t arg co th = ((r, co', th'), xs)"
  obtain sw co1 th1 xs1 where inner: "inner_resume lsn seg zero t arg co th = (sw, co1, th1, xs1)"
    by (metis prod_cases4)
  have sw: "sw = Returned out \<Longrightarrow> (\<exists>v. out = Ok v) \<or> (\<exists>m. out = Err m)" for out
  proof -
    assume "sw = Returned out"
    moreover obtain acts e k where "seg arg (co_inner co) = (acts, e, k)" by (metis prod_cases3)
    ultimately show ?thesis using inner_resume_stacks(5) [OF inner] by (cases e) auto
  qed
  have fr: "from_running lsn new ev co1 th2 = (r2, co2, th3) \<Longrightarrow> r2 = Ok () \<or> (\<exists>e. r2 = Err e)"
    for new ev th2 r2 co2 th3
    by (cases "co_state co1") (auto simp: from_running_def change_state_def Let_def)
  show ?thesis
  proof (cases sw)
    case (Yield y)
    with raw inner show ?thesis
      by (cases "co_state co1")
        (auto simp: raw_resume_def transition_defs split: prod.splits bool.splits dest!: fr)
  next
    case (Returned out)
    with raw inner sw show ?thesis
      by (auto simp: raw_resume_def transition_defs split: prod.splits dest!: fr)
  qed
qed

lemma resume_returns: "resume_with lsn seg zero t arg co th = ((r, co', th'), xs) \<Longrightarrow> r \<noteq> Hang"
proof -
  assume res: "resume_with lsn seg zero t arg co th = ((r, co', th'), xs)"
  obtain r1 co1 th1 where run: "co_running lsn t co (init_current_co (co_id co) th) = (r1, co1, th1)"
    by (metis prod_cases3)
  have "r1 \<noteq> Hang" using co_running_runnable [OF run] by auto
  with res run show ?thesis
    by (cases "co_state co"; cases r1)
      (auto simp: resume_with_def dest: raw_resume_returns split: prod.splits)
qed

text \<open>
  What the loop needs in order to return: a state of the ready queue in which both operations
  return, and that they keep.
\<close>

locale responsive =
  fixes RQ :: "('c, 'q) ready_ops" and rq_live :: "'q \<Rightarrow> bool"
  assumes push_returns: "rq_live q \<Longrightarrow> \<exists>q'. rq_push RQ c q = Some q' \<and> rq_live q'"
    and pop_returns: "rq_live q \<Longrightarrow> \<exists>r q'. rq_pop RQ q = Some (r, q') \<and> rq_live q'"

sublocale deques \<subseteq> olq: responsive "olq_ready W J prio random" "sole items"
proof (unfold_locales, goal_cases)
  case (1 q c)
  with sole_push [of "fst q" "snd q"] show ?case
    by (cases q) (auto simp: olq_ready_def olq_push_def)
next
  case (2 q)
  with sole_pop [of "fst q" "snd q" "random (snd q)"] show ?case
    by (cases q) (auto simp: olq_ready_def)
qed

locale responsive_scheduler = responsive "se_rq E" rq_live
  for E :: "('k, 'l, 'q, 'w) sched_env" and rq_live
begin

abbreviation live :: "('k, 'l, 'q, 'w) sched_sys \<Rightarrow> bool" where
  "live s \<equiv> rq_live (sc_ready (ss_sched s))"

lemma ready_push_returns:
  "live s \<Longrightarrow> \<exists>s'. ready_push E co s = Some s' \<and> ss_reads s' = ss_reads s \<and> live s'"
  using push_returns [of "sc_ready (ss_sched s)" co] by (auto simp: ready_push_def)

lemma check_suspend_returns:
  "check_suspend E items s = (r, s') \<Longrightarrow> live s \<Longrightarrow> r \<noteq> Hang \<and> ss_reads s \<le> ss_reads s' \<and> live s'"
proof (induction items arbitrary: s)
  case (Cons it items)
  obtain t s1 where n1: "read_now E s = (t, s1)" by fastforce
  obtain t' s2 where n2: "read_now E (on_sched (\<lambda>sc. sc\<lparr>sc_suspend := items\<rparr>) s1) = (t', s2)" by fastforce
  have rd: "ss_reads s1 = Suc (ss_reads s)" "ss_reads s2 = Suc (Suc (ss_reads s))" "live s1" "live s2"
    using n1 n2 Cons.prems(2) by (auto simp: read_now_def)
  obtain r1 co th where cr: "co_ready (se_lsn E) t' (si_coroutine it) (ss_thread s2) = (r1, co, th)"
    by (metis prod_cases3)
  obtain s3 where push: "ready_push E co (s2\<lparr>ss_thread := th\<rparr>) = Some s3" "ss_reads s3 = ss_reads s2" "live s3"
    using ready_push_returns [of "s2\<lparr>ss_thread := th\<rparr>" co] rd(4) by auto
  have "r1 \<noteq> Hang" using co_ready_ok [of "se_lsn E" "si_coroutine it" "ss_thread s2" t'] cr
    by (auto simp: co_op_ok_def)
  with Cons.prems(1) n1 n2 cr push rd Cons.IH [of s3] show ?case
    by (cases r1) (auto split: if_splits)
qed auto

lemma check_syscall_suspend_returns:
  "check_syscall_suspend E items s = (r, s') \<Longrightarrow> live s \<Longrightarrow> r \<noteq> Hang \<and> ss_reads s \<le> ss_reads s' \<and> live s'"
proof (induction items arbitrary: s)
  case (Cons it items)
  obtain t s1 where n1: "read_now E s = (t, s1)" by fastforce
  have rd: "ss_reads s1 = Suc (ss_reads s)" "live s1" using n1 Cons.prems(2) by (auto simp: read_now_def)
  define s2 where "s2 = on_sched (\<lambda>sc. sc\<lparr>sc_syscall_suspend := items\<rparr>) s1"
  have l2: "live s2" using rd by (simp add: s2_def)
  show ?case
  proof (cases "t < ssi_timestamp it \<or> map_of (sc_syscall (ss_sched s2)) (ssi_co_id it) = None")
    case True
    with Cons.prems n1 rd Cons.IH [of s2] show ?thesis by (auto simp: s2_def split: if_splits)
  next
    case False
    then obtain co where co: "map_of (sc_syscall (ss_sched s2)) (ssi_co_id it) = Some co" by blast
    define s3 where "s3 = on_sched (\<lambda>sc. sc\<lparr>sc_syscall := AList.delete (ssi_co_id it) (sc_syscall sc)\<rparr>) s2"
    have l3: "live s3" using l2 by (simp add: s3_def)
    show ?thesis
    proof (cases "\<exists>n ts. co_state co = Cs_Syscall () n (Ss_Suspend ts)")
      case True
      then obtain n ts where st: "co_state co = Cs_Syscall () n (Ss_Suspend ts)" by blast
      obtain r1 co' th where sy: "co_syscall (se_lsn E) () n Ss_Timeout co (ss_thread s3) = (r1, co', th)"
        by (metis prod_cases3)
      have "r1 \<noteq> Hang" using co_syscall_ok [of "se_lsn E" co "ss_thread s3" "()" n Ss_Timeout] sy
        by (auto simp: co_op_ok_def)
      moreover obtain s4 where push: "ready_push E co' (s3\<lparr>ss_thread := th\<rparr>) = Some s4"
        "ss_reads s4 = ss_reads s1" "live s4"
        using ready_push_returns [of "s3\<lparr>ss_thread := th\<rparr>" co'] l3 by (auto simp: s3_def s2_def)
      ultimately show ?thesis
        using Cons.prems n1 False co st sy rd l3 Cons.IH [of s4]
        by (cases r1) (auto simp: s2_def s3_def)
    next
      case F: False
      then have "r = Panic ''check_ready should never execute to here'' \<and> s' = s3"
        using Cons.prems n1 False co
        by (cases "co_state co") (auto simp: s2_def s3_def Let_def split: syscall_state.splits)
      with rd l3 show ?thesis by (simp add: s3_def s2_def)
    qed
  qed
qed auto

lemma check_ready_returns:
  assumes "check_ready E s = (r, s')" and "live s"
  shows "r \<noteq> Hang \<and> ss_reads s \<le> ss_reads s' \<and> live s'"
proof -
  obtain r1 s1 where c1: "check_suspend E (sc_suspend (ss_sched s)) s = (r1, s1)" by fastforce
  note l1 = check_suspend_returns [OF c1 assms(2)]
  show ?thesis
  proof (cases "r1 = Ok ()")
    case True
    with c1 assms(1) have "check_syscall_suspend E (sc_syscall_suspend (ss_sched s1)) s1 = (r, s')"
      by (simp add: check_ready_def)
    from check_syscall_suspend_returns [OF this] l1 show ?thesis by auto
  next
    case False
    with c1 assms(1) l1 show ?thesis by (cases r1) (auto simp: check_ready_def)
  qed
qed

lemma apply_ext_returns:
  "live s \<Longrightarrow> \<exists>s'. apply_ext E xs s = Some s' \<and> ss_reads s' = ss_reads s \<and> live s'"
proof (induction xs arbitrary: s)
  case (Cons x xs)
  show ?case
  proof (cases x)
    case (X_submit co)
    obtain s1 where "ready_push E (fold add_listener (sc_listeners (ss_sched s)) co) s = Some s1"
      "ss_reads s1 = ss_reads s" "live s1" using ready_push_returns [OF Cons.prems] by blast
    with Cons.IH [of s1] X_submit show ?thesis by (simp add: submit_raw_co_def Let_def)
  next
    case (X_cancel i)
    with Cons.IH [of "try_cancel_coroutine i s"] Cons.prems show ?thesis by (simp add: try_cancel_coroutine_def)
  qed
qed simp

lemma dispatch_returns:
  assumes d: "dispatch E co st results s = (r, s')" and "live s"
  shows "r \<noteq> Hang \<and> ss_reads s \<le> ss_reads s' \<and> live s'"
proof -
  obtain t s1 where n1: "read_now E s = (t, s1)" by fastforce
  then have rd: "ss_reads s1 = Suc (ss_reads s)" "live s1" using assms(2) by (auto simp: read_now_def)
  obtain s2 where "ready_push E co s1 = Some s2" "ss_reads s2 = ss_reads s1" "live s2"
    using ready_push_returns [OF rd(2)] by blast
  with d n1 rd assms(2) show ?thesis
    by (cases st) (auto simp: dispatch_def Let_def split: if_splits syscall_state.splits)
qed

lemma resume_popped_returns:
  assumes "resume_popped E co results s = (r, s')" and "live s"
  shows "r \<noteq> Hang \<and> ss_reads s \<le> ss_reads s' \<and> live s'"
proof (cases "co_id co \<in> ss_cancel s")
  case True
  with assms show ?thesis by (auto simp: resume_popped_def)
next
  case False
  define s0 where "s0 = s\<lparr>ss_running := AList.update (co_id co) (se_self E) (ss_running s)\<rparr>"
  obtain t s1 where n1: "read_now E s0 = (t, s1)" by fastforce
  have rd: "ss_reads s1 = Suc (ss_reads s)" "live s1" using n1 assms(2) by (auto simp: read_now_def s0_def)
  obtain r1 co' th xs where res:
    "resume_with (se_lsn E) (se_seg E) () t () co (ss_thread s1) = ((r1, co', th), xs)"
    by (metis prod.exhaust_sel)
  obtain s2 where ext: "apply_ext E xs (s1\<lparr>ss_thread := th\<rparr>) = Some s2" "ss_reads s2 = ss_reads s1" "live s2"
    using apply_ext_returns [of "s1\<lparr>ss_thread := th\<rparr>" xs] rd(2) by auto
  define s3 where "s3 = s2\<lparr>ss_running := AList.delete (co_id co) (ss_running s2)\<rparr>"
  have "ss_reads s3 = Suc (ss_reads s)" "live s3" using ext rd by (simp_all add: s3_def)
  note facts = assms(1) False n1 res ext rd this resume_returns [OF res]
  show ?thesis
  proof (cases r1)
    case (Ok st)
    with facts have "dispatch E co' st results s3 = (r, s')" by (simp add: resume_popped_def s0_def s3_def)
    from dispatch_returns [OF this] facts show ?thesis by simp
  qed (use facts in \<open>auto simp: resume_popped_def s0_def\<close>)
qed

text \<open>Each turn reads the clock, so the loop returns once the clock has passed the deadline.\<close>

lemma do_schedule_returns:
  assumes late: "\<forall>n\<ge>N. timeout_time \<le> se_clock E n"
  shows "0 < fuel \<Longrightarrow> N < ss_reads s + fuel \<Longrightarrow> live s \<Longrightarrow>
    fst (do_schedule E fuel timeout_time results s) \<noteq> Hang"
proof (induction fuel arbitrary: results s)
  case (Suc fuel)
  obtain t s1 where n1: "read_now E s = (t, s1)" by fastforce
  have t: "t = se_clock E (ss_reads s)" "ss_reads s1 = Suc (ss_reads s)" "live s1"
    using n1 Suc.prems(3) by (auto simp: read_now_def)
  show ?case
  proof (cases "timeout_time \<le> t")
    case True
    with n1 show ?thesis by simp
  next
    case False
    with late t(1) have "\<not> N \<le> ss_reads s" by blast
    with Suc.prems have fuel: "0 < fuel" by simp
    obtain rc s2 where cr: "check_ready E s1 = (rc, s2)" by fastforce
    note r2 = check_ready_returns [OF cr t(3)]
    obtain p q where pop: "rq_pop (se_rq E) (sc_ready (ss_sched s2)) = Some (p, q)" "rq_live q"
      using pop_returns r2 by blast
    define s3 where "s3 = on_sched (\<lambda>sc. sc\<lparr>sc_ready := q\<rparr>) s2"
    have rd: "Suc (ss_reads s) \<le> ss_reads s3" "live s3" using r2 t(2) pop by (simp_all add: s3_def)
    show ?thesis
    proof (cases "rc = Ok () \<and> p \<noteq> None")
      case False2: False
      with False n1 cr r2 pop show ?thesis by (cases rc) auto
    next
      case True
      then obtain co where p: "p = Some co" and ok: "rc = Ok ()" by blast
      obtain r3 s4 where rp: "resume_popped E co results s3 = (r3, s4)" by fastforce
      note r4 = resume_popped_returns [OF rp rd(2)]
      have "\<And>results'. fst (do_schedule E fuel timeout_time results' s4) \<noteq> Hang"
        using Suc.IH [of s4] fuel Suc.prems(2) rd r4 by simp
      with False n1 cr ok pop p rp r4 show ?thesis by (cases r3) (auto simp: s3_def)
    qed
  qed
qed simp

end

section \<open>A scheduler to run\<close>

text \<open>
  One coroutine that waits in a \<open>recv\<close> with deadline 100, then in a \<open>send\<close> with deadline 1000,
  then returns, beside others that only return; on an ordered work-stealing queue; with a clock that reads 10 at first, then 120,
  then 2000.
\<close>

fun two_waits :: "unit \<Rightarrow> nat \<Rightarrow> (unit, (nat, nat) sched_ext) co_action list \<times> (unit, nat option) seg_end \<times> nat" where
  "two_waits p k =
     (if k = 0 then ([A_syscall () Sn_recv (Ss_Suspend 100)], E_until () 100, 1)
      else if k = 1 then ([A_syscall () Sn_recv Ss_Executing, A_running, A_syscall () Sn_send (Ss_Suspend 1000)],
        E_until () 1000, 2)
      else if k = 2 then ([A_syscall () Sn_send Ss_Executing, A_running], E_return (Some 7), 3)
      else ([], E_return None, k))"

definition two_waits_good :: "nat \<Rightarrow> sco_state \<Rightarrow> bool" where
  "two_waits_good k st \<longleftrightarrow>
     (if k = 0 then st = Cs_Ready
      else if k = 1 then st = Cs_Syscall () Sn_recv Ss_Callback \<or> st = Cs_Syscall () Sn_recv Ss_Timeout
      else if k = 2 then st = Cs_Syscall () Sn_send Ss_Callback \<or> st = Cs_Syscall () Sn_send Ss_Timeout
      else st = Cs_Ready \<or> (\<exists>ts. st = Cs_Suspend () ts))"

type_synonym demo_queue =
  "(nat \<times> (nat, nat) sco list, (nat, nat) sco list) owsq \<times> olq"

definition demo_clock :: "nat \<Rightarrow> u64" where
  "demo_clock n = (if n < 10 then 10 else if n < 40 then 120 else 2000)"

definition demo_env :: "(nat, nat, demo_queue, unit) sched_env" where
  "demo_env =
     \<lparr>se_rq = olq_ready fifo_worker fifo_injector co_priority (\<lambda>h. 0), se_lsn = (\<lambda>l ev w. (w, False)),
      se_seg = two_waits, se_clock = demo_clock, se_self = 1\<rparr>"

definition demo_co :: "(nat, nat) sco" where
  "demo_co = \<lparr>co_id = 9, co_name = ''co'', co_inner = 0, co_state = Cs_Ready, co_stack_infos = [],
     co_listeners = [], co_priority = None\<rparr>"

definition demo_sys ::
  "(nat, nat) sco list \<Rightarrow> u32 \<Rightarrow> (nat, nat) sco list \<Rightarrow> u64 list \<Rightarrow> u64 list \<Rightarrow> nat
    \<Rightarrow> (nat, nat, demo_queue, unit) sched_sys" where
  "demo_sys ready tick waiting deadlines notes reads =
     \<lparr>ss_sched =
        (sched_new ''sched'' 0
          (\<lparr>os_shared_queue = [], os_len = 0, os_local_capacity = 4,
            os_local_queues = [[(0, 4, ready)]], os_index = 0\<rparr>,
           \<lparr>ol_tick = tick, ol_stealing = False, ol_queue = 0, ol_len = length ready\<rparr>))
        \<lparr>sc_syscall := map (\<lambda>co. (co_id co, co)) waiting,
         sc_syscall_suspend := map (\<lambda>ts. \<lparr>ssi_timestamp = ts, ssi_co_id = 9\<rparr>) deadlines\<rparr>,
      ss_running = [], ss_cancel = {}, ss_current = [],
      ss_thread = \<lparr>th_coroutine = [], th_suspender = [], th_timestamp = notes, th_cancel = [], th_world = ()\<rparr>,
      ss_reads = reads\<rparr>"

definition demo_at :: "nat \<Rightarrow> sco_state \<Rightarrow> (nat, nat) sco" where
  "demo_at k st = demo_co\<lparr>co_inner := k, co_state := st\<rparr>"

lemma demo_first:
  "try_timeout_schedule demo_env 10 50 (demo_sys [demo_co] 0 [] [] [] 0) =
     (Ok (40, []), demo_sys [] 2 [demo_at 1 (Cs_Syscall () Sn_recv (Ss_Suspend 100))] [100] [100] 4)"
  by code_simp

lemma demo_resume:
  "try_resume demo_env 9 (demo_sys [] 2 [demo_at 1 (Cs_Syscall () Sn_recv (Ss_Suspend 100))] [100] [100] 4) =
     Ok (demo_sys [demo_at 1 (Cs_Syscall () Sn_recv Ss_Callback)] 2 [] [100] [100] 4)"
  by code_simp

lemma demo_second:
  "try_timeout_schedule demo_env 10 50 (demo_sys [demo_at 1 (Cs_Syscall () Sn_recv Ss_Callback)] 2 [] [100] [100] 4) =
     (Ok (40, []), demo_sys [] 4 [demo_at 2 (Cs_Syscall () Sn_send (Ss_Suspend 1000))] [100, 1000] [1000, 100] 9)"
  by code_simp

lemma demo_third:
  "try_timeout_schedule demo_env 10 500
      (demo_sys [] 4 [demo_at 2 (Cs_Syscall () Sn_send (Ss_Suspend 1000))] [100, 1000] [1000, 100] 9) =
     (Ok (380, [(9, Ok (Some 7))]), demo_sys [] 6 [] [1000] [1000, 100] 15)"
  by code_simp

section \<open>The scheduler on the ordered work-stealing queue\<close>

text \<open>
  What the code builds: the ready queue is a handle of the ordered work-stealing queue, over
  containers that keep their contracts.
\<close>

context deques
begin

lemmas as_ready_queue = olq.ready_queue_axioms
lemmas as_responsive = olq.responsive_axioms

end

lemma olq_scheduling:
  assumes "deques W items J jitems retries" and "se_rq E = olq_ready W J prio random"
    and "cooperative (se_seg E) good subm" and "mono (se_clock E)"
  shows "scheduling E (olq_inv jitems) (olq_items items jitems) good subm"
  using deques.as_ready_queue [OF assms(1), of prio random] assms(2-4)
  by (intro scheduling.intro scheduling_axioms.intro) simp_all

lemma olq_responsive:
  assumes "deques W items J jitems retries" and "se_rq E = olq_ready W J prio random"
  shows "responsive_scheduler E (sole items)"
  using deques.as_responsive [OF assms(1), of prio random] assms(2)
  by (intro responsive_scheduler.intro) simp

lemma two_waits_cooperative: "cooperative two_waits two_waits_good 0"
  by (auto simp: cooperative_def two_waits_good_def ends_ok_def resumed_state_def is_pending_def submits_def
      split: if_splits)

lemma mono_demo_clock: "mono demo_clock"
  by (auto simp: mono_def demo_clock_def)

lemma demo_env_sel [simp]: "se_rq demo_env = olq_ready fifo_worker fifo_injector co_priority (\<lambda>h. 0)"
  "se_seg demo_env = two_waits" "se_clock demo_env = demo_clock"
  by (simp_all add: demo_env_def)

interpretation demo: scheduling demo_env "olq_inv (\<lambda>xs. xs)" "olq_items fifo_items (\<lambda>xs. xs)" two_waits_good 0
  by (rule olq_scheduling [OF fifo.deques_axioms]) (simp_all add: two_waits_cooperative mono_demo_clock)

interpretation demo: responsive_scheduler demo_env "sole fifo_items"
  by (rule olq_responsive [OF fifo.deques_axioms]) simp

lemma demo_sys_sel [simp]:
  "sc_suspend (ss_sched (demo_sys a b c d e n)) = []" "ss_reads (demo_sys a b c d e n) = n"
  "sc_syscall (ss_sched (demo_sys a b [] d e n)) = []" "ss_cancel (demo_sys a b c d e n) = {}"
  by (simp_all add: demo_sys_def sched_new_def)

lemma demo_items:
  "olq_items fifo_items (\<lambda>xs. xs) (sc_ready (ss_sched (demo_sys [co] b c d e n))) = {#co#}"
  "olq_items fifo_items (\<lambda>xs. xs) (sc_ready (ss_sched (demo_sys [] b c d e n))) = {#}"
  by (simp_all add: demo_sys_def sched_new_def olq_items_def owsq_bag_def
      shared_entries_def locals_bag_def sk_entries_def fifo_items_def)

lemma demo_queue_ok:
  "length cos \<le> 4 \<Longrightarrow> olq_inv (\<lambda>xs. xs) (sc_ready (ss_sched (demo_sys cos b c d e n)))"
  "length cos \<le> 4 \<Longrightarrow> sole fifo_items (sc_ready (ss_sched (demo_sys cos b c d e n)))"
  by (auto simp: demo_sys_def sched_new_def olq_inv_def owsq_ok_def owsq_wf_def owsq_len_ok_def
      shared_entries_def sk_wf_def sole_def sk_entries_def fifo_items_def)

lemma demo_sys_inv:
  assumes "co = demo_co \<or> co = demo_at 1 (Cs_Syscall () Sn_recv Ss_Callback)"
  shows "sched_inv demo_env (olq_inv (\<lambda>xs. xs)) (olq_items fifo_items (\<lambda>xs. xs)) two_waits_good
    (demo_sys [co] b [] d e n)"
  unfolding sched_inv_def
  using demo_queue_ok(1) [of "[co]" b "[]" d e n] assms
  by (auto simp: demo_items suspend_ok_def syscall_ok_def ready_co_def two_waits_good_def
      demo_co_def demo_at_def is_pending_def)

section \<open>Properties\<close>

text \<open>
  C10. Safety. With cooperative bodies and a clock that does not run backwards, a run of the
  scheduler from a well-formed state ends well-formed: every coroutine in the ready queue can be
  resumed, every suspended one is in the state \<open>Suspend\<close> with the time stamp it is filed under,
  every one in the syscall table waits in a syscall with a deadline under its own id. It never
  answers an error, none of its \<open>unreachable!\<close> arms is reached, and the one panic it can end in
  is the assertion that no two coroutines with the same id leave a result.
\<close>

theorem scheduler_safe:
  assumes "deques W items J jitems retries" and "se_rq E = olq_ready W J prio random"
    and "cooperative (se_seg E) good subm" and "mono (se_clock E)"
    and "sched_inv E (olq_inv jitems) (olq_items items jitems) good s"
    and "size (sched_ids (olq_items items jitems) s) + fuel * subm < usize_max"
    and "try_timeout_schedule E fuel timeout_time s = (r, s')"
  shows "r = Hang \<or> r = Panic ''not consume result''
    \<or> (\<exists>v. r = Ok v \<and> sched_inv E (olq_inv jitems) (olq_items items jitems) good s')"
proof -
  define s0 where "s0 = s\<lparr>ss_current := sc_name (ss_sched s) # ss_current s\<rparr>"
  obtain s1 where d: "do_schedule E fuel timeout_time [] s0 = (r, s1)" and s': "s' = s1\<lparr>ss_current := tl (ss_current s1)\<rparr>"
    using assms(7) by (auto simp: try_timeout_schedule_def s0_def split: prod.splits)
  have "sched_inv E (olq_inv jitems) (olq_items items jitems) good s0"
    "sched_ids (olq_items items jitems) s0 = sched_ids (olq_items items jitems) s"
    using assms(5) by (simp_all add: s0_def sched_inv_def sched_ids_def)
  with scheduling.do_schedule_law [OF olq_scheduling [OF assms(1-4)] _ _ d] assms(6)
  show ?thesis by (auto simp: s' sched_inv_def)
qed

theorem scheduler_safe_witness:
  "\<exists>s'. try_timeout_schedule demo_env 10 50 (demo_sys [demo_co] 0 [] [] [] 0) = (Ok (40, []), s')
     \<and> sched_inv demo_env (olq_inv (\<lambda>xs. xs)) (olq_items fifo_items (\<lambda>xs. xs)) two_waits_good s'"
  using scheduler_safe [OF fifo.deques_axioms demo_env_sel(1) _ _ demo_sys_inv _ demo_first, of 0]
  by (simp add: demo_first two_waits_cooperative mono_demo_clock sched_ids_def demo_items usize_max_def)


lemma demo_turn:
  "resume_popped demo_env demo_co [] (demo_sys [] 1 [] [] [] 3) =
     (Ok [], demo_sys [] 1 [demo_at 1 (Cs_Syscall () Sn_recv (Ss_Suspend 100))] [100] [100] 4)"
  by code_simp



definition demo_sleeping :: "(nat, nat, demo_queue, unit) sched_sys" where
  "demo_sleeping = on_sched (\<lambda>sc. sc\<lparr>sc_suspend := map (\<lambda>ts. \<lparr>si_timestamp = ts,
     si_coroutine = demo_at 3 (Cs_Suspend () ts)\<rparr>) [5, 60]\<rparr>) (demo_sys [] 0 [] [] [] 0)"

lemma demo_wakes: "check_ready demo_env demo_sleeping = (Ok (), snd (check_ready demo_env demo_sleeping))"
  "map si_timestamp (sc_suspend (ss_sched (snd (check_ready demo_env demo_sleeping)))) = [60]"
  by code_simp+




text \<open>
  A deadline outlives its wait. The heap \<open>syscall_suspend\<close> keeps the deadline of a syscall
  that an event ended early, and \<open>check_ready\<close> applies it to whatever syscall the same coroutine
  waits in by then: this coroutine is woken from a \<open>recv\<close> with deadline 100, waits in a
  \<open>send\<close> until 1000, and is timed out of it at 120; it has finished before 1000.
\<close>

lemma premature_timeout:
  "\<exists>s1 s2 s3. try_timeout_schedule demo_env 10 50 (demo_sys [demo_co] 0 [] [] [] 0) = (Ok (40, []), s1)
     \<and> try_resume demo_env 9 s1 = Ok s2
     \<and> try_timeout_schedule demo_env 10 50 s2 = (Ok (40, []), s3)
     \<and> map_option co_state (map_of (sc_syscall (ss_sched s3)) 9) = Some (Cs_Syscall () Sn_send (Ss_Suspend 1000))
     \<and> (\<exists>s4. try_timeout_schedule demo_env 10 500 s3 = (Ok (380, [(9, Ok (Some 7))]), s4)
          \<and> demo_clock (ss_reads s4) = 120)"
proof -
  have "map_option co_state (map_of (sc_syscall (ss_sched
      (demo_sys [] 4 [demo_at 2 (Cs_Syscall () Sn_send (Ss_Suspend 1000))] [100, 1000] [1000, 100] 9))) 9)
      = Some (Cs_Syscall () Sn_send (Ss_Suspend 1000))"
    by (simp add: demo_sys_def demo_at_def demo_co_def sched_new_def)
  moreover have "demo_clock 15 = 120" by (simp add: demo_clock_def)
  ultimately show ?thesis using demo_first demo_resume demo_second demo_third demo_sys_sel(2) by metis
qed

end
