(* ===== verification/OC_Co_Pool.thy ===== *)
theory OC_Co_Pool
  imports OC_Scheduler
begin

text \<open>
  \<^verbatim>\<open>core/src/co_pool\<close>: tasks (\<open>task.rs\<close>), the pool's life cycle (\<open>state.rs\<close>), the listener that
  keeps workers alive (\<open>creator.rs\<close>) and the pool itself (\<open>mod.rs\<close>).

  The pool is a client of a task queue, which it takes as a record of operations with the
  contract of the locale \<open>ready_queue\<close>. Its workers are coroutines; the model keeps for each
  live worker its id, which body it runs and the tasks it is in the middle of. A task may be
  suspended anywhere, so taking a task from the queue and delivering its result are two
  operations, and \<open>try_run\<close> is their composition. The step relation of the last part interleaves
  all operations of all threads; the scheduler of the workers chooses among its steps.
\<close>

section \<open>Tasks\<close>

record 'f task =
  tk_id :: u64
  tk_name :: string
  tk_func :: 'f
  tk_param :: "nat option"
  tk_priority :: "int option"

definition task_new ::
  "(string \<Rightarrow> u64) \<Rightarrow> string \<Rightarrow> 'f \<Rightarrow> nat option \<Rightarrow> int option \<Rightarrow> 'f task" where
  "task_new hash name func param priority =
     \<lparr>tk_id = hash name, tk_name = name, tk_func = func, tk_param = param, tk_priority = priority\<rparr>"

text \<open>
  How a call of user code ends: with a value, or with a panic whose payload is a static string
  (\<open>Some m\<close>) or anything else (\<open>None\<close>). \<open>catch!\<close> keeps the message of the former only.
\<close>

datatype 'a call_end = C_value 'a | C_panic "string option"

type_synonym task_result = "(string, nat option) rust"

fun catch_call :: "'a call_end \<Rightarrow> string \<Rightarrow> (string, 'a) rust" where
  "catch_call (C_value v) msg = Ok v"
| "catch_call (C_panic (Some m)) msg = Err m"
| "catch_call (C_panic None) msg = Err msg"

definition task_run ::
  "('f \<Rightarrow> nat option \<Rightarrow> nat option call_end) \<Rightarrow> 'f task \<Rightarrow> string \<times> task_result" where
  "task_run call t =
     (tk_name t,
      catch_call (call (tk_func t) (tk_param t)) (''task '' @ tk_name t @ '' failed without message''))"

section \<open>The pool\<close>

record 'q task_ops =
  tq_is_local_empty :: "'q \<Rightarrow> bool"
  tq_is_global_empty :: "'q \<Rightarrow> bool"
  tq_len :: "'q \<Rightarrow> nat"

record 'q pool =
  cp_name :: string
  cp_state :: pool_state
  cp_task_queue :: 'q
  cp_running :: nat
  cp_pop_fail_times :: nat
  cp_min_size :: nat
  cp_max_size :: nat
  cp_keep_alive_time :: u64
  cp_blocker :: bool
  cp_waits :: "(u64 \<times> nat) list"
  cp_results :: "(u64 \<times> task_result) list"
  cp_no_waits :: "u64 set"

text \<open>A worker: the loop of \<open>try_grow\<close> or a coroutine the user submitted, and the tasks it is in.\<close>

datatype worker_body = WB_loop u64 | WB_user

record 'f pool_worker =
  pw_body :: worker_body
  pw_tasks :: "'f task list"

text \<open>
  The system around the pool: its workers, the process-wide \<open>RUNNING_TASKS\<close> and \<open>CANCEL_TASKS\<close>,
  the scheduler's \<open>CANCEL_COROUTINES\<close> and \<open>RUNNING_COROUTINES\<close>, the threads that were sent a signal, the flags \<open>pending\<close> behind the handles in \<open>waits\<close>,
  the thread-local stack of current pools, how often the clock was read and how many names and
  coroutines were made.
\<close>

record ('f, 'q) pool_sys =
  ps_pool :: "'q pool"
  ps_workers :: "(u64 \<times> 'f pool_worker) list"
  ps_running_tasks :: "(u64 \<times> u64) list"
  ps_cancel_tasks :: "u64 set"
  ps_cancel_cos :: "u64 set"
  ps_running_cos :: "(u64 \<times> nat) list"
  ps_signals :: "nat list"
  ps_arcs :: "bool list"
  ps_current :: "string list"
  ps_reads :: nat
  ps_uuids :: nat
  ps_spawns :: nat

record ('f, 'q) pool_env =
  pe_tq :: "('f task, 'q) ready_ops"
  pe_tq_size :: "'q task_ops"
  pe_call :: "'f \<Rightarrow> nat option \<Rightarrow> nat option call_end"
  pe_clock :: "nat \<Rightarrow> u64"
  pe_hash :: "string \<Rightarrow> u64"
  pe_uuid :: "nat \<Rightarrow> string"
  pe_spawn :: "nat \<Rightarrow> u64 option"
  pe_kill :: "nat \<Rightarrow> bool"

abbreviation on_pool :: "('q pool \<Rightarrow> 'q pool) \<Rightarrow> ('f, 'q) pool_sys \<Rightarrow> ('f, 'q) pool_sys" where
  "on_pool f s \<equiv> s\<lparr>ps_pool := f (ps_pool s)\<rparr>"

definition pool_now :: "('f, 'q) pool_env \<Rightarrow> ('f, 'q) pool_sys \<Rightarrow> u64 \<times> ('f, 'q) pool_sys" where
  "pool_now E s = (pe_clock E (ps_reads s), s\<lparr>ps_reads := Suc (ps_reads s)\<rparr>)"

definition pool_new :: "string \<Rightarrow> 'q \<Rightarrow> nat \<Rightarrow> nat \<Rightarrow> u64 \<Rightarrow> 'q pool" where
  "pool_new name local_queue min_size max_size keep_alive_time =
     \<lparr>cp_name = name, cp_state = Ps_Running, cp_task_queue = local_queue, cp_running = 0,
      cp_pop_fail_times = 0, cp_min_size = min_size, cp_max_size = max_size,
      cp_keep_alive_time = keep_alive_time, cp_blocker = False, cp_waits = [], cp_results = [],
      cp_no_waits = {}\<rparr>"

definition pool_set_min_size :: "nat \<Rightarrow> 'q pool \<Rightarrow> 'q pool" where
  "pool_set_min_size n p = p\<lparr>cp_min_size := n\<rparr>"

definition pool_set_max_size :: "nat \<Rightarrow> 'q pool \<Rightarrow> 'q pool" where
  "pool_set_max_size n p = p\<lparr>cp_max_size := n\<rparr>"

definition pool_set_keep_alive_time :: "u64 \<Rightarrow> 'q pool \<Rightarrow> 'q pool" where
  "pool_set_keep_alive_time n p = p\<lparr>cp_keep_alive_time := n\<rparr>"

definition pool_is_empty :: "('f, 'q) pool_env \<Rightarrow> 'q pool \<Rightarrow> bool" where
  "pool_is_empty E p = rq_is_empty (pe_tq E) (cp_task_queue p)"

definition pool_is_local_empty :: "('f, 'q) pool_env \<Rightarrow> 'q pool \<Rightarrow> bool" where
  "pool_is_local_empty E p \<longleftrightarrow>
     tq_is_local_empty (pe_tq_size E) (cp_task_queue p) \<and> tq_is_global_empty (pe_tq_size E) (cp_task_queue p)"

definition pool_size :: "('f, 'q) pool_env \<Rightarrow> 'q pool \<Rightarrow> nat" where
  "pool_size E p = tq_len (pe_tq_size E) (cp_task_queue p)"

subsection \<open>Life cycle\<close>

definition pool_change_state ::
  "pool_state \<Rightarrow> pool_state \<Rightarrow> 'q pool \<Rightarrow> (error_kind, pool_state) rust \<times> 'q pool" where
  "pool_change_state old_state new_state p =
     (let current = cp_state p
      in if current = new_state then (Ok old_state, p)
         else if current = old_state then (Ok old_state, p\<lparr>cp_state := new_state\<rparr>)
         else (Err EK_Other, p))"

definition pool_stopping :: "'q pool \<Rightarrow> (error_kind, pool_state) rust \<times> 'q pool" where
  "pool_stopping p = pool_change_state Ps_Running Ps_Stopping p"

definition pool_stopped :: "'q pool \<Rightarrow> (error_kind, pool_state) rust \<times> 'q pool" where
  "pool_stopped p = pool_change_state Ps_Stopping Ps_Stopped p"

definition can_recycle :: "'q pool \<Rightarrow> bool" where
  "can_recycle p = (case cp_state p of Ps_Running \<Rightarrow> False | Ps_Stopping \<Rightarrow> True | Ps_Stopped \<Rightarrow> True)"

subsection \<open>Submitting and growing\<close>

definition submit_raw_task ::
  "('f, 'q) pool_env \<Rightarrow> 'f task \<Rightarrow> ('f, 'q) pool_sys \<Rightarrow> ('f, 'q) pool_sys option" where
  "submit_raw_task E task s =
     map_option (\<lambda>q. on_pool (\<lambda>p. p\<lparr>cp_task_queue := q, cp_blocker := blocker_notify (cp_blocker p)\<rparr>) s)
       (rq_push (pe_tq E) task (cp_task_queue (ps_pool s)))"

definition submit_task ::
  "('f, 'q) pool_env \<Rightarrow> string option \<Rightarrow> 'f \<Rightarrow> nat option \<Rightarrow> int option \<Rightarrow> ('f, 'q) pool_sys
    \<Rightarrow> (error_kind, u64 \<times> ('f, 'q) pool_sys) rust" where
  "submit_task E name func param priority s =
     (case cp_state (ps_pool s) of
        Ps_Running \<Rightarrow>
          (let fresh = cp_name (ps_pool s) @ ''@'' @ pe_uuid E (ps_uuids s);
               task = task_new (pe_hash E) (case name of None \<Rightarrow> fresh | Some n \<Rightarrow> n) func param priority
           in case submit_raw_task E task (s\<lparr>ps_uuids := Suc (ps_uuids s)\<rparr>) of
                None \<Rightarrow> Hang
              | Some s' \<Rightarrow> Ok (tk_id task, s'))
      | _ \<Rightarrow> Err EK_Other)"

text \<open>\<open>fetch_add\<close> wraps at the width of \<open>usize\<close>.\<close>

definition pool_submit_co ::
  "('f, 'q) pool_env \<Rightarrow> worker_body \<Rightarrow> ('f, 'q) pool_sys \<Rightarrow> (error_kind, unit) rust \<times> ('f, 'q) pool_sys" where
  "pool_submit_co E body s =
     (if cp_running (ps_pool s) \<ge> cp_max_size (ps_pool s) then (Err EK_Other, s)
      else
        (let s1 = s\<lparr>ps_spawns := Suc (ps_spawns s)\<rparr>
         in case pe_spawn E (ps_spawns s) of
              None \<Rightarrow> (Err EK_Other, s1)
            | Some cid \<Rightarrow>
                (Ok (), on_pool (\<lambda>p. p\<lparr>cp_running := (cp_running p + 1) mod (usize_max + 1)\<rparr>)
                   (s1\<lparr>ps_workers := ps_workers s1 @ [(cid, \<lparr>pw_body = body, pw_tasks = []\<rparr>)]\<rparr>))))"

definition try_grow ::
  "('f, 'q) pool_env \<Rightarrow> ('f, 'q) pool_sys \<Rightarrow> (error_kind, unit) rust \<times> ('f, 'q) pool_sys" where
  "try_grow E s =
     (if rq_is_empty (pe_tq E) (cp_task_queue (ps_pool s)) then (Ok (), s)
      else case pool_now E s of (create_time, s1) \<Rightarrow> pool_submit_co E (WB_loop create_time) s1)"

definition reset_pop_fail_times :: "('f, 'q) pool_sys \<Rightarrow> ('f, 'q) pool_sys" where
  "reset_pop_fail_times s = on_pool (\<lambda>p. p\<lparr>cp_pop_fail_times := 0\<rparr>) s"

subsection \<open>Results\<close>

definition pool_notify :: "u64 \<Rightarrow> ('f, 'q) pool_sys \<Rightarrow> ('f, 'q) pool_sys" where
  "pool_notify tid s =
     (case map_of (cp_waits (ps_pool s)) tid of
        None \<Rightarrow> s
      | Some arc \<Rightarrow>
          (on_pool (\<lambda>p. p\<lparr>cp_waits := AList.delete tid (cp_waits p)\<rparr>) s)\<lparr>ps_arcs := (ps_arcs s)[arc := False]\<rparr>)"

definition try_take_task_result ::
  "u64 \<Rightarrow> ('f, 'q) pool_sys \<Rightarrow> task_result option \<times> ('f, 'q) pool_sys" where
  "try_take_task_result tid s =
     (map_of (cp_results (ps_pool s)) tid,
      on_pool (\<lambda>p. p\<lparr>cp_results := AList.delete tid (cp_results p)\<rparr>) s)"

definition clean_task_result :: "u64 \<Rightarrow> ('f, 'q) pool_sys \<Rightarrow> ('f, 'q) pool_sys" where
  "clean_task_result tid s =
     (case try_take_task_result tid s of
        (Some r, s1) \<Rightarrow> s1
      | (None, s1) \<Rightarrow>
          (on_pool (\<lambda>p. p\<lparr>cp_no_waits := insert tid (cp_no_waits p)\<rparr>) s1)
            \<lparr>ps_cancel_tasks := ps_cancel_tasks s1 - {tid}\<rparr>)"

subsection \<open>Running a task\<close>

text \<open>What \<open>try_run\<close> does up to the call of \<open>task.run()\<close>: the answer tells whether a task was popped, and the one to run.\<close>

datatype 'f started = S_none | S_cancelled "'f task" | S_task "'f task"

definition try_run_start ::
  "('f, 'q) pool_env \<Rightarrow> u64 option \<Rightarrow> ('f, 'q) pool_sys \<Rightarrow> ('f started \<times> ('f, 'q) pool_sys) option" where
  "try_run_start E current s =
     (case rq_pop (pe_tq E) (cp_task_queue (ps_pool s)) of
        None \<Rightarrow> None
      | Some (r, q) \<Rightarrow>
          (let s1 = on_pool (\<lambda>p. p\<lparr>cp_task_queue := q\<rparr>) s
           in Some (case r of
                None \<Rightarrow> (S_none, s1)
              | Some task \<Rightarrow>
                  if tk_id task \<in> ps_cancel_tasks s1
                  then (S_cancelled task, s1\<lparr>ps_cancel_tasks := ps_cancel_tasks s1 - {tk_id task}\<rparr>)
                  else (S_task task,
                        case current of
                          None \<Rightarrow> s1
                        | Some co \<Rightarrow> s1\<lparr>ps_running_tasks := AList.update (tk_id task) co (ps_running_tasks s1)\<rparr>))))"

text \<open>And from its return on.\<close>

definition try_run_finish ::
  "u64 \<Rightarrow> task_result \<Rightarrow> ('f, 'q) pool_sys \<Rightarrow> (error_kind, unit) rust \<times> ('f, 'q) pool_sys" where
  "try_run_finish tid result s =
     (let s1 = s\<lparr>ps_running_tasks := AList.delete tid (ps_running_tasks s)\<rparr>
      in if tid \<in> cp_no_waits (ps_pool s1)
         then (Ok (), on_pool (\<lambda>p. p\<lparr>cp_no_waits := cp_no_waits p - {tid}\<rparr>) s1)
         else
           (let s2 = on_pool (\<lambda>p. p\<lparr>cp_results := AList.update tid result (cp_results p)\<rparr>) s1
            in if map_of (cp_results (ps_pool s1)) tid = None
               then (Ok (), pool_notify tid s2)
               else (Panic ''The previous result was not retrieved in a timely manner'', s2)))"

definition try_run ::
  "('f, 'q) pool_env \<Rightarrow> u64 option \<Rightarrow> ('f, 'q) pool_sys
    \<Rightarrow> (error_kind, unit option) rust \<times> ('f, 'q) pool_sys" where
  "try_run E current s =
     (case try_run_start E current s of
        None \<Rightarrow> (Hang, s)
      | Some (S_none, s1) \<Rightarrow> (Ok None, s1)
      | Some (S_cancelled task, s1) \<Rightarrow> (Ok (Some ()), s1)
      | Some (S_task task, s1) \<Rightarrow>
          (case try_run_finish (tk_id task) (snd (task_run (pe_call E) task)) s1 of
             (Ok u, s2) \<Rightarrow> (Ok (Some ()), s2)
           | (Err e, s2) \<Rightarrow> (Err e, s2)
           | (Panic m, s2) \<Rightarrow> (Panic m, s2)
           | (Hang, s2) \<Rightarrow> (Hang, s2)))"

subsection \<open>The worker loop\<close>

text \<open>
  The closure of \<open>try_grow\<close>, from where it is resumed to where it suspends or returns. \<open>block\<close> is
  given one millisecond; whether a notification arrives in it does not change what follows.
\<close>

datatype worker_end = W_returned | W_suspended

definition should_retire :: "u64 \<Rightarrow> u64 \<Rightarrow> 'q pool \<Rightarrow> bool" where
  "should_retire t create_time p \<longleftrightarrow>
     sat_sub t create_time \<ge> cp_keep_alive_time p \<and> cp_running p > cp_min_size p \<or> can_recycle p"

fun worker_loop ::
  "('f, 'q) pool_env \<Rightarrow> nat \<Rightarrow> u64 \<Rightarrow> u64 \<Rightarrow> ('f, 'q) pool_sys
    \<Rightarrow> (error_kind, worker_end) rust \<times> ('f, 'q) pool_sys" where
  "worker_loop E 0 create_time cid s = (Hang, s)"
| "worker_loop E (Suc fuel) create_time cid s =
     (if ps_current s = [] then (Panic ''current pool not found'', s)
      else case try_run E (Some cid) s of
        (Ok (Some u), s1) \<Rightarrow> worker_loop E fuel create_time cid (reset_pop_fail_times s1)
      | (Ok None, s1) \<Rightarrow>
          (case pool_now E s1 of (t, s2) \<Rightarrow>
             if should_retire t create_time (ps_pool s2) then (Ok W_returned, s2)
             else
               (let s3 = on_pool (\<lambda>p. p\<lparr>cp_pop_fail_times := (cp_pop_fail_times p + 1) mod (usize_max + 1)\<rparr>) s2
                in if cp_pop_fail_times (ps_pool s3) < cp_running (ps_pool s2)
                   then (Ok W_suspended, s3)
                   else worker_loop E fuel create_time cid
                     (reset_pop_fail_times (on_pool (\<lambda>p. p\<lparr>cp_blocker := snd (blocker_block False (cp_blocker p))\<rparr>) s3))))
      | (Err e, s1) \<Rightarrow> (Err e, s1)
      | (Panic m, s1) \<Rightarrow> (Panic m, s1)
      | (Hang, s1) \<Rightarrow> (Hang, s1))"

subsection \<open>The listener \<open>CoroutineCreator\<close>\<close>

definition lower_running :: "('f, 'q) pool_sys \<Rightarrow> ('f, 'q) pool_sys" where
  "lower_running s = on_pool (\<lambda>p. p\<lparr>cp_running := cp_running p - 1\<rparr>) s"

definition creator_on_state_changed ::
  "('f, 'q) pool_env \<Rightarrow> sco_state \<Rightarrow> ('f, 'q) pool_sys \<Rightarrow> ('f, 'q) pool_sys" where
  "creator_on_state_changed E new_state s =
     (if ps_current s = [] then s
      else case new_state of
        Cs_Suspend u ts \<Rightarrow> snd (try_grow E s)
      | Cs_Syscall u n st \<Rightarrow> snd (try_grow E s)
      | Cs_Complete v \<Rightarrow> lower_running s
      | Cs_Cancelled \<Rightarrow> snd (try_grow E (lower_running s))
      | Cs_Error m \<Rightarrow> snd (try_grow E (lower_running s))
      | _ \<Rightarrow> s)"

subsection \<open>Waiting for a result\<close>

text \<open>
  A thread outside every coroutine waits on a condition variable. Its three accesses to the pool
  are separate operations, since other threads act in between.
\<close>

definition wait_check ::
  "u64 \<Rightarrow> ('f, 'q) pool_sys \<Rightarrow> task_result option \<times> ('f, 'q) pool_sys" where
  "wait_check tid s =
     (case try_take_task_result tid s of
        (Some r, s1) \<Rightarrow> (Some r, pool_notify tid s1)
      | (None, s1) \<Rightarrow> (None, s1))"

definition wait_register :: "u64 \<Rightarrow> ('f, 'q) pool_sys \<Rightarrow> nat \<times> ('f, 'q) pool_sys" where
  "wait_register tid s =
     (case map_of (cp_waits (ps_pool s)) tid of
        Some arc \<Rightarrow> (arc, s)
      | None \<Rightarrow>
          (length (ps_arcs s),
           (on_pool (\<lambda>p. p\<lparr>cp_waits := AList.update tid (length (ps_arcs s)) (cp_waits p)\<rparr>) s)
             \<lparr>ps_arcs := ps_arcs s @ [True]\<rparr>))"

text \<open>\<open>wait_timeout_while\<close> returns when the flag is down or the time is over.\<close>

definition wait_over :: "nat \<Rightarrow> bool \<Rightarrow> ('f, 'q) pool_sys \<Rightarrow> bool" where
  "wait_over arc elapsed s \<longleftrightarrow> elapsed \<or> \<not> ps_arcs s ! arc"

fun wait_in_coroutine ::
  "('f, 'q) pool_env \<Rightarrow> nat \<Rightarrow> u64 \<Rightarrow> u64 \<Rightarrow> u64 \<Rightarrow> ('f, 'q) pool_sys
    \<Rightarrow> (error_kind, task_result) rust \<times> ('f, 'q) pool_sys" where
  "wait_in_coroutine E 0 cid timeout_time tid s = (Hang, s)"
| "wait_in_coroutine E (Suc fuel) cid timeout_time tid s =
     (case try_run E (Some cid) s of
        (Ok v, s1) \<Rightarrow>
          (case try_take_task_result tid s1 of
             (Some r, s2) \<Rightarrow> (Ok r, s2)
           | (None, s2) \<Rightarrow>
               (case pool_now E s2 of (t, s3) \<Rightarrow>
                  if sat_sub timeout_time t = 0 then (Err EK_TimedOut, s3)
                  else wait_in_coroutine E fuel cid timeout_time tid s3))
      | (Err e, s1) \<Rightarrow> (Err e, s1)
      | (Panic m, s1) \<Rightarrow> (Panic m, s1)
      | (Hang, s1) \<Rightarrow> (Hang, s1))"

text \<open>
  \<open>between\<close> and \<open>meanwhile\<close> are what other threads do after the first look and during the wait;
  the wait ends in a state \<open>meanwhile\<close> chooses, at the latest when the time is over.
\<close>

definition wait_task_result ::
  "('f, 'q) pool_env \<Rightarrow> nat \<Rightarrow> u64 option \<Rightarrow> (('f, 'q) pool_sys \<Rightarrow> ('f, 'q) pool_sys)
    \<Rightarrow> (nat \<Rightarrow> ('f, 'q) pool_sys \<Rightarrow> ('f, 'q) pool_sys) \<Rightarrow> u64 \<Rightarrow> nat \<Rightarrow> ('f, 'q) pool_sys
    \<Rightarrow> (error_kind, task_result) rust \<times> ('f, 'q) pool_sys" where
  "wait_task_result E fuel current between meanwhile tid wait_time s =
     (case wait_check tid s of
        (Some r, s1) \<Rightarrow> (Ok r, s1)
      | (None, s1) \<Rightarrow>
          (case current of
             Some cid \<Rightarrow>
               (case pool_now E s1 of (t, s2) \<Rightarrow>
                  wait_in_coroutine E fuel cid (get_timeout_time t wait_time) tid s2)
           | None \<Rightarrow>
               (case wait_register tid (between s1) of (arc, s2) \<Rightarrow>
                  (case wait_check tid (meanwhile arc s2) of
                     (Some r, s3) \<Rightarrow> (Ok r, s3)
                   | (None, s3) \<Rightarrow> (Err EK_TimedOut, s3)))))"

subsection \<open>Cancelling\<close>

definition try_cancel_task ::
  "('f, 'q) pool_env \<Rightarrow> u64 \<Rightarrow> ('f, 'q) pool_sys \<Rightarrow> ('f, 'q) pool_sys" where
  "try_cancel_task E tid s =
     (case map_of (ps_running_tasks s) tid of
        Some co \<Rightarrow>
          (case map_of (ps_running_cos s) co of
             Some pthread \<Rightarrow>
               (if pe_kill E pthread then s\<lparr>ps_signals := ps_signals s @ [pthread]\<rparr> else s)
           | None \<Rightarrow> s\<lparr>ps_cancel_cos := insert co (ps_cancel_cos s)\<rparr>)
      | None \<Rightarrow> s\<lparr>ps_cancel_tasks := insert tid (ps_cancel_tasks s)\<rparr>)"

subsection \<open>Scheduling and stopping\<close>

text \<open>
  \<open>run\<close> is \<open>try_timeout_schedule\<close> of the workers' scheduler. \<open>do_stop\<close> sleeps a millisecond between
  two rounds; the clock shows that it passed.
\<close>

type_synonym ('f, 'q) pool_run =
  "u64 \<Rightarrow> ('f, 'q) pool_sys \<Rightarrow> (error_kind, u64) rust \<times> ('f, 'q) pool_sys"

definition try_timeout_schedule_task ::
  "('f, 'q) pool_env \<Rightarrow> ('f, 'q) pool_run \<Rightarrow> u64 \<Rightarrow> ('f, 'q) pool_sys
    \<Rightarrow> (error_kind, u64) rust \<times> ('f, 'q) pool_sys" where
  "try_timeout_schedule_task E run timeout_time s =
     (case cp_state (ps_pool s) of
        Ps_Stopped \<Rightarrow> (Err EK_Other, s)
      | _ \<Rightarrow>
          (let s1 = snd (try_grow E s);
               (r, s2) = run timeout_time (s1\<lparr>ps_current := cp_name (ps_pool s1) # ps_current s1\<rparr>)
           in (r, s2\<lparr>ps_current := tl (ps_current s2)\<rparr>)))"

definition try_timed_schedule_task ::
  "('f, 'q) pool_env \<Rightarrow> ('f, 'q) pool_run \<Rightarrow> nat \<Rightarrow> ('f, 'q) pool_sys
    \<Rightarrow> (error_kind, u64) rust \<times> ('f, 'q) pool_sys" where
  "try_timed_schedule_task E run dur s =
     (case pool_now E s of (t, s1) \<Rightarrow> try_timeout_schedule_task E run (get_timeout_time t dur) s1)"

definition try_schedule_task ::
  "('f, 'q) pool_env \<Rightarrow> ('f, 'q) pool_run \<Rightarrow> ('f, 'q) pool_sys \<Rightarrow> (error_kind, unit) rust \<times> ('f, 'q) pool_sys" where
  "try_schedule_task E run s =
     (case try_timeout_schedule_task E run u64_max s of (r, s') \<Rightarrow> (rust_bind r (\<lambda>_. Ok ()), s'))"

text \<open>
  \<open>do_clean\<close> removes from the map it iterates over. \<open>DashMap\<close> documents that this may deadlock;
  \<open>reentrant\<close> says whether its shard locks let it pass.
\<close>

fun do_clean_over :: "u64 list \<Rightarrow> ('f, 'q) pool_sys \<Rightarrow> ('f, 'q) pool_sys" where
  "do_clean_over [] s = s"
| "do_clean_over (tid # tids) s =
     do_clean_over tids (pool_notify tid (on_pool (\<lambda>p. p\<lparr>cp_results :=
       AList.update tid (Err ''The coroutine pool has stopped'') (cp_results p)\<rparr>) s))"

definition do_clean :: "bool \<Rightarrow> ('f, 'q) pool_sys \<Rightarrow> (error_kind, unit) rust \<times> ('f, 'q) pool_sys" where
  "do_clean reentrant s =
     (if cp_waits (ps_pool s) \<noteq> [] \<and> \<not> reentrant then (Hang, s)
      else (Ok (), do_clean_over (map fst (cp_waits (ps_pool s))) s))"

fun do_stop_loop ::
  "('f, 'q) pool_env \<Rightarrow> ('f, 'q) pool_run \<Rightarrow> nat \<Rightarrow> u64 \<Rightarrow> ('f, 'q) pool_sys
    \<Rightarrow> (error_kind, unit) rust \<times> ('f, 'q) pool_sys" where
  "do_stop_loop E run 0 timeout_time s = (Hang, s)"
| "do_stop_loop E run (Suc fuel) timeout_time s =
     (case try_timeout_schedule_task E run timeout_time s of
        (Ok v, s1) \<Rightarrow>
          (if cp_running (ps_pool s1) = 0 then (Ok (), s1)
           else case pool_now E s1 of (t, s2) \<Rightarrow>
             if sat_sub timeout_time t = 0 then (Ok (), s2)
             else do_stop_loop E run fuel timeout_time s2)
      | (Err e, s1) \<Rightarrow> (Err e, s1)
      | (Panic m, s1) \<Rightarrow> (Panic m, s1)
      | (Hang, s1) \<Rightarrow> (Hang, s1))"

definition do_stop ::
  "('f, 'q) pool_env \<Rightarrow> ('f, 'q) pool_run \<Rightarrow> bool \<Rightarrow> nat \<Rightarrow> nat \<Rightarrow> ('f, 'q) pool_sys
    \<Rightarrow> (error_kind, unit) rust \<times> ('f, 'q) pool_sys" where
  "do_stop E run reentrant fuel dur s =
     (case pool_now E s of (t, s1) \<Rightarrow>
        (case do_stop_loop E run fuel (get_timeout_time t dur) s1 of
           (Ok u, s2) \<Rightarrow>
             (case pool_stopped (ps_pool s2) of
                (Ok old, p) \<Rightarrow>
                  (if old \<noteq> Ps_Stopping then (Panic ''assert_eq'', s2\<lparr>ps_pool := p\<rparr>)
                   else do_clean reentrant (s2\<lparr>ps_pool := p\<rparr>))
              | (Err e, p) \<Rightarrow> (Err e, s2)
              | (Panic m, p) \<Rightarrow> (Panic m, s2)
              | (Hang, p) \<Rightarrow> (Hang, s2))
         | (Err e, s2) \<Rightarrow> (Err e, s2)
         | (Panic m, s2) \<Rightarrow> (Panic m, s2)
         | (Hang, s2) \<Rightarrow> (Hang, s2)))"

definition pool_stop ::
  "('f, 'q) pool_env \<Rightarrow> ('f, 'q) pool_run \<Rightarrow> bool \<Rightarrow> nat \<Rightarrow> nat \<Rightarrow> ('f, 'q) pool_sys
    \<Rightarrow> (error_kind, unit) rust \<times> ('f, 'q) pool_sys" where
  "pool_stop E run reentrant fuel dur s =
     (case cp_state (ps_pool s) of
        Ps_Running \<Rightarrow>
          (case pool_stopping (ps_pool s) of
             (Ok old, p) \<Rightarrow>
               (if old \<noteq> Ps_Running then (Panic ''assert_eq'', s\<lparr>ps_pool := p\<rparr>)
                else do_stop E run reentrant fuel dur (s\<lparr>ps_pool := p\<rparr>))
           | (Err e, p) \<Rightarrow> (Err e, s)
           | (Panic m, p) \<Rightarrow> (Panic m, s)
           | (Hang, p) \<Rightarrow> (Hang, s))
      | Ps_Stopping \<Rightarrow> do_stop E run reentrant fuel dur s
      | Ps_Stopped \<Rightarrow> do_clean reentrant s)"

definition pool_drop ::
  "('f, 'q) pool_env \<Rightarrow> ('f, 'q) pool_run \<Rightarrow> bool \<Rightarrow> nat \<Rightarrow> bool \<Rightarrow> ('f, 'q) pool_sys
    \<Rightarrow> (error_kind, unit) rust \<times> ('f, 'q) pool_sys" where
  "pool_drop E run reentrant fuel panicking s =
     (if panicking then (Ok (), s)
      else case pool_stop E run reentrant fuel (30 * 10 ^ 9) s of
        (Ok u, s1) \<Rightarrow>
          (if cp_state (ps_pool s1) \<noteq> Ps_Stopped then (Panic ''The coroutine pool is not stopped !'', s1)
           else if cp_running (ps_pool s1) \<noteq> 0 then (Panic ''There are still tasks in progress !'', s1)
           else (Ok (), s1))
      | (Err e, s1) \<Rightarrow> (Panic ''Failed to stop coroutine pool'', s1)
      | (Panic m, s1) \<Rightarrow> (Panic m, s1)
      | (Hang, s1) \<Rightarrow> (Hang, s1))"

section \<open>All interleavings\<close>

text \<open>
  A step is one access of one thread to the pool. Workers run inside
  \<open>try_timeout_schedule_task\<close>, so their steps need a current pool. The labels record what became
  of tasks: submitted, finished, cancelled in the queue, lost with a worker that ended in the
  middle of them; and a worker the scheduler dropped because of \<open>CANCEL_COROUTINES\<close>.
\<close>

datatype pool_ev = Pv_tau | Pv_submit u64 | Pv_done u64 | Pv_cancel u64 | Pv_lost "u64 list" | Pv_drop "u64 list"

definition set_worker :: "nat \<Rightarrow> 'f task list \<Rightarrow> ('f, 'q) pool_sys \<Rightarrow> ('f, 'q) pool_sys" where
  "set_worker i tasks s =
     s\<lparr>ps_workers := (ps_workers s)[i := (fst (ps_workers s ! i), (snd (ps_workers s ! i))\<lparr>pw_tasks := tasks\<rparr>)]\<rparr>"

definition del_worker :: "nat \<Rightarrow> ('f, 'q) pool_sys \<Rightarrow> ('f, 'q) pool_sys" where
  "del_worker i s = s\<lparr>ps_workers := take i (ps_workers s) @ drop (Suc i) (ps_workers s)\<rparr>"

inductive pool_step ::
  "('f, 'q) pool_env \<Rightarrow> nat \<Rightarrow> ('f, 'q) pool_sys \<Rightarrow> pool_ev \<Rightarrow> ('f, 'q) pool_sys \<Rightarrow> bool" for E M where
  P_submit: "submit_task E name func param priority s = Ok (tid, s') \<Longrightarrow> pool_step E M s (Pv_submit tid) s'"
| P_take: "try_take_task_result tid s = (r, s') \<Longrightarrow> pool_step E M s Pv_tau s'"
| P_clean_result: "pool_step E M s Pv_tau (clean_task_result tid s)"
| P_cancel: "pool_step E M s Pv_tau (try_cancel_task E tid s)"
| P_check: "wait_check tid s = (r, s') \<Longrightarrow> pool_step E M s Pv_tau s'"
| P_register: "wait_register tid s = (arc, s') \<Longrightarrow> pool_step E M s Pv_tau s'"
| P_max: "n \<le> M \<Longrightarrow> pool_step E M s Pv_tau (on_pool (pool_set_max_size n) s)"
| P_min: "pool_step E M s Pv_tau (on_pool (pool_set_min_size n) s)"
| P_keep: "pool_step E M s Pv_tau (on_pool (pool_set_keep_alive_time t) s)"
| P_stopping: "pool_stopping (ps_pool s) = (r, p) \<Longrightarrow> pool_step E M s Pv_tau (s\<lparr>ps_pool := p\<rparr>)"
| P_stopped: "pool_stopped (ps_pool s) = (r, p) \<Longrightarrow> pool_step E M s Pv_tau (s\<lparr>ps_pool := p\<rparr>)"
| P_clean: "do_clean reentrant s = (r, s') \<Longrightarrow> pool_step E M s Pv_tau s'"
| P_enter: "try_grow E s = (r, s1) \<Longrightarrow>
    pool_step E M s Pv_tau (s1\<lparr>ps_current := cp_name (ps_pool s1) # ps_current s1\<rparr>)"
| P_leave: "pool_step E M s Pv_tau (s\<lparr>ps_current := tl (ps_current s)\<rparr>)"
| P_spawn: "pool_submit_co E body s = (r, s') \<Longrightarrow> pool_step E M s Pv_tau s'"
| P_start: "i < length (ps_workers s) \<Longrightarrow> ps_current s \<noteq> [] \<Longrightarrow>
    try_run_start E (Some (fst (ps_workers s ! i))) s = Some (S_task task, s1) \<Longrightarrow>
    pool_step E M s Pv_tau (set_worker i (task # pw_tasks (snd (ps_workers s ! i))) s1)"
| P_skip: "i < length (ps_workers s) \<Longrightarrow> ps_current s \<noteq> [] \<Longrightarrow>
    try_run_start E (Some (fst (ps_workers s ! i))) s = Some (S_cancelled task, s1) \<Longrightarrow>
    pool_step E M s (Pv_cancel (tk_id task)) s1"
| P_idle: "i < length (ps_workers s) \<Longrightarrow> ps_current s \<noteq> [] \<Longrightarrow>
    try_run_start E (Some (fst (ps_workers s ! i))) s = Some (S_none, s1) \<Longrightarrow>
    pool_now E s1 = (t, s2) \<Longrightarrow>
    pool_step E M s Pv_tau (on_pool (\<lambda>p. p\<lparr>cp_pop_fail_times := n, cp_blocker := b\<rparr>) s2)"
| P_finish: "i < length (ps_workers s) \<Longrightarrow> ps_current s \<noteq> [] \<Longrightarrow>
    pw_tasks (snd (ps_workers s ! i)) = task # tasks \<Longrightarrow>
    try_run_finish (tk_id task) result s = (Ok u, s1) \<Longrightarrow>
    pool_step E M s (Pv_done (tk_id task)) (reset_pop_fail_times (set_worker i tasks s1))"
| P_finish_nested: "i < length (ps_workers s) \<Longrightarrow> ps_current s \<noteq> [] \<Longrightarrow>
    pw_tasks (snd (ps_workers s ! i)) = task # tasks \<Longrightarrow> tasks \<noteq> [] \<Longrightarrow>
    try_run_finish (tk_id task) result s = (Panic m, s1) \<Longrightarrow>
    pool_step E M s (Pv_done (tk_id task)) (set_worker i tasks s1)"
| P_finish_panic: "i < length (ps_workers s) \<Longrightarrow> ps_current s \<noteq> [] \<Longrightarrow>
    pw_tasks (snd (ps_workers s ! i)) = [task] \<Longrightarrow>
    try_run_finish (tk_id task) result s = (Panic m, s1) \<Longrightarrow>
    pool_step E M s (Pv_done (tk_id task)) (creator_on_state_changed E (Cs_Error m) (del_worker i s1))"
| P_yield: "i < length (ps_workers s) \<Longrightarrow> ps_current s \<noteq> [] \<Longrightarrow>
    st = Cs_Suspend () ts \<or> st = Cs_Syscall () n y \<Longrightarrow>
    pool_step E M s Pv_tau (creator_on_state_changed E st s)"
| P_return: "i < length (ps_workers s) \<Longrightarrow> ps_current s \<noteq> [] \<Longrightarrow>
    pw_tasks (snd (ps_workers s ! i)) = [] \<Longrightarrow>
    pool_step E M s Pv_tau (creator_on_state_changed E (Cs_Complete v) (del_worker i s))"
| P_abort: "i < length (ps_workers s) \<Longrightarrow> ps_current s \<noteq> [] \<Longrightarrow>
    st = Cs_Cancelled \<or> st = Cs_Error m \<Longrightarrow>
    pool_step E M s (Pv_lost (map tk_id (pw_tasks (snd (ps_workers s ! i)))))
      (creator_on_state_changed E st (del_worker i s))"
| P_drop: "i < length (ps_workers s) \<Longrightarrow> fst (ps_workers s ! i) \<in> ps_cancel_cos s \<Longrightarrow>
    pool_step E M s (Pv_drop (map tk_id (pw_tasks (snd (ps_workers s ! i)))))
      ((del_worker i s)\<lparr>ps_cancel_cos := ps_cancel_cos s - {fst (ps_workers s ! i)}\<rparr>)"

inductive pool_reach ::
  "('f, 'q) pool_env \<Rightarrow> nat \<Rightarrow> ('f, 'q) pool_sys \<Rightarrow> pool_ev list \<Rightarrow> ('f, 'q) pool_sys \<Rightarrow> bool" for E M s0 where
  reach_refl: "pool_reach E M s0 [] s0"
| reach_step: "pool_reach E M s0 evs s \<Longrightarrow> pool_step E M s ev s' \<Longrightarrow> pool_reach E M s0 (evs @ [ev]) s'"

fun ev_in :: "pool_ev \<Rightarrow> u64 list" where
  "ev_in (Pv_submit tid) = [tid]"
| "ev_in _ = []"

fun ev_out :: "pool_ev \<Rightarrow> u64 list" where
  "ev_out (Pv_done tid) = [tid]"
| "ev_out (Pv_cancel tid) = [tid]"
| "ev_out (Pv_lost tids) = tids"
| "ev_out (Pv_drop tids) = tids"
| "ev_out _ = []"

fun ev_drop :: "pool_ev \<Rightarrow> nat" where
  "ev_drop (Pv_drop tids) = 1"
| "ev_drop _ = 0"

subsection \<open>What each operation does to tasks and workers\<close>

text \<open>The operations that touch neither the queue nor the workers nor the two sizes.\<close>

definition pool_same :: "('f, 'q) pool_sys \<Rightarrow> ('f, 'q) pool_sys \<Rightarrow> bool" where
  "pool_same s s' \<longleftrightarrow> cp_task_queue (ps_pool s') = cp_task_queue (ps_pool s)
     \<and> ps_workers s' = ps_workers s \<and> cp_running (ps_pool s') = cp_running (ps_pool s)
     \<and> cp_max_size (ps_pool s') = cp_max_size (ps_pool s) \<and> ps_current s' = ps_current s"

lemma pool_same_refl [simp]: "pool_same s s"
  by (simp add: pool_same_def)

lemma pool_same_trans: "pool_same s s' \<Longrightarrow> pool_same s' s'' \<Longrightarrow> pool_same s s''"
  by (simp add: pool_same_def)

lemma pool_same_now: "pool_now E s = (t, s') \<Longrightarrow> pool_same s s'"
  by (auto simp: pool_now_def pool_same_def)

lemma pool_same_notify [simp]: "pool_same s (pool_notify tid s)"
  by (simp add: pool_notify_def pool_same_def split: option.splits)

lemma pool_same_take: "try_take_task_result tid s = (r, s') \<Longrightarrow> pool_same s s'"
  by (auto simp: try_take_task_result_def pool_same_def)

lemma pool_same_clean_result [simp]: "pool_same s (clean_task_result tid s)"
  by (simp add: clean_task_result_def try_take_task_result_def pool_same_def split: option.splits)

lemma pool_same_cancel [simp]: "pool_same s (try_cancel_task E tid s)"
  by (simp add: try_cancel_task_def pool_same_def split: option.splits)

lemma pool_same_check: "wait_check tid s = (r, s') \<Longrightarrow> pool_same s s'"
  by (auto simp: wait_check_def split: prod.splits option.splits
      dest!: pool_same_take intro: pool_same_trans)

lemma pool_same_register: "wait_register tid s = (arc, s') \<Longrightarrow> pool_same s s'"
  by (auto simp: wait_register_def pool_same_def split: option.splits)

lemma pool_same_state: "pool_change_state old new (ps_pool s) = (r, p) \<Longrightarrow> pool_same s (s\<lparr>ps_pool := p\<rparr>)"
  by (auto simp: pool_change_state_def pool_same_def Let_def split: if_splits)

lemma pool_same_clean_over: "pool_same s (do_clean_over tids s)"
proof (induction tids arbitrary: s)
  case (Cons tid tids)
  let ?s = "on_pool (\<lambda>p. p\<lparr>cp_results := AList.update tid (Err ''The coroutine pool has stopped'') (cp_results p)\<rparr>) s"
  have "pool_same s ?s" by (simp add: pool_same_def)
  from pool_same_trans [OF this pool_same_notify [of ?s tid]]
  have "pool_same s (pool_notify tid ?s)" .
  from pool_same_trans [OF this Cons] show ?case unfolding do_clean_over.simps .
qed simp

lemma pool_same_clean: "do_clean reentrant s = (r, s') \<Longrightarrow> pool_same s s'"
  by (auto simp: do_clean_def pool_same_clean_over split: if_splits)

lemma pool_same_finish: "try_run_finish tid result s = (r, s') \<Longrightarrow> pool_same s s'"
proof -
  assume a: "try_run_finish tid result s = (r, s')"
  let ?s1 = "s\<lparr>ps_running_tasks := AList.delete tid (ps_running_tasks s)\<rparr>"
  let ?s2 = "on_pool (\<lambda>p. p\<lparr>cp_results := AList.update tid result (cp_results p)\<rparr>) ?s1"
  have "pool_same s ?s2" by (simp add: pool_same_def)
  moreover from this have "pool_same s (pool_notify tid ?s2)" by (rule pool_same_trans [OF _ pool_same_notify])
  moreover have "pool_same s (on_pool (\<lambda>p. p\<lparr>cp_no_waits := cp_no_waits p - {tid}\<rparr>) ?s1)" by (simp add: pool_same_def)
  ultimately show ?thesis using a by (auto simp: try_run_finish_def Let_def split: if_splits)
qed

text \<open>Growing adds at most one worker, and none beyond the maximum.\<close>

definition grown :: "('f, 'q) pool_sys \<Rightarrow> ('f, 'q) pool_sys \<Rightarrow> bool" where
  "grown s s' \<longleftrightarrow> pool_same s s' \<or>
     (\<exists>cid body. ps_workers s' = ps_workers s @ [(cid, \<lparr>pw_body = body, pw_tasks = []\<rparr>)]
       \<and> cp_running (ps_pool s') = (cp_running (ps_pool s) + 1) mod (usize_max + 1)
       \<and> cp_running (ps_pool s) < cp_max_size (ps_pool s)
       \<and> cp_task_queue (ps_pool s') = cp_task_queue (ps_pool s)
       \<and> cp_max_size (ps_pool s') = cp_max_size (ps_pool s) \<and> ps_current s' = ps_current s)"

lemma grown_refl [simp]: "grown s s"
  by (simp add: grown_def)

lemma grown_submit_co: "pool_submit_co E body s = (r, s') \<Longrightarrow> grown s s'"
  by (auto simp: pool_submit_co_def grown_def pool_same_def Let_def split: if_splits option.splits)

lemma grown_same: "pool_same s s1 \<Longrightarrow> grown s1 s' \<Longrightarrow> grown s s'"
  by (auto simp: grown_def pool_same_def)

lemma grown_try_grow: "try_grow E s = (r, s') \<Longrightarrow> grown s s'"
  by (auto simp: try_grow_def split: if_splits prod.splits
      intro: grown_same [OF pool_same_now grown_submit_co])

lemma grown_snd_try_grow: "grown s (snd (try_grow E s))"
  by (rule grown_try_grow [of E _ "fst (try_grow E s)"]) simp

definition flight_ids :: "('f, 'q) pool_sys \<Rightarrow> u64 multiset" where
  "flight_ids s = (\<Sum>w\<leftarrow>ps_workers s. mset (map tk_id (pw_tasks (snd w))))"

lemma flight_cancel_cos [simp]: "flight_ids (s\<lparr>ps_cancel_cos := c\<rparr>) = flight_ids s"
  by (simp add: flight_ids_def)

lemma grown_flight: "grown s s' \<Longrightarrow> flight_ids s' = flight_ids s"
  by (auto simp: grown_def pool_same_def flight_ids_def)

lemma flight_set_worker:
  assumes "i < length (ps_workers s)"
  shows "flight_ids (set_worker i tasks s) + mset (map tk_id (pw_tasks (snd (ps_workers s ! i))))
    = flight_ids s + mset (map tk_id tasks)"
  using sum_list_update_multiset [OF assms, of "\<lambda>w. mset (map tk_id (pw_tasks (snd w)))"]
  by (simp add: flight_ids_def set_worker_def)

lemma flight_del_worker:
  assumes "i < length (ps_workers s)"
  shows "flight_ids s = flight_ids (del_worker i s) + mset (map tk_id (pw_tasks (snd (ps_workers s ! i))))"
proof -
  have "ps_workers s = take i (ps_workers s) @ ps_workers s ! i # drop (Suc i) (ps_workers s)"
    using assms by (rule id_take_nth_drop)
  then have "flight_ids s = (\<Sum>w\<leftarrow>take i (ps_workers s) @ ps_workers s ! i # drop (Suc i) (ps_workers s).
      mset (map tk_id (pw_tasks (snd w))))"
    unfolding flight_ids_def by (rule arg_cong)
  then show ?thesis by (simp add: flight_ids_def del_worker_def ac_simps)
qed

lemma del_worker_sel [simp]: "ps_pool (del_worker i s) = ps_pool s" "ps_current (del_worker i s) = ps_current s"
  "i < length (ps_workers s) \<Longrightarrow> length (ps_workers (del_worker i s)) = length (ps_workers s) - 1"
  by (auto simp: del_worker_def)

lemma set_worker_sel [simp]: "ps_pool (set_worker i ts s) = ps_pool s" "ps_current (set_worker i ts s) = ps_current s"
  "length (ps_workers (set_worker i ts s)) = length (ps_workers s)"
  by (auto simp: set_worker_def)

subsection \<open>The invariant\<close>

text \<open>
  The ids that came in are queued, in flight, or left; the counter is the number of live workers
  and of the dropped ones, and bounded.
\<close>

definition pool_acc ::
  "('q \<Rightarrow> bool) \<Rightarrow> ('q \<Rightarrow> 'f task multiset) \<Rightarrow> nat \<Rightarrow> u64 multiset \<Rightarrow> u64 multiset \<Rightarrow> nat
    \<Rightarrow> ('f, 'q) pool_sys \<Rightarrow> bool" where
  "pool_acc rq_inv rq_items M ins outs drops s \<longleftrightarrow> rq_inv (cp_task_queue (ps_pool s))
     \<and> ins = image_mset tk_id (rq_items (cp_task_queue (ps_pool s))) + flight_ids s + outs
     \<and> cp_running (ps_pool s) = length (ps_workers s) + drops
     \<and> cp_running (ps_pool s) \<le> M \<and> cp_max_size (ps_pool s) \<le> M"

lemma acc_same: "pool_acc I Q M ins outs d s \<Longrightarrow> pool_same s s' \<Longrightarrow> pool_acc I Q M ins outs d s'"
  by (simp add: pool_acc_def pool_same_def flight_ids_def)

lemma acc_grown:
  assumes "pool_acc I Q M ins outs d s" and "grown s s'" and "M \<le> usize_max"
  shows "pool_acc I Q M ins outs d s'"
  using assms grown_flight [OF assms(2)] by (auto simp: grown_def pool_acc_def pool_same_def flight_ids_def)

lemma acc_current [simp]:
  "pool_acc I Q M ins outs d (s\<lparr>ps_current := c\<rparr>) = pool_acc I Q M ins outs d s"
  "pool_acc I Q M ins outs d (s\<lparr>ps_cancel_cos := cc\<rparr>) = pool_acc I Q M ins outs d s"
  "pool_acc I Q M ins outs d (reset_pop_fail_times s) = pool_acc I Q M ins outs d s"
  by (simp_all add: pool_acc_def flight_ids_def reset_pop_fail_times_def)

text \<open>A worker that ends, and the listener's reaction to it.\<close>

lemma acc_ended:
  assumes "pool_acc I Q M ins outs d s" and "i < length (ps_workers s)"
    and "outs' = outs + mset (map tk_id (pw_tasks (snd (ps_workers s ! i))))"
  shows "pool_acc I Q M ins outs' d (lower_running (del_worker i s))"
  using assms flight_del_worker [OF assms(2)] del_worker_sel(3) [OF assms(2)]
  by (auto simp: pool_acc_def lower_running_def flight_ids_def ac_simps)

lemma acc_creator:
  assumes "pool_acc I Q M ins outs d s" and "M \<le> usize_max"
    and "st = Cs_Suspend () ts \<or> st = Cs_Syscall () n y"
  shows "pool_acc I Q M ins outs d (creator_on_state_changed E st s)"
  using assms grown_snd_try_grow [of s E] acc_grown [of I Q M ins outs d s]
  by (auto simp: creator_on_state_changed_def)

lemma acc_creator_ended:
  assumes "pool_acc I Q M ins outs d s" and "i < length (ps_workers s)" and "M \<le> usize_max"
    and "outs' = outs + mset (map tk_id (pw_tasks (snd (ps_workers s ! i))))"
    and "ps_current s \<noteq> []" and "st = Cs_Complete v \<or> st = Cs_Cancelled \<or> st = Cs_Error m"
  shows "pool_acc I Q M ins outs' d (creator_on_state_changed E st (del_worker i s))"
proof -
  let ?s = "lower_running (del_worker i s)"
  have "pool_acc I Q M ins outs' d ?s" using acc_ended assms by blast
  with acc_grown [OF this grown_snd_try_grow [of ?s E]] assms(3,5,6) show ?thesis
    by (auto simp: creator_on_state_changed_def)
qed

text \<open>Taking a task from the queue, and giving one up.\<close>

lemma acc_frame:
  assumes "pool_acc I Q M ins outs d s" and "i < length (ps_workers s)"
    and "pw_tasks (snd (ps_workers s ! i)) = task # tasks"
  shows "pool_acc I Q M ins (add_mset (tk_id task) outs) d (set_worker i tasks s)"
  using assms(1) flight_set_worker [OF assms(2), of tasks] assms(3)
  by (auto simp: pool_acc_def)

locale task_pool = ready_queue "pe_tq E" rq_inv rq_items
  for E :: "('f, 'q) pool_env" and rq_inv rq_items +
  fixes M :: nat
  assumes usize: "M \<le> usize_max"
begin

abbreviation acc :: "u64 multiset \<Rightarrow> u64 multiset \<Rightarrow> nat \<Rightarrow> ('f, 'q) pool_sys \<Rightarrow> bool" where
  "acc \<equiv> pool_acc rq_inv rq_items M"

lemma acc_start:
  assumes "acc ins outs d s" and "try_run_start E cur s = Some (r, s1)"
  shows "ps_workers s1 = ps_workers s" "ps_current s1 = ps_current s"
    and "r = S_none \<Longrightarrow> acc ins outs d s1"
    and "r = S_cancelled task \<Longrightarrow> acc ins (add_mset (tk_id task) outs) d s1"
    and "r = S_task task \<Longrightarrow> acc ins (add_mset (tk_id task) outs) d s1"
proof -
  from assms(1) have "rq_inv (cp_task_queue (ps_pool s))" by (simp add: pool_acc_def)
  from pop_law [OF this] obtain p q where
    pop: "rq_pop (pe_tq E) (cp_task_queue (ps_pool s)) = Some (p, q)" "rq_inv q"
      "rq_items (cp_task_queue (ps_pool s)) = rq_items q + mset_option p" by blast
  note st = assms(2) [unfolded try_run_start_def pop(1)]
  show "ps_workers s1 = ps_workers s" "ps_current s1 = ps_current s"
    using st by (auto simp: Let_def split: option.splits if_splits)
  show "r = S_none \<Longrightarrow> acc ins outs d s1"
    "r = S_cancelled task \<Longrightarrow> acc ins (add_mset (tk_id task) outs) d s1"
    "r = S_task task \<Longrightarrow> acc ins (add_mset (tk_id task) outs) d s1"
    using st assms(1) pop(2,3) by (auto simp: Let_def pool_acc_def flight_ids_def split: option.splits if_splits)
qed

lemma acc_submit:
  assumes "acc ins outs d s" and "size ins < usize_max"
    and "submit_task E name func param priority s = Ok (tid, s')"
  shows "acc (add_mset tid ins) outs d s'"
proof -
  obtain task where raw: "submit_raw_task E task (s\<lparr>ps_uuids := Suc (ps_uuids s)\<rparr>) = Some s'" and tid: "tid = tk_id task"
    using assms(3) by (auto simp: submit_task_def Let_def split: pool_state.splits option.splits)
  then obtain q where push: "rq_push (pe_tq E) task (cp_task_queue (ps_pool s)) = Some q"
    and s': "s' = on_pool (\<lambda>p. p\<lparr>cp_task_queue := q, cp_blocker := blocker_notify (cp_blocker p)\<rparr>)
      (s\<lparr>ps_uuids := Suc (ps_uuids s)\<rparr>)"
    by (auto simp: submit_raw_task_def)
  have "size (rq_items (cp_task_queue (ps_pool s))) < usize_max"
    using assms(1,2) by (auto simp: pool_acc_def)
  from push_law [OF _ this push] assms(1) show ?thesis
    by (simp add: s' tid pool_acc_def flight_ids_def)
qed

lemma acc_step:
  assumes "pool_step E M s ev s'" and "acc ins outs d s" and "size ins < usize_max"
  shows "acc (ins + mset (ev_in ev)) (outs + mset (ev_out ev)) (d + ev_drop ev) s'"
  using assms(1)
proof cases
  case (P_submit name func param priority tid)
  then show ?thesis using acc_submit [OF assms(2,3)] by simp
next
  case (P_take tid r)
  then show ?thesis using acc_same [OF assms(2) pool_same_take] by auto
next
  case (P_clean_result tid)
  then show ?thesis using acc_same [OF assms(2) pool_same_clean_result] by simp
next
  case (P_cancel tid)
  then show ?thesis using acc_same [OF assms(2) pool_same_cancel] by simp
next
  case (P_check tid r)
  then show ?thesis using acc_same [OF assms(2) pool_same_check] by auto
next
  case (P_register tid arc)
  then show ?thesis using acc_same [OF assms(2) pool_same_register] by auto
next
  case (P_max n)
  then show ?thesis using assms(2) by (simp add: pool_acc_def pool_set_max_size_def flight_ids_def)
next
  case (P_min n)
  then show ?thesis using assms(2) by (simp add: pool_acc_def pool_set_min_size_def flight_ids_def)
next
  case (P_keep t)
  then show ?thesis using assms(2) by (simp add: pool_acc_def pool_set_keep_alive_time_def flight_ids_def)
next
  case (P_stopping r p)
  then show ?thesis using acc_same [OF assms(2) pool_same_state] by (simp add: pool_stopping_def)
next
  case (P_stopped r p)
  then show ?thesis using acc_same [OF assms(2) pool_same_state] by (simp add: pool_stopped_def)
next
  case (P_clean reentrant r)
  then show ?thesis using acc_same [OF assms(2) pool_same_clean] by auto
next
  case (P_enter r s1)
  then show ?thesis using acc_grown [OF assms(2) grown_try_grow usize] by simp
next
  case P_leave
  then show ?thesis using assms(2) by simp
next
  case (P_spawn body r)
  then show ?thesis using acc_grown [OF assms(2) grown_submit_co usize] by simp
next
  case (P_start i task s1)
  note st = acc_start [OF assms(2) P_start(5)]
  then have "acc ins (add_mset (tk_id task) outs) d s1" by simp
  with flight_set_worker [of i s1 "task # pw_tasks (snd (ps_workers s ! i))"] st(1) P_start show ?thesis
    by (simp add: pool_acc_def)
next
  case (P_skip i task)
  then show ?thesis using acc_start(4) [OF assms(2)] by simp
next
  case (P_idle i s1 t s2 n b)
  have "acc ins outs d s1" using acc_start(3) [OF assms(2) P_idle(5)] by simp
  from acc_same [OF this pool_same_now [OF P_idle(6)]] have "acc ins outs d s2" .
  with P_idle(1,2) show ?thesis by (simp add: pool_acc_def flight_ids_def)
next
  case (P_finish i task tasks result u s1)
  note same = pool_same_finish [OF P_finish(6)]
  have "acc ins outs d s1" by (rule acc_same [OF assms(2) same])
  from acc_frame [OF this, of i task tasks] P_finish same show ?thesis by (simp add: pool_same_def)
next
  case (P_finish_nested i task tasks result m s1)
  note same = pool_same_finish [OF P_finish_nested(7)]
  have "acc ins outs d s1" by (rule acc_same [OF assms(2) same])
  from acc_frame [OF this, of i task tasks] P_finish_nested same show ?thesis by (simp add: pool_same_def)
next
  case (P_finish_panic i task result m s1)
  note same = pool_same_finish [OF P_finish_panic(6)]
  have "acc ins outs d s1" by (rule acc_same [OF assms(2) same])
  from acc_creator_ended [OF this, where i = i and outs' = "add_mset (tk_id task) outs" and st = "Cs_Error m" and E = E] P_finish_panic same usize
  show ?thesis by (simp add: pool_same_def)
next
  case (P_yield i st ts n y)
  then show ?thesis using acc_creator [OF assms(2) usize] by simp
next
  case (P_return i v)
  then show ?thesis using acc_creator_ended [OF assms(2) P_return(3) usize, where outs' = outs and st = "Cs_Complete v" and E = E] by simp
next
  case (P_abort i st m)
  then show ?thesis using acc_creator_ended [OF assms(2) P_abort(3) usize, where st = st and E = E] by auto
next
  case (P_drop i)
  with assms(2) flight_del_worker [OF P_drop(3)] del_worker_sel(3) [OF P_drop(3)] show ?thesis
    by (auto simp: pool_acc_def ac_simps)
qed

lemma acc_reach:
  assumes "pool_reach E M s0 evs s" and "acc {#} {#} 0 s0"
    and "length (concat (map ev_in evs)) < usize_max"
  shows "acc (mset (concat (map ev_in evs))) (mset (concat (map ev_out evs))) (sum_list (map ev_drop evs)) s"
  using assms
proof (induction rule: pool_reach.induct)
  case (reach_step evs s ev s')
  then show ?case using acc_step [OF reach_step(2)] by simp
qed simp

subsection \<open>The worker loop returns\<close>

lemma try_run_law:
  assumes "rq_inv (cp_task_queue (ps_pool s))" and "try_run E cur s = (r, s')"
  shows "r = Ok None \<or> r = Ok (Some ()) \<or> (\<exists>m. r = Panic m)"
    and "rq_inv (cp_task_queue (ps_pool s'))" "cp_running (ps_pool s') = cp_running (ps_pool s)"
    and "ps_current s' = ps_current s" "cp_state (ps_pool s') = cp_state (ps_pool s)"
    and "r = Ok None \<Longrightarrow> rq_items (cp_task_queue (ps_pool s)) = rq_items (cp_task_queue (ps_pool s'))
      \<and> cp_pop_fail_times (ps_pool s') = cp_pop_fail_times (ps_pool s)"
    and "r = Ok (Some ()) \<Longrightarrow>
      size (rq_items (cp_task_queue (ps_pool s))) = Suc (size (rq_items (cp_task_queue (ps_pool s'))))"
proof -
  from pop_law [OF assms(1)] obtain p q where
    pop: "rq_pop (pe_tq E) (cp_task_queue (ps_pool s)) = Some (p, q)" "rq_inv q"
      "rq_items (cp_task_queue (ps_pool s)) = rq_items q + mset_option p" by blast
  obtain st s1 where start: "try_run_start E cur s = Some (st, s1)"
    and s1: "cp_task_queue (ps_pool s1) = q" "cp_running (ps_pool s1) = cp_running (ps_pool s)"
      "ps_current s1 = ps_current s" "cp_state (ps_pool s1) = cp_state (ps_pool s)"
      "cp_pop_fail_times (ps_pool s1) = cp_pop_fail_times (ps_pool s)"
    and st: "st = S_none \<longleftrightarrow> p = None"
    by (cases p; cases cur; cases "tk_id (the p) \<in> ps_cancel_tasks s") (auto simp: try_run_start_def pop(1) Let_def)
  have fin: "cp_task_queue (ps_pool s2) = q \<and> cp_running (ps_pool s2) = cp_running (ps_pool s)
      \<and> ps_current s2 = ps_current s \<and> cp_state (ps_pool s2) = cp_state (ps_pool s) \<and> (r2 = Ok () \<or> (\<exists>m. r2 = Panic m))"
    if "try_run_finish tid res s1 = (r2, s2)" for tid res r2 s2
    using that s1
    by (auto simp: try_run_finish_def Let_def pool_notify_def split: if_splits option.splits)
  have "(r = Ok None \<and> st = S_none \<or> r = Ok (Some ()) \<and> st \<noteq> S_none \<or> (\<exists>m. r = Panic m)) \<and> cp_task_queue (ps_pool s') = q
      \<and> cp_running (ps_pool s') = cp_running (ps_pool s) \<and> ps_current s' = ps_current s
      \<and> cp_state (ps_pool s') = cp_state (ps_pool s) \<and> (st = S_none \<longrightarrow> s' = s1)"
  proof (cases st)
    case (S_task task)
    obtain r2 s2 where f: "try_run_finish (tk_id task) (snd (task_run (pe_call E) task)) s1 = (r2, s2)" by fastforce
    from fin [OF f] assms(2) start S_task f show ?thesis by (auto simp: try_run_def)
  qed (use assms(2) start s1 in \<open>auto simp: try_run_def\<close>)
  with st s1(5) pop(2,3) show "r = Ok None \<or> r = Ok (Some ()) \<or> (\<exists>m. r = Panic m)"
    "rq_inv (cp_task_queue (ps_pool s'))" "cp_running (ps_pool s') = cp_running (ps_pool s)"
    "ps_current s' = ps_current s" "cp_state (ps_pool s') = cp_state (ps_pool s)"
    "r = Ok None \<Longrightarrow> rq_items (cp_task_queue (ps_pool s)) = rq_items (cp_task_queue (ps_pool s'))
      \<and> cp_pop_fail_times (ps_pool s') = cp_pop_fail_times (ps_pool s)"
    "r = Ok (Some ()) \<Longrightarrow>
      size (rq_items (cp_task_queue (ps_pool s))) = Suc (size (rq_items (cp_task_queue (ps_pool s'))))"
    by auto
qed

lemma worker_loop_returns_aux:
  assumes "rq_inv (cp_task_queue (ps_pool s))" and "cp_running (ps_pool s) \<ge> 2 \<or> can_recycle (ps_pool s)"
    and "size (rq_items (cp_task_queue (ps_pool s))) + (if cp_pop_fail_times (ps_pool s) = 0 then 0 else 1) < fuel"
  shows "fst (worker_loop E fuel create_time cid s) \<noteq> Hang"
  using assms
proof (induction fuel arbitrary: s)
  case (Suc fuel)
  obtain r s1 where run: "try_run E (Some cid) s = (r, s1)" by fastforce
  note law = try_run_law [OF Suc.prems(1) run]
  have live: "cp_running (ps_pool s1) \<ge> 2 \<or> can_recycle (ps_pool s1)"
    using Suc.prems(2) law(3,5) by (simp add: can_recycle_def)
  consider "r = Ok None" | "r = Ok (Some ())" | m where "r = Panic m" using law(1) by blast
  then show ?case
  proof cases
    case 1
    obtain t s2 where n: "pool_now E s1 = (t, s2)" by fastforce
    have s2: "ps_pool s2 = ps_pool s1" using n by (auto simp: pool_now_def)
    define s3 where "s3 = on_pool (\<lambda>p. p\<lparr>cp_pop_fail_times := (cp_pop_fail_times p + 1) mod (usize_max + 1)\<rparr>) s2"
    define s4 where "s4 = reset_pop_fail_times (on_pool (\<lambda>p. p\<lparr>cp_blocker := snd (blocker_block False (cp_blocker p))\<rparr>) s3)"
    have ih: "cp_pop_fail_times (ps_pool s) \<noteq> 0 \<Longrightarrow> \<not> can_recycle (ps_pool s2) \<Longrightarrow> fst (worker_loop E fuel create_time cid s4) \<noteq> Hang"
    proof -
      assume a: "cp_pop_fail_times (ps_pool s) \<noteq> 0" "\<not> can_recycle (ps_pool s2)"
      have "rq_inv (cp_task_queue (ps_pool s4))" "cp_running (ps_pool s4) = cp_running (ps_pool s1)"
        "cp_pop_fail_times (ps_pool s4) = 0" "rq_items (cp_task_queue (ps_pool s4)) = rq_items (cp_task_queue (ps_pool s))"
        using law(2,6) 1 s2 by (simp_all add: s4_def s3_def reset_pop_fail_times_def)
      with Suc.IH [of s4] live a s2 Suc.prems(3) show ?thesis by simp
    qed
    have "cp_pop_fail_times (ps_pool s) = 0 \<Longrightarrow> cp_pop_fail_times (ps_pool s3) = 1"
      using law(6) 1 s2 by (simp add: s3_def usize_max_def)
    moreover have "worker_loop E (Suc fuel) create_time cid s =
        (if ps_current s = [] then (Panic ''current pool not found'', s)
         else if should_retire t create_time (ps_pool s2) then (Ok W_returned, s2)
         else if cp_pop_fail_times (ps_pool s3) < cp_running (ps_pool s2) then (Ok W_suspended, s3)
         else worker_loop E fuel create_time cid s4)"
      by (simp add: run 1 n s3_def s4_def Let_def)
    ultimately show ?thesis
      using ih live s2 by (cases "can_recycle (ps_pool s2)"; cases "cp_pop_fail_times (ps_pool s) = 0")
        (auto simp: should_retire_def simp del: worker_loop.simps)
  next
    case 2
    let ?s = "reset_pop_fail_times s1"
    have "fst (worker_loop E fuel create_time cid ?s) \<noteq> Hang"
      using Suc.IH [of ?s] law(2,7) 2 live Suc.prems(3)
      by (simp add: reset_pop_fail_times_def can_recycle_def split: if_splits)
    with run 2 show ?thesis by simp
  next
    case 3
    with run show ?thesis by simp
  qed
qed simp

end

section \<open>The pool on the ordered work-stealing queue\<close>

lemma olq_task_pool:
  assumes "deques W items J jitems retries" and "pe_tq E = olq_ready W J tk_priority random" and "M \<le> usize_max"
  shows "task_pool E (olq_inv jitems) (olq_items items jitems) M"
  using deques.as_ready_queue [OF assms(1), of tk_priority random] assms(2,3)
  by (intro task_pool.intro task_pool_axioms.intro) simp_all

text \<open>
  A pool to run: tasks that double their argument or panic, one handle of a queue with local
  capacity four, a clock that stands still, coroutines numbered from 100.
\<close>

type_synonym demo_tasks = "(nat \<times> bool task list, bool task list) owsq \<times> olq"

fun demo_call :: "bool \<Rightarrow> nat option \<Rightarrow> nat option call_end" where
  "demo_call f param = (if f then C_value (map_option (\<lambda>n. 2 * n) param) else C_panic None)"

definition demo_pool_env :: "(bool, demo_tasks) pool_env" where
  "demo_pool_env =
     \<lparr>pe_tq = olq_ready fifo_worker fifo_injector tk_priority (\<lambda>h. 0),
      pe_tq_size = \<lparr>tq_is_local_empty = (\<lambda>(s, h). olq_is_local_empty h), tq_is_global_empty = (\<lambda>(s, h). owsq_is_empty s),
        tq_len = (\<lambda>(s, h). olq_total_len fifo_worker s)\<rparr>,
      pe_call = demo_call, pe_clock = (\<lambda>n. 5), pe_hash = (\<lambda>name. of_nat (length name)),
      pe_uuid = (\<lambda>n. replicate n (CHR ''u'')), pe_spawn = (\<lambda>n. Some (100 + of_nat n)), pe_kill = (\<lambda>t. True)\<rparr>"

definition demo_tasks_of :: "bool task list \<Rightarrow> demo_tasks" where
  "demo_tasks_of tasks =
     (\<lparr>os_shared_queue = [], os_len = 0, os_local_capacity = 4, os_local_queues = [[(0, 4, tasks)]], os_index = 0\<rparr>,
      \<lparr>ol_tick = 0, ol_stealing = False, ol_queue = 0, ol_len = length tasks\<rparr>)"

definition demo_pool_sys :: "bool task list \<Rightarrow> (bool, demo_tasks) pool_sys" where
  "demo_pool_sys tasks =
     \<lparr>ps_pool = pool_new ''pool'' (demo_tasks_of tasks) 0 8 0,
      ps_workers = [], ps_running_tasks = [], ps_cancel_tasks = {}, ps_cancel_cos = {}, ps_running_cos = [],
      ps_signals = [], ps_arcs = [], ps_current = [], ps_reads = 0, ps_uuids = 0, ps_spawns = 0\<rparr>"

lemma demo_pool_tq: "pe_tq demo_pool_env = olq_ready fifo_worker fifo_injector tk_priority (\<lambda>h. 0)"
  by (simp add: demo_pool_env_def)

interpretation demo_pool: task_pool demo_pool_env "olq_inv (\<lambda>xs. xs)" "olq_items fifo_items (\<lambda>xs. xs)" usize_max
  by (rule olq_task_pool [OF fifo.deques_axioms demo_pool_tq]) simp

lemma demo_tasks_ok:
  "length tasks \<le> 4 \<Longrightarrow> olq_inv (\<lambda>xs. xs) (demo_tasks_of tasks)"
  "length tasks \<le> 4 \<Longrightarrow> olq_items fifo_items (\<lambda>xs. xs) (demo_tasks_of tasks) = mset tasks"
  by (auto simp: demo_tasks_of_def olq_inv_def owsq_ok_def owsq_wf_def owsq_len_ok_def olq_items_def owsq_bag_def
      locals_bag_def shared_entries_def sk_wf_def sk_entries_def fifo_items_def image_mset.compositionality o_def
      simp flip: mset_map)

lemma submit_task_Ok_running: "submit_task E name func param priority s = Ok v \<Longrightarrow> cp_state (ps_pool s) = Ps_Running"
  by (simp add: submit_task_def split: pool_state.splits)

subsection \<open>Delivering results\<close>

lemma try_run_finish_deliver:
  assumes "tid \<notin> cp_no_waits (ps_pool s)" and "map_of (cp_results (ps_pool s)) tid = None"
  shows "try_run_finish tid r s = (Ok (), pool_notify tid
    (on_pool (\<lambda>p. p\<lparr>cp_results := AList.update tid r (cp_results p)\<rparr>)
      (s\<lparr>ps_running_tasks := AList.delete tid (ps_running_tasks s)\<rparr>)))"
  using assms by (simp add: try_run_finish_def Let_def)

lemma notify_sel [simp]:
  "cp_results (ps_pool (pool_notify tid s)) = cp_results (ps_pool s)"
  "cp_state (ps_pool (pool_notify tid s)) = cp_state (ps_pool s)"
  "cp_waits (ps_pool (pool_notify tid s)) = AList.delete tid (cp_waits (ps_pool s))"
  "length (ps_arcs (pool_notify tid s)) = length (ps_arcs s)"
  by (auto simp: pool_notify_def map_of_eq_None_iff split: option.splits)

lemma notify_arc:
  "map_of (cp_waits (ps_pool s)) tid = Some arc \<Longrightarrow> arc < length (ps_arcs s) \<Longrightarrow>
     \<not> ps_arcs (pool_notify tid s) ! arc"
  by (simp add: pool_notify_def)

lemma notify_other:
  "\<not> ps_arcs s ! i \<Longrightarrow> i < length (ps_arcs s) \<Longrightarrow> \<not> ps_arcs (pool_notify tid s) ! i"
  by (cases "map_of (cp_waits (ps_pool s)) tid"; cases "the (map_of (cp_waits (ps_pool s)) tid) = i")
    (auto simp: pool_notify_def)

lemma wait_check_result: "fst (wait_check tid s) = map_of (cp_results (ps_pool s)) tid"
  by (simp add: wait_check_def try_take_task_result_def split: option.splits)

lemma do_clean_over_law:
  assumes "\<forall>(tid, arc)\<in>set (cp_waits (ps_pool s)). arc < length (ps_arcs s)"
    and "distinct (map fst (cp_waits (ps_pool s)))" and "cp_waits (ps_pool s) = ws"
  shows "cp_waits (ps_pool (do_clean_over (map fst ws) s)) = []
    \<and> (\<forall>(tid, arc)\<in>set ws. \<not> ps_arcs (do_clean_over (map fst ws) s) ! arc)
    \<and> (\<forall>tid\<in>set (map fst ws).
         map_of (cp_results (ps_pool (do_clean_over (map fst ws) s))) tid = Some (Err ''The coroutine pool has stopped''))
    \<and> (\<forall>i<length (ps_arcs s). \<not> ps_arcs s ! i \<longrightarrow> \<not> ps_arcs (do_clean_over (map fst ws) s) ! i)
    \<and> (\<forall>tid. tid \<notin> set (map fst ws) \<longrightarrow>
         map_of (cp_results (ps_pool (do_clean_over (map fst ws) s))) tid = map_of (cp_results (ps_pool s)) tid)
    \<and> cp_state (ps_pool (do_clean_over (map fst ws) s)) = cp_state (ps_pool s)"
  using assms
proof (induction ws arbitrary: s)
  case (Cons w ws)
  obtain tid arc where w: "w = (tid, arc)" by fastforce
  define s1 where "s1 = pool_notify tid (on_pool (\<lambda>p. p\<lparr>cp_results :=
       AList.update tid (Err ''The coroutine pool has stopped'') (cp_results p)\<rparr>) s)"
  have ws: "cp_waits (ps_pool s1) = ws"
    using Cons.prems(2,3) by (auto simp: s1_def w)
  have len: "length (ps_arcs s1) = length (ps_arcs s)" by (simp add: s1_def)
  have pre: "\<forall>(tid, arc)\<in>set (cp_waits (ps_pool s1)). arc < length (ps_arcs s1)"
    "distinct (map fst (cp_waits (ps_pool s1)))"
    using Cons.prems ws len by auto
  note IH = Cons.IH [OF pre ws]
  have "arc < length (ps_arcs s)" using Cons.prems(1,3) w by auto
  then have a: "\<not> ps_arcs s1 ! arc" "arc < length (ps_arcs s1)"
    using Cons.prems(3) w by (simp_all add: s1_def pool_notify_def)
  have old: "\<forall>i<length (ps_arcs s). \<not> ps_arcs s ! i \<longrightarrow> \<not> ps_arcs s1 ! i"
    unfolding s1_def by (intro allI impI notify_other) simp_all
  have res: "map_of (cp_results (ps_pool s1)) tid = Some (Err ''The coroutine pool has stopped'')"
    "\<And>t. t \<noteq> tid \<Longrightarrow> map_of (cp_results (ps_pool s1)) t = map_of (cp_results (ps_pool s)) t"
    "cp_state (ps_pool s1) = cp_state (ps_pool s)"
    by (simp_all add: s1_def AList.update_conv')
  have "tid \<notin> set (map fst ws)" using Cons.prems(2,3) w by auto
  moreover have "do_clean_over (map fst (w # ws)) s = do_clean_over (map fst ws) s1" by (simp add: w s1_def)
  ultimately show ?case using IH a old res len w by auto
qed simp

subsection \<open>A run of the demonstration pool\<close>

definition demo_task :: "bool task" where
  "demo_task = task_new (pe_hash demo_pool_env) ''job'' True (Some 21) None"

definition demo_p1 :: "(bool, demo_tasks) pool_sys" where
  "demo_p1 = (case submit_task demo_pool_env (Some ''job'') True (Some 21) None (demo_pool_sys []) of
     Ok (tid, s) \<Rightarrow> s | _ \<Rightarrow> demo_pool_sys [])"

definition demo_p2 :: "(bool, demo_tasks) pool_sys" where
  "demo_p2 = (snd (try_grow demo_pool_env demo_p1))\<lparr>ps_current := [''pool'']\<rparr>"

definition demo_p3 :: "(bool, demo_tasks) pool_sys" where
  "demo_p3 = (case try_run_start demo_pool_env (Some 100) demo_p2 of Some (r, s) \<Rightarrow> s | None \<Rightarrow> demo_p2)"

definition demo_p4 :: "(bool, demo_tasks) pool_sys" where
  "demo_p4 = snd (try_run_finish 3 (Ok (Some 42)) (set_worker 0 [demo_task] demo_p3))"

lemma demo_submitted: "submit_task demo_pool_env (Some ''job'') True (Some 21) None (demo_pool_sys []) = Ok (3, demo_p1)"
  by code_simp

lemma demo_entered:
  "(snd (try_grow demo_pool_env demo_p1))\<lparr>ps_current := cp_name (ps_pool (snd (try_grow demo_pool_env demo_p1)))
     # ps_current (snd (try_grow demo_pool_env demo_p1))\<rparr> = demo_p2"
  by code_simp

lemma demo_started:
  "ps_workers demo_p2 = [(100, \<lparr>pw_body = WB_loop 5, pw_tasks = []\<rparr>)]" "ps_current demo_p2 = [''pool'']"
  "try_run_start demo_pool_env (Some 100) demo_p2 = Some (S_task demo_task, demo_p3)"
  by code_simp+

lemma demo_finished:
  "ps_workers (set_worker 0 [demo_task] demo_p3) = [(100, \<lparr>pw_body = WB_loop 5, pw_tasks = [demo_task]\<rparr>)]"
  "try_run_finish 3 (Ok (Some 42)) (set_worker 0 [demo_task] demo_p3) = (Ok (), demo_p4)" "tk_id demo_task = 3"
  by code_simp+

lemma demo_pool_run:
  "pool_reach demo_pool_env usize_max (demo_pool_sys [])
     [Pv_submit 3, Pv_tau, Pv_tau, Pv_done 3] (reset_pop_fail_times (set_worker 0 [] demo_p4))"
proof -
  note run = reach_refl [of demo_pool_env usize_max "demo_pool_sys []"]
  note run = reach_step [OF run P_submit [OF demo_submitted]]
  note run = reach_step [OF run P_enter [of demo_pool_env demo_p1 "fst (try_grow demo_pool_env demo_p1)"
      "snd (try_grow demo_pool_env demo_p1)"], unfolded demo_entered]
  have "pool_step demo_pool_env usize_max demo_p2 Pv_tau (set_worker 0 [demo_task] demo_p3)"
    using P_start [of 0 demo_p2 demo_pool_env demo_task demo_p3 usize_max] demo_started by simp
  note run = reach_step [OF run this]
  have "pool_step demo_pool_env usize_max (set_worker 0 [demo_task] demo_p3) (Pv_done 3)
      (reset_pop_fail_times (set_worker 0 [] demo_p4))"
  proof -
    have "ps_current (set_worker 0 [demo_task] demo_p3) \<noteq> []" by code_simp
    then show ?thesis
      using P_finish [of 0 "set_worker 0 [demo_task] demo_p3" demo_task "[]" "Ok (Some 42)" "()" demo_p4
          demo_pool_env usize_max] demo_finished by simp
  qed
  from reach_step [OF run this] show ?thesis by simp
qed

section \<open>Properties\<close>



text \<open>
  C15. A task's result reaches who asks for it: if the queue hands out a task that is neither
  cancelled nor unwanted and has no result waiting, \<open>try_run\<close> runs it, the result it leaves is
  what the task returned (or the message of its panic), it can be taken exactly once, and the
  thread waiting for it is released.
\<close>

theorem task_result_delivered:
  assumes "rq_pop (pe_tq E) (cp_task_queue (ps_pool s)) = Some (Some task, q)"
    and "tk_id task \<notin> ps_cancel_tasks s" and "tk_id task \<notin> cp_no_waits (ps_pool s)"
    and "map_of (cp_results (ps_pool s)) (tk_id task) = None"
    and "map_of (cp_waits (ps_pool s)) (tk_id task) = Some arc" and "arc < length (ps_arcs s)"
  shows "\<exists>s' s''. try_run E current s = (Ok (Some ()), s')
    \<and> try_take_task_result (tk_id task) s' = (Some (snd (task_run (pe_call E) task)), s'')
    \<and> fst (try_take_task_result (tk_id task) s'') = None \<and> \<not> ps_arcs s' ! arc"
proof -
  obtain s1 where s1: "try_run_start E current s = Some (S_task task, s1)"
    "cp_results (ps_pool s1) = cp_results (ps_pool s)" "cp_waits (ps_pool s1) = cp_waits (ps_pool s)"
    "cp_no_waits (ps_pool s1) = cp_no_waits (ps_pool s)" "ps_arcs s1 = ps_arcs s"
    using assms(1,2) by (cases current) (auto simp: try_run_start_def Let_def)
  let ?r = "snd (task_run (pe_call E) task)"
  let ?s2 = "on_pool (\<lambda>p. p\<lparr>cp_results := AList.update (tk_id task) ?r (cp_results p)\<rparr>)
      (s1\<lparr>ps_running_tasks := AList.delete (tk_id task) (ps_running_tasks s1)\<rparr>)"
  have "try_run E current s = (Ok (Some ()), pool_notify (tk_id task) ?s2)"
    using try_run_finish_deliver [of "tk_id task" s1 ?r] s1 assms(3,4) by (simp add: try_run_def)
  moreover have "\<not> ps_arcs (pool_notify (tk_id task) ?s2) ! arc"
    using assms(5,6) s1 by (intro notify_arc) simp_all
  ultimately show ?thesis by (simp add: try_take_task_result_def AList.update_conv' AList.delete_conv')
qed

definition demo_waiting :: "(bool, demo_tasks) pool_sys" where
  "demo_waiting = snd (wait_register 3 (demo_pool_sys [demo_task]))"

lemma demo_waiting_pop:
  "\<exists>q. rq_pop (pe_tq demo_pool_env) (cp_task_queue (ps_pool demo_waiting)) = Some (Some demo_task, q)"
proof -
  have "map_option fst (rq_pop (pe_tq demo_pool_env) (cp_task_queue (ps_pool demo_waiting))) = Some (Some demo_task)"
    by code_simp
  then show ?thesis by auto
qed

theorem task_result_delivered_witness:
  "\<exists>s' s''. try_run demo_pool_env (Some 100) demo_waiting = (Ok (Some ()), s')
     \<and> try_take_task_result 3 s' = (Some (Ok (Some 42)), s'') \<and> \<not> ps_arcs s' ! 0"
proof -
  obtain q where q: "rq_pop (pe_tq demo_pool_env) (cp_task_queue (ps_pool demo_waiting)) = Some (Some demo_task, q)"
    using demo_waiting_pop by blast
  have facts: "tk_id demo_task \<notin> ps_cancel_tasks demo_waiting" "tk_id demo_task \<notin> cp_no_waits (ps_pool demo_waiting)"
    "map_of (cp_results (ps_pool demo_waiting)) (tk_id demo_task) = None"
    "map_of (cp_waits (ps_pool demo_waiting)) (tk_id demo_task) = Some 0" "0 < length (ps_arcs demo_waiting)"
    "snd (task_run (pe_call demo_pool_env) demo_task) = Ok (Some 42)"
    by code_simp+
  from task_result_delivered [OF q facts(1-5), of "Some 100"] show ?thesis
    using facts(6) demo_finished(3) by auto
qed





lemma do_clean_state: "do_clean b s = (r, s') \<Longrightarrow> cp_state (ps_pool s') = cp_state (ps_pool s)"
proof -
  have "cp_state (ps_pool (do_clean_over tids s)) = cp_state (ps_pool s)" for tids and s :: "('f, 'q) pool_sys"
    by (induction tids arbitrary: s) simp_all
  then show "do_clean b s = (r, s') \<Longrightarrow> cp_state (ps_pool s') = cp_state (ps_pool s)"
    by (auto simp: do_clean_def split: if_splits)
qed

text \<open>
  C18. Life cycle. If \<open>stop\<close> of a pool that is not stopped yet returns \<open>Ok\<close>, the pool is stopped, and from then on
  it refuses tasks and refuses to be scheduled.
\<close>

theorem stop_stops:
  assumes "pool_stop E run reentrant fuel dur s = (Ok (), s')"
  shows "cp_state (ps_pool s') = Ps_Stopped
    \<and> submit_task E name func param priority s' = Err EK_Other
    \<and> try_timeout_schedule_task E run timeout_time s' = (Err EK_Other, s')"
proof -
  have stop: "cp_state (ps_pool s') = Ps_Stopped" if "do_stop E run reentrant fuel dur s1 = (Ok (), s')" for s1
    using that
    by (auto simp: do_stop_def pool_stopped_def pool_change_state_def Let_def
        split: prod.splits rust.splits if_splits dest!: do_clean_state)
  have "cp_state (ps_pool s') = Ps_Stopped"
    using assms
    by (auto simp: pool_stop_def pool_stopping_def pool_change_state_def Let_def
        split: pool_state.splits prod.splits rust.splits if_splits dest: do_clean_state stop)
  then show ?thesis by (simp add: submit_task_def try_timeout_schedule_task_def)
qed

theorem stop_stops_witness:
  "\<exists>s'. pool_stop demo_pool_env (\<lambda>t s. (Ok 0, s)) True 1 0 (demo_pool_sys []) = (Ok (), s')
     \<and> cp_state (ps_pool s') = Ps_Stopped"
proof -
  let ?r = "pool_stop demo_pool_env (\<lambda>t s. (Ok 0, s)) True 1 0 (demo_pool_sys [])"
  have "fst ?r = Ok ()" by code_simp
  then have "?r = (Ok (), snd ?r)" by (simp add: prod_eq_iff)
  with stop_stops [OF this] show ?thesis by metis
qed

text \<open>
  C19. A worker gives the thread back: with two live workers, or when the pool is stopping, the
  worker loop returns or suspends after running at most the tasks that are queued and two more rounds,
  whatever the failure counter says.
\<close>

theorem worker_loop_returns:
  assumes "deques W items J jitems retries" and "pe_tq E = olq_ready W J tk_priority random"
    and "olq_inv jitems (cp_task_queue (ps_pool s))"
    and "cp_running (ps_pool s) \<ge> 2 \<or> can_recycle (ps_pool s)"
    and "size (olq_items items jitems (cp_task_queue (ps_pool s))) + 1 < fuel"
  shows "fst (worker_loop E fuel create_time cid s) \<noteq> Hang"
  using task_pool.worker_loop_returns_aux [OF olq_task_pool [OF assms(1,2), of 0] assms(3,4)] assms(5) by simp

theorem worker_loop_returns_witness:
  "fst (worker_loop demo_pool_env 3 0 100
     (on_pool (\<lambda>p. p\<lparr>cp_running := 2, cp_min_size := 2\<rparr>) (demo_pool_sys [demo_task]))) \<noteq> Hang"
  by (rule worker_loop_returns [OF fifo.deques_axioms demo_pool_tq])
    (simp_all add: demo_pool_sys_def pool_new_def demo_tasks_ok)

lemma lone_worker_spins:
  assumes dry: "\<And>q. q \<in> D \<Longrightarrow> \<exists>q'\<in>D. rq_pop (pe_tq E) q = Some (None, q')"
  shows "cp_task_queue (ps_pool s) \<in> D \<Longrightarrow> cp_state (ps_pool s) = Ps_Running \<Longrightarrow> cp_running (ps_pool s) = 1 \<Longrightarrow>
    1 \<le> cp_min_size (ps_pool s) \<Longrightarrow> cp_pop_fail_times (ps_pool s) = 0 \<Longrightarrow> ps_current s \<noteq> [] \<Longrightarrow>
    fst (worker_loop E fuel create_time cid s) = Hang"
proof (induction fuel arbitrary: s)
  case (Suc fuel)
  from dry [OF Suc.prems(1)] obtain q where q: "q \<in> D" "rq_pop (pe_tq E) (cp_task_queue (ps_pool s)) = Some (None, q)"
    by blast
  define s1 where "s1 = on_pool (\<lambda>p. p\<lparr>cp_task_queue := q\<rparr>) s"
  have run: "try_run E (Some cid) s = (Ok None, s1)" using q(2) by (simp add: try_run_def try_run_start_def s1_def)
  obtain t s2 where n: "pool_now E s1 = (t, s2)" by fastforce
  then have s2: "ps_pool s2 = ps_pool s1" "ps_current s2 = ps_current s1" by (auto simp: pool_now_def)
  define s4 where "s4 = reset_pop_fail_times (on_pool (\<lambda>p. p\<lparr>cp_blocker := snd (blocker_block False (cp_blocker p))\<rparr>)
     (on_pool (\<lambda>p. p\<lparr>cp_pop_fail_times := (cp_pop_fail_times p + 1) mod (usize_max + 1)\<rparr>) s2))"
  have "\<not> should_retire t create_time (ps_pool s2)"
    using Suc.prems s2 by (simp add: should_retire_def can_recycle_def s1_def)
  moreover have "\<not> cp_pop_fail_times (ps_pool (on_pool (\<lambda>p. p\<lparr>cp_pop_fail_times :=
      (cp_pop_fail_times p + 1) mod (usize_max + 1)\<rparr>) s2)) < cp_running (ps_pool s2)"
    using Suc.prems s2 by (simp add: s1_def usize_max_def)
  ultimately have "worker_loop E (Suc fuel) create_time cid s = worker_loop E fuel create_time cid s4"
    unfolding worker_loop.simps run n s4_def using Suc.prems(6) by (simp only: n prod.case rust.case option.case Let_def if_False)
  moreover have "fst (worker_loop E fuel create_time cid s4) = Hang"
    using Suc.prems s2 q(1) by (intro Suc.IH) (simp_all add: s4_def s1_def reset_pop_fail_times_def)
  ultimately show ?case by simp
qed simp

text \<open>
  A lone core worker never gives the thread back: when the minimum size keeps the only
  worker alive and no task comes, the loop of \<open>try_grow\<close> neither returns nor suspends, for any number
  of rounds: its failure counter reaches the number of workers at once, so it blocks for a millisecond
  and tries again. Only preemption from outside can take the thread from it.
\<close>

lemma lone_core_worker_spins:
  assumes "deques W items J jitems retries" and "pe_tq E = olq_ready W J tk_priority random"
    and "olq_inv jitems (cp_task_queue (ps_pool s))" and "olq_items items jitems (cp_task_queue (ps_pool s)) = {#}"
    and "cp_state (ps_pool s) = Ps_Running" and "cp_running (ps_pool s) = 1" and "1 \<le> cp_min_size (ps_pool s)"
    and "cp_pop_fail_times (ps_pool s) = 0" and "ps_current s \<noteq> []"
  shows "fst (worker_loop E fuel create_time cid s) = Hang"
proof (rule lone_worker_spins [where D = "{q. olq_inv jitems q \<and> olq_items items jitems q = {#}}"])
  fix q
  assume "q \<in> {q. olq_inv jitems q \<and> olq_items items jitems q = {#}}"
  with ready_queue.pop_law [OF deques.as_ready_queue [OF assms(1), of tk_priority random], of q] assms(2)
  show "\<exists>q'\<in>{q. olq_inv jitems q \<and> olq_items items jitems q = {#}}. rq_pop (pe_tq E) q = Some (None, q')"
    by (auto simp: mset_option_def split: option.splits)
qed (use assms in simp_all)

lemma lone_core_worker_spins_witness:
  "fst (worker_loop demo_pool_env 1000 0 100
     ((on_pool (\<lambda>p. p\<lparr>cp_running := 1, cp_min_size := 1\<rparr>) (demo_pool_sys []))\<lparr>ps_current := [''pool'']\<rparr>)) = Hang"
  by (rule lone_core_worker_spins [OF fifo.deques_axioms demo_pool_tq])
    (simp_all add: demo_pool_sys_def pool_new_def demo_tasks_ok)

end
