(* ===== verification/OC_Event_Loops.thy ===== *)
theory OC_Event_Loops
  imports OC_Co_Pool
begin

text \<open>
  The life cycle of an event loop (\<^verbatim>\<open>core/src/net/event_loop.rs\<close>: scheduling between waits, starting,
  stopping), the manager of all loops (\<^verbatim>\<open>core/src/net/mod.rs\<close>), join handles (\<^verbatim>\<open>core/src/net/join.rs\<close>) and
  the C interface to them (\<^verbatim>\<open>hook/src/lib.rs\<close>). An event loop is its pool (\<open>OC_Co_Pool\<close>) plus flags. The
  wait for events is modelled in \<open>OC_Event_Loop\<close>; here it is an argument, a function of the pool, because
  the coroutines that run meanwhile change the pool.
\<close>

section \<open>One event loop\<close>

text \<open>
  \<open>lp_stop\<close> is the flag behind \<open>stop\<close>: it is up while the thread runs. The two beans are the loop itself
  and the handle of its thread.
\<close>

record ('f, 'q) loop_sys =
  lp_pool :: "('f, 'q) pool_sys"
  lp_stop :: bool
  lp_bean :: bool
  lp_thread_bean :: bool

type_synonym ('f, 'q) pool_wait = "nat option \<Rightarrow> ('f, 'q) pool_sys \<Rightarrow> (error_kind, unit) rust \<times> ('f, 'q) pool_sys"

definition loop_new :: "('f, 'q) pool_sys \<Rightarrow> ('f, 'q) loop_sys" where
  "loop_new p = \<lparr>lp_pool = p, lp_stop = False, lp_bean = False, lp_thread_bean = False\<rparr>"

text \<open>\<open>in_co\<close> says whether the caller is a coroutine.\<close>

definition loop_wait_event ::
  "('f, 'q) pool_env \<Rightarrow> ('f, 'q) pool_run \<Rightarrow> ('f, 'q) pool_wait \<Rightarrow> bool \<Rightarrow> nat option \<Rightarrow> ('f, 'q) pool_sys
    \<Rightarrow> (error_kind, unit) rust \<times> ('f, 'q) pool_sys" where
  "loop_wait_event E run wait in_co timeout s =
     (if in_co then wait timeout s
      else case timeout of
        Some time \<Rightarrow>
          (case try_timed_schedule_task E run time s of
             (Ok left, s1) \<Rightarrow> wait (Some (unat left)) s1
           | (Err e, s1) \<Rightarrow> (Err e, s1)
           | (Panic m, s1) \<Rightarrow> (Panic m, s1)
           | (Hang, s1) \<Rightarrow> (Hang, s1))
      | None \<Rightarrow>
          (case try_schedule_task E run s of
             (Ok u, s1) \<Rightarrow> wait None s1
           | (Err e, s1) \<Rightarrow> (Err e, s1)
           | (Panic m, s1) \<Rightarrow> (Panic m, s1)
           | (Hang, s1) \<Rightarrow> (Hang, s1)))"

definition loop_idle :: "('f, 'q) pool_env \<Rightarrow> ('f, 'q) pool_sys \<Rightarrow> bool" where
  "loop_idle E s \<longleftrightarrow> pool_is_local_empty E (ps_pool s) \<and> cp_running (ps_pool s) = 0"

subsection \<open>Stopping a loop without a thread\<close>

text \<open>\<open>assert_eq!(PoolState::Stopping, self.stopped()?)\<close>, and its counterpart for \<open>stopping\<close>.\<close>

definition loop_stopped :: "('f, 'q) pool_sys \<Rightarrow> (error_kind, unit) rust \<times> ('f, 'q) pool_sys" where
  "loop_stopped s =
     (case pool_stopped (ps_pool s) of
        (Ok old, p) \<Rightarrow> (if old = Ps_Stopping then Ok () else Panic ''assert_eq'', s\<lparr>ps_pool := p\<rparr>)
      | (Err e, p) \<Rightarrow> (Err e, s)
      | (Panic m, p) \<Rightarrow> (Panic m, s)
      | (Hang, p) \<Rightarrow> (Hang, s))"

definition loop_stopping :: "('f, 'q) pool_sys \<Rightarrow> (error_kind, unit) rust \<times> ('f, 'q) pool_sys" where
  "loop_stopping s =
     (case pool_stopping (ps_pool s) of
        (Ok old, p) \<Rightarrow> (if old = Ps_Running then Ok () else Panic ''assert_eq'', s\<lparr>ps_pool := p\<rparr>)
      | (Err e, p) \<Rightarrow> (Err e, s)
      | (Panic m, p) \<Rightarrow> (Panic m, s)
      | (Hang, p) \<Rightarrow> (Hang, s))"

fun do_stop_sync_loop ::
  "('f, 'q) pool_env \<Rightarrow> ('f, 'q) pool_run \<Rightarrow> ('f, 'q) pool_wait \<Rightarrow> bool \<Rightarrow> nat \<Rightarrow> u64 \<Rightarrow> ('f, 'q) pool_sys
    \<Rightarrow> (error_kind, unit) rust \<times> ('f, 'q) pool_sys" where
  "do_stop_sync_loop E run wait in_co 0 timeout_time s = (Hang, s)"
| "do_stop_sync_loop E run wait in_co (Suc fuel) timeout_time s =
     (case pool_now E s of (t, s1) \<Rightarrow>
        let left_time = sat_sub timeout_time t
        in if left_time = 0 then (Err EK_TimedOut, s1)
           else case loop_wait_event E run wait in_co (Some (min (unat left_time) SLICE)) s1 of
             (Ok u, s2) \<Rightarrow>
               (if loop_idle E s2 then loop_stopped s2
                else do_stop_sync_loop E run wait in_co fuel timeout_time s2)
           | rs \<Rightarrow> rs)"

definition do_stop_sync ::
  "('f, 'q) pool_env \<Rightarrow> ('f, 'q) pool_run \<Rightarrow> ('f, 'q) pool_wait \<Rightarrow> bool \<Rightarrow> nat \<Rightarrow> nat \<Rightarrow> ('f, 'q) pool_sys
    \<Rightarrow> (error_kind, unit) rust \<times> ('f, 'q) pool_sys" where
  "do_stop_sync E run wait in_co fuel wait_time s =
     (case pool_now E s of (t, s1) \<Rightarrow>
        do_stop_sync_loop E run wait in_co fuel (get_timeout_time t wait_time) s1)"

definition stop_sync ::
  "('f, 'q) pool_env \<Rightarrow> ('f, 'q) pool_run \<Rightarrow> ('f, 'q) pool_wait \<Rightarrow> bool \<Rightarrow> nat \<Rightarrow> nat \<Rightarrow> ('f, 'q) pool_sys
    \<Rightarrow> (error_kind, unit) rust \<times> ('f, 'q) pool_sys" where
  "stop_sync E run wait in_co fuel wait_time s =
     (case cp_state (ps_pool s) of
        Ps_Running \<Rightarrow>
          (case loop_stopping s of
             (Ok u, s1) \<Rightarrow> do_stop_sync E run wait in_co fuel wait_time s1
           | rs \<Rightarrow> rs)
      | Ps_Stopping \<Rightarrow> do_stop_sync E run wait in_co fuel wait_time s
      | Ps_Stopped \<Rightarrow> (Ok (), s))"

definition loop_drop ::
  "('f, 'q) pool_env \<Rightarrow> ('f, 'q) pool_run \<Rightarrow> ('f, 'q) pool_wait \<Rightarrow> bool \<Rightarrow> nat \<Rightarrow> bool \<Rightarrow> ('f, 'q) pool_sys
    \<Rightarrow> (error_kind, unit) rust \<times> ('f, 'q) pool_sys" where
  "loop_drop E run wait in_co fuel panicking s =
     (if panicking then (Ok (), s)
      else case stop_sync E run wait in_co fuel (30 * 10 ^ 9) s of
        (Ok u, s1) \<Rightarrow> (if cp_state (ps_pool s1) = Ps_Stopped then Ok () else Panic ''The event-loop is not stopped !'', s1)
      | (Err e, s1) \<Rightarrow> (Panic ''Failed to stop event-loop'', s1)
      | rs \<Rightarrow> rs)"

subsection \<open>A loop with a thread\<close>

text \<open>
  \<open>start\<close>: the flag goes up and the beans are registered, unless there are some under these names; the
  thread is spawned. The thread counts itself, runs until the pool is stopping and empty, and takes
  the flag down and itself from the count. \<open>shared\<close> is the counter all loops of a manager share.
\<close>

definition loop_start :: "('f, 'q) loop_sys \<Rightarrow> ('f, 'q) loop_sys" where
  "loop_start l = l\<lparr>lp_stop := True, lp_bean := True, lp_thread_bean := True\<rparr>"

definition thread_begin :: "nat \<Rightarrow> nat" where
  "thread_begin shared = (shared + 1) mod (usize_max + 1)"

fun thread_loop ::
  "('f, 'q) pool_env \<Rightarrow> ('f, 'q) pool_run \<Rightarrow> ('f, 'q) pool_wait \<Rightarrow> nat \<Rightarrow> ('f, 'q) pool_sys
    \<Rightarrow> (error_kind, unit) rust \<times> ('f, 'q) pool_sys" where
  "thread_loop E run wait 0 s = (Hang, s)"
| "thread_loop E run wait (Suc fuel) s =
     (if cp_state (ps_pool s) = Ps_Running \<or> \<not> loop_idle E s
      then case loop_wait_event E run wait False (Some SLICE) s of
             (Panic m, s1) \<Rightarrow> (Panic m, s1)
           | (Hang, s1) \<Rightarrow> (Hang, s1)
           | (_, s1) \<Rightarrow> thread_loop E run wait fuel s1
      else (Ok (), s))"

definition thread_main ::
  "('f, 'q) pool_env \<Rightarrow> ('f, 'q) pool_run \<Rightarrow> ('f, 'q) pool_wait \<Rightarrow> nat \<Rightarrow> nat \<Rightarrow> ('f, 'q) loop_sys
    \<Rightarrow> (error_kind, unit) rust \<times> nat \<times> ('f, 'q) loop_sys" where
  "thread_main E run wait fuel shared l =
     (case thread_loop E run wait fuel (lp_pool l) of
        (Ok u, p) \<Rightarrow> (Ok (), (shared + usize_max) mod (usize_max + 1), l\<lparr>lp_pool := p, lp_stop := False\<rparr>)
      | (r, p) \<Rightarrow> (r, shared, l\<lparr>lp_pool := p\<rparr>))"

text \<open>\<open>meanwhile\<close> is what other threads do during the wait on the condition variable.\<close>

definition loop_do_stop ::
  "(('f, 'q) loop_sys \<Rightarrow> ('f, 'q) loop_sys) \<Rightarrow> ('f, 'q) loop_sys \<Rightarrow> (error_kind, unit) rust \<times> ('f, 'q) loop_sys" where
  "loop_do_stop meanwhile l =
     (let l1 = meanwhile l
      in if lp_stop l1 then (Err EK_TimedOut, l1)
         else case loop_stopped (lp_pool l1) of
           (Ok u, p) \<Rightarrow>
             (if lp_bean l1 then Ok () else Panic ''assertion failed'', l1\<lparr>lp_pool := p, lp_bean := False\<rparr>)
         | (r, p) \<Rightarrow> (r, l1\<lparr>lp_pool := p\<rparr>))"

definition loop_stop ::
  "(('f, 'q) loop_sys \<Rightarrow> ('f, 'q) loop_sys) \<Rightarrow> ('f, 'q) loop_sys \<Rightarrow> (error_kind, unit) rust \<times> ('f, 'q) loop_sys" where
  "loop_stop meanwhile l =
     (case cp_state (ps_pool (lp_pool l)) of
        Ps_Running \<Rightarrow>
          (if lp_thread_bean l
           then case loop_stopping (lp_pool l) of
                  (Ok u, p) \<Rightarrow> loop_do_stop meanwhile (l\<lparr>lp_thread_bean := False, lp_pool := p\<rparr>)
                | (r, p) \<Rightarrow> (r, l\<lparr>lp_thread_bean := False, lp_pool := p\<rparr>)
           else (Err EK_Unsupported, l))
      | Ps_Stopping \<Rightarrow> loop_do_stop meanwhile l
      | Ps_Stopped \<Rightarrow> (Ok (), l))"

section \<open>The manager\<close>

record ('f, 'q) event_loops =
  ms_index :: nat
  ms_loops :: "('f, 'q) loop_sys list"
  ms_shared :: nat

definition loops_new :: "nat \<Rightarrow> (nat \<Rightarrow> ('f, 'q) pool_sys) \<Rightarrow> ('f, 'q) event_loops" where
  "loops_new event_loop_size pool =
     \<lparr>ms_index = 0, ms_loops = map (\<lambda>i. loop_start (loop_new (pool i))) [0..<event_loop_size], ms_shared = 0\<rparr>"

text \<open>The static \<open>OnceCell\<close>: the first \<open>init\<close> wins.\<close>

definition loops_init :: "nat \<Rightarrow> (nat \<Rightarrow> ('f, 'q) pool_sys) \<Rightarrow> ('f, 'q) event_loops option \<Rightarrow> ('f, 'q) event_loops option" where
  "loops_init event_loop_size pool inst =
     (case inst of Some m \<Rightarrow> Some m | None \<Rightarrow> Some (loops_new event_loop_size pool))"

definition round_robin :: "('f, 'q) event_loops \<Rightarrow> (error_kind, nat) rust \<times> ('f, 'q) event_loops" where
  "round_robin m =
     (let i = ms_index m; m1 = m\<lparr>ms_index := (i + 1) mod (usize_max + 1)\<rparr>
      in if ms_loops m = [] then (Panic ''attempt to calculate the remainder with a divisor of zero'', m1)
         else (Ok (i mod length (ms_loops m)), m1))"

text \<open>\<open>event_loop()\<close> prefers the loop of the current thread.\<close>

definition event_loop :: "nat option \<Rightarrow> ('f, 'q) event_loops \<Rightarrow> (error_kind, nat) rust \<times> ('f, 'q) event_loops" where
  "event_loop current m = (case current of Some i \<Rightarrow> (Ok i, m) | None \<Rightarrow> round_robin m)"

definition on_loop :: "nat \<Rightarrow> ('f, 'q) pool_sys \<Rightarrow> ('f, 'q) event_loops \<Rightarrow> ('f, 'q) event_loops" where
  "on_loop i p m = m\<lparr>ms_loops := (ms_loops m)[i := (ms_loops m ! i)\<lparr>lp_pool := p\<rparr>]\<rparr>"

record join_handle =
  jh_loop :: nat
  jh_task :: u64

definition loops_submit_task ::
  "('f, 'q) pool_env \<Rightarrow> string option \<Rightarrow> 'f \<Rightarrow> nat option \<Rightarrow> int option \<Rightarrow> ('f, 'q) event_loops
    \<Rightarrow> (error_kind, join_handle) rust \<times> ('f, 'q) event_loops" where
  "loops_submit_task E name func param priority m =
     (case round_robin m of
        (Ok i, m1) \<Rightarrow>
          (case submit_task E name func param priority (lp_pool (ms_loops m1 ! i)) of
             Ok (tid, p) \<Rightarrow> (Ok \<lparr>jh_loop = i, jh_task = tid\<rparr>, on_loop i p m1)
           | Err e \<Rightarrow> (Ok \<lparr>jh_loop = i, jh_task = 0\<rparr>, m1)
           | Panic msg \<Rightarrow> (Panic msg, m1)
           | Hang \<Rightarrow> (Hang, m1))
      | (Err e, m1) \<Rightarrow> (Err e, m1)
      | (Panic msg, m1) \<Rightarrow> (Panic msg, m1)
      | (Hang, m1) \<Rightarrow> (Hang, m1))"

definition loops_submit_co ::
  "('f, 'q) pool_env \<Rightarrow> ('f, 'q) event_loops \<Rightarrow> (error_kind, unit) rust \<times> ('f, 'q) event_loops" where
  "loops_submit_co E m =
     (case round_robin m of
        (Ok i, m1) \<Rightarrow>
          (case pool_submit_co E WB_user (lp_pool (ms_loops m1 ! i)) of (r, p) \<Rightarrow> (r, on_loop i p m1))
      | (Err e, m1) \<Rightarrow> (Err e, m1)
      | (Panic msg, m1) \<Rightarrow> (Panic msg, m1)
      | (Hang, m1) \<Rightarrow> (Hang, m1))"

text \<open>
  \<open>stop\<close>: every loop is asked to stop with a zero timeout and its answer is ignored; then the thread waits
  until all loop threads have left. \<open>meanwhile i\<close> is what happens during the \<open>i\<close>-th zero wait, \<open>leave\<close> what
  happens during the last one. (With the feature \<open>preemptive\<close> a success also stops the monitor, see
  \<open>monitor_stop\<close> of \<open>OC_Monitor\<close>.)
\<close>

fun stop_each ::
  "(nat \<Rightarrow> ('f, 'q) loop_sys \<Rightarrow> ('f, 'q) loop_sys) \<Rightarrow> nat \<Rightarrow> ('f, 'q) loop_sys list
    \<Rightarrow> (error_kind, unit) rust \<times> ('f, 'q) loop_sys list" where
  "stop_each meanwhile i [] = (Ok (), [])"
| "stop_each meanwhile i (l # ls) =
     (case loop_stop (meanwhile i) l of
        (Panic m, l1) \<Rightarrow> (Panic m, l1 # ls)
      | (Hang, l1) \<Rightarrow> (Hang, l1 # ls)
      | (_, l1) \<Rightarrow> (case stop_each meanwhile (Suc i) ls of (r, ls1) \<Rightarrow> (r, l1 # ls1)))"

definition loops_stop ::
  "(nat \<Rightarrow> ('f, 'q) loop_sys \<Rightarrow> ('f, 'q) loop_sys) \<Rightarrow> (('f, 'q) event_loops \<Rightarrow> ('f, 'q) event_loops)
    \<Rightarrow> ('f, 'q) event_loops option \<Rightarrow> (error_kind, unit) rust \<times> ('f, 'q) event_loops option" where
  "loops_stop meanwhile leave inst =
     (case inst of
        None \<Rightarrow> (Ok (), None)
      | Some m \<Rightarrow>
          (case stop_each meanwhile 0 (ms_loops m) of
             (Ok u, ls) \<Rightarrow>
               (let m1 = leave (m\<lparr>ms_loops := ls\<rparr>)
                in (if ms_shared m1 > 0 then Err EK_TimedOut else Ok (), Some m1))
           | (r, ls) \<Rightarrow> (r, Some (m\<lparr>ms_loops := ls\<rparr>))))"

section \<open>Join handles\<close>

definition jh_id :: "join_handle \<Rightarrow> (error_kind, u64) rust" where
  "jh_id h = (if jh_task h = 0 then Err EK_InvalidInput else Ok (jh_task h))"

text \<open>
  The arguments \<open>fuel\<close>, \<open>current\<close>, \<open>between\<close> and \<open>meanwhile\<close> are those of \<open>wait_task_result\<close>.
\<close>

definition timeout_at_join ::
  "('f, 'q) pool_env \<Rightarrow> nat \<Rightarrow> u64 option \<Rightarrow> (('f, 'q) pool_sys \<Rightarrow> ('f, 'q) pool_sys)
    \<Rightarrow> (nat \<Rightarrow> ('f, 'q) pool_sys \<Rightarrow> ('f, 'q) pool_sys) \<Rightarrow> u64 \<Rightarrow> join_handle \<Rightarrow> ('f, 'q) pool_sys
    \<Rightarrow> (error_kind, task_result) rust \<times> ('f, 'q) pool_sys" where
  "timeout_at_join E fuel current between meanwhile timeout_time h s =
     (case jh_id h of
        Ok tid \<Rightarrow>
          (case pool_now E s of (t, s1) \<Rightarrow>
             wait_task_result E fuel current between meanwhile tid (unat (sat_sub timeout_time t)) s1)
      | Err e \<Rightarrow> (Err e, s)
      | Panic m \<Rightarrow> (Panic m, s)
      | Hang \<Rightarrow> (Hang, s))"

definition timeout_join ::
  "('f, 'q) pool_env \<Rightarrow> nat \<Rightarrow> u64 option \<Rightarrow> (('f, 'q) pool_sys \<Rightarrow> ('f, 'q) pool_sys)
    \<Rightarrow> (nat \<Rightarrow> ('f, 'q) pool_sys \<Rightarrow> ('f, 'q) pool_sys) \<Rightarrow> nat \<Rightarrow> join_handle \<Rightarrow> ('f, 'q) pool_sys
    \<Rightarrow> (error_kind, task_result) rust \<times> ('f, 'q) pool_sys" where
  "timeout_join E fuel current between meanwhile dur h s =
     (case pool_now E s of (t, s1) \<Rightarrow> timeout_at_join E fuel current between meanwhile (get_timeout_time t dur) h s1)"

definition join ::
  "('f, 'q) pool_env \<Rightarrow> nat \<Rightarrow> u64 option \<Rightarrow> (('f, 'q) pool_sys \<Rightarrow> ('f, 'q) pool_sys)
    \<Rightarrow> (nat \<Rightarrow> ('f, 'q) pool_sys \<Rightarrow> ('f, 'q) pool_sys) \<Rightarrow> join_handle \<Rightarrow> ('f, 'q) pool_sys
    \<Rightarrow> (error_kind, task_result) rust \<times> ('f, 'q) pool_sys" where
  "join E fuel current between meanwhile h s = timeout_at_join E fuel current between meanwhile u64_max h s"

definition jh_drop :: "join_handle \<Rightarrow> ('f, 'q) pool_sys \<Rightarrow> ('f, 'q) pool_sys" where
  "jh_drop h s = (case jh_id h of Ok tid \<Rightarrow> clean_task_result tid s | _ \<Rightarrow> s)"

section \<open>The C interface\<close>

text \<open>A result as the C caller sees it: \<open>c_longlong::try_from\<close> of the value, 0 for no value, -1 for every failure.\<close>

definition c_result :: "(error_kind, task_result) rust \<Rightarrow> (unit, int) rust" where
  "c_result r =
     (case r of
        Ok (Ok (Some ptr)) \<Rightarrow> (if ptr < 2 ^ 63 then Ok (int ptr) else Panic ''overflow'')
      | Ok (Ok None) \<Rightarrow> Ok 0
      | Ok (Panic m) \<Rightarrow> Panic m
      | Ok Hang \<Rightarrow> Hang
      | Ok (Err m) \<Rightarrow> Ok (- 1)
      | Err e \<Rightarrow> Ok (- 1)
      | Panic m \<Rightarrow> Panic m
      | Hang \<Rightarrow> Hang)"

definition task_join ::
  "('f, 'q) pool_env \<Rightarrow> nat \<Rightarrow> u64 option \<Rightarrow> (('f, 'q) pool_sys \<Rightarrow> ('f, 'q) pool_sys)
    \<Rightarrow> (nat \<Rightarrow> ('f, 'q) pool_sys \<Rightarrow> ('f, 'q) pool_sys) \<Rightarrow> join_handle \<Rightarrow> ('f, 'q) pool_sys
    \<Rightarrow> (unit, int) rust \<times> ('f, 'q) pool_sys" where
  "task_join E fuel current between meanwhile h s =
     (case join E fuel current between meanwhile h s of (r, s1) \<Rightarrow> (c_result r, s1))"

definition task_timeout_join ::
  "('f, 'q) pool_env \<Rightarrow> nat \<Rightarrow> u64 option \<Rightarrow> (('f, 'q) pool_sys \<Rightarrow> ('f, 'q) pool_sys)
    \<Rightarrow> (nat \<Rightarrow> ('f, 'q) pool_sys \<Rightarrow> ('f, 'q) pool_sys) \<Rightarrow> u64 \<Rightarrow> join_handle \<Rightarrow> ('f, 'q) pool_sys
    \<Rightarrow> (unit, int) rust \<times> ('f, 'q) pool_sys" where
  "task_timeout_join E fuel current between meanwhile ns_time h s =
     (case timeout_join E fuel current between meanwhile (unat ns_time) h s of (r, s1) \<Rightarrow> (c_result r, s1))"

definition task_cancel :: "('f, 'q) pool_env \<Rightarrow> join_handle \<Rightarrow> ('f, 'q) pool_sys \<Rightarrow> int \<times> ('f, 'q) pool_sys" where
  "task_cancel E h s = (case jh_id h of Ok tid \<Rightarrow> (0, try_cancel_task E tid s) | _ \<Rightarrow> (- 1, s))"

text \<open>\<open>task_crate\<close> passes the parameter and the priority on; the C function is given 0 for a missing parameter.\<close>

definition c_task :: "(nat \<Rightarrow> nat) \<Rightarrow> nat option \<Rightarrow> nat option" where
  "c_task f p = Some (f (case p of None \<Rightarrow> 0 | Some v \<Rightarrow> v))"

definition task_crate ::
  "('f, 'q) pool_env \<Rightarrow> 'f \<Rightarrow> nat \<Rightarrow> int \<Rightarrow> ('f, 'q) event_loops
    \<Rightarrow> (error_kind, join_handle) rust \<times> ('f, 'q) event_loops" where
  "task_crate E f param priority m = loops_submit_task E None f (Some param) (Some priority) m"

definition open_coroutine_stop ::
  "(nat \<Rightarrow> ('f, 'q) loop_sys \<Rightarrow> ('f, 'q) loop_sys) \<Rightarrow> (('f, 'q) event_loops \<Rightarrow> ('f, 'q) event_loops)
    \<Rightarrow> ('f, 'q) event_loops option \<Rightarrow> (unit, int) rust \<times> ('f, 'q) event_loops option" where
  "open_coroutine_stop meanwhile leave inst =
     (case loops_stop meanwhile leave inst of
        (Ok u, i) \<Rightarrow> (Ok 0, i)
      | (Err e, i) \<Rightarrow> (Ok (- 1), i)
      | (Panic m, i) \<Rightarrow> (Panic m, i)
      | (Hang, i) \<Rightarrow> (Hang, i))"

text \<open>\<open>open_coroutine_init\<close>: the loops, and the switch \<open>HOOK\<close>, which only the first call sets.\<close>

definition open_coroutine_init ::
  "config \<Rightarrow> (nat \<Rightarrow> ('f, 'q) pool_sys) \<Rightarrow> ('f, 'q) event_loops option \<times> bool option
    \<Rightarrow> int \<times> ('f, 'q) event_loops option \<times> bool option" where
  "open_coroutine_init config pool st =
     (case st of (inst, hook) \<Rightarrow>
        (0, loops_init (cf_event_loop_size config) pool inst, Some (case hook of Some h \<Rightarrow> h | None \<Rightarrow> cf_hook config)))"

definition hook_on :: "bool option \<Rightarrow> bool" where
  "hook_on hook = (case hook of None \<Rightarrow> False | Some v \<Rightarrow> v)"

text \<open>\<open>impl_hook\<close>: which function a hooked symbol calls.\<close>

definition hooked :: "bool option \<Rightarrow> bool \<Rightarrow> bool \<Rightarrow> 'a \<Rightarrow> 'a \<Rightarrow> 'a" where
  "hooked hook in_co ci through raw = (if hook_on hook \<or> in_co \<or> ci then through else raw)"

definition maybe_grow_stack ::
  "nat \<Rightarrow> (nat \<Rightarrow> nat \<Rightarrow> (error_kind, nat) rust) \<Rightarrow> nat \<Rightarrow> nat \<Rightarrow> (unit, int) rust" where
  "maybe_grow_stack default_zone grow red_zone stack_size =
     (case grow (if red_zone > 0 then red_zone else default_zone)
             (if stack_size > 0 then stack_size else DEFAULT_STACK_SIZE) of
        Ok r \<Rightarrow> (if r < 2 ^ 63 then Ok (int r) else Panic ''overflow'')
      | Err e \<Rightarrow> Ok (- 1)
      | Panic m \<Rightarrow> Panic m
      | Hang \<Rightarrow> Hang)"

section \<open>Lemmas\<close>

text \<open>An operation on the pool that answers, reads the clock but does not rewind it, and leaves the life cycle alone.\<close>

definition pool_answers ::
  "(('f, 'q) pool_sys \<Rightarrow> (error_kind, 'a) rust \<times> ('f, 'q) pool_sys) \<Rightarrow> bool" where
  "pool_answers f \<longleftrightarrow> (\<forall>s. \<exists>r s'. f s = (r, s') \<and> ((\<exists>a. r = Ok a) \<or> (\<exists>e. r = Err e)) \<and> ps_reads s \<le> ps_reads s'
     \<and> cp_state (ps_pool s') = cp_state (ps_pool s))"

lemma pool_answersE:
  assumes "pool_answers f"
  obtains a s' where "f s = (Ok a, s')" "ps_reads s \<le> ps_reads s'" "cp_state (ps_pool s') = cp_state (ps_pool s)"
  | e s' where "f s = (Err e, s')" "ps_reads s \<le> ps_reads s'" "cp_state (ps_pool s') = cp_state (ps_pool s)"
  using assms unfolding pool_answers_def by metis

lemma submit_co_frame:
  "ps_reads (snd (pool_submit_co E body s)) = ps_reads s"
  "cp_state (ps_pool (snd (pool_submit_co E body s))) = cp_state (ps_pool s)"
  by (auto simp: pool_submit_co_def Let_def split: option.splits)

lemma try_grow_frame:
  "ps_reads s \<le> ps_reads (snd (try_grow E s))" "cp_state (ps_pool (snd (try_grow E s))) = cp_state (ps_pool s)"
  by (auto simp: try_grow_def pool_now_def submit_co_frame)

lemma schedule_answers:
  assumes "\<And>t. pool_answers (run t)"
  shows "pool_answers (try_timeout_schedule_task E run t)"
  unfolding pool_answers_def
proof
  fix s :: "('a, 'b) pool_sys"
  let ?s1 = "snd (try_grow E s)"
  let ?s2 = "?s1\<lparr>ps_current := cp_name (ps_pool ?s1) # ps_current ?s1\<rparr>"
  note g = le_trans [OF try_grow_frame(1) [of s E]] try_grow_frame(2) [of E s]
  obtain r s3 where run: "run t ?s2 = (r, s3)" "(\<exists>a. r = Ok a) \<or> (\<exists>e. r = Err e)" "ps_reads ?s2 \<le> ps_reads s3"
    "cp_state (ps_pool s3) = cp_state (ps_pool ?s2)"
    using assms unfolding pool_answers_def by blast
  show "\<exists>r s'. try_timeout_schedule_task E run t s = (r, s') \<and> ((\<exists>a. r = Ok a) \<or> (\<exists>e. r = Err e))
      \<and> ps_reads s \<le> ps_reads s' \<and> cp_state (ps_pool s') = cp_state (ps_pool s)"
  proof (cases "cp_state (ps_pool s) = Ps_Stopped")
    case True
    then show ?thesis by (simp add: try_timeout_schedule_task_def)
  next
    case False
    then have "try_timeout_schedule_task E run t s = (r, s3\<lparr>ps_current := tl (ps_current s3)\<rparr>)"
      using run(1) by (cases "cp_state (ps_pool s)") (simp_all add: try_timeout_schedule_task_def Let_def)
    with run g show ?thesis by auto
  qed
qed

lemma pool_wait_answers:
  assumes "\<And>t. pool_answers (run t)" and "\<And>d. pool_answers (wait d)"
  shows "pool_answers (loop_wait_event E run wait in_co (Some time))"
  unfolding pool_answers_def
proof
  fix s :: "('a, 'b) pool_sys"
  let ?s0 = "s\<lparr>ps_reads := Suc (ps_reads s)\<rparr>" and ?t = "get_timeout_time (pe_clock E (ps_reads s)) time"
  show "\<exists>r s'. loop_wait_event E run wait in_co (Some time) s = (r, s') \<and> ((\<exists>a. r = Ok a) \<or> (\<exists>e. r = Err e))
      \<and> ps_reads s \<le> ps_reads s' \<and> cp_state (ps_pool s') = cp_state (ps_pool s)"
  proof (cases in_co)
    case True
    with assms(2) [of "Some time"] show ?thesis by (simp add: pool_answers_def loop_wait_event_def)
  next
    case False
    have eq: "try_timed_schedule_task E run time s = try_timeout_schedule_task E run ?t ?s0"
      by (simp add: try_timed_schedule_task_def pool_now_def)
    have sched: "pool_answers (try_timeout_schedule_task E run ?t)" by (rule schedule_answers) (rule assms(1))
    show ?thesis
    proof (cases rule: pool_answersE [OF sched, where s = ?s0])
      case (1 a s1)
      show ?thesis
        by (cases rule: pool_answersE [OF assms(2) [of "Some (unat a)"], where s = s1]) (use 1 False eq in \<open>auto simp: loop_wait_event_def\<close>)
    next
      case (2 e s1)
      with False eq show ?thesis by (auto simp: loop_wait_event_def)
    qed
  qed
qed

lemma loop_stopped_ok:
  "cp_state (ps_pool s) = Ps_Stopping \<Longrightarrow> loop_stopped s = (Ok (), s\<lparr>ps_pool := (ps_pool s)\<lparr>cp_state := Ps_Stopped\<rparr>\<rparr>)"
  by (simp add: loop_stopped_def pool_stopped_def pool_change_state_def)

lemma stop_loop_ends:
  assumes "\<And>t. pool_answers (run t)" and "\<And>d. pool_answers (wait d)"
    and "\<And>k. K \<le> k \<Longrightarrow> deadline \<le> pe_clock E k"
  shows "cp_state (ps_pool s) = Ps_Stopping \<Longrightarrow> K - ps_reads s < fuel \<Longrightarrow>
    \<exists>r s'. do_stop_sync_loop E run wait in_co fuel deadline s = (r, s') \<and>
      (r = Ok () \<and> cp_state (ps_pool s') = Ps_Stopped \<and> loop_idle E s' \<or> (\<exists>e. r = Err e) \<and> cp_state (ps_pool s') = Ps_Stopping)"
proof (induction fuel arbitrary: s)
  case (Suc fuel)
  let ?t = "pe_clock E (ps_reads s)" and ?s1 = "s\<lparr>ps_reads := Suc (ps_reads s)\<rparr>"
  let ?left = "sat_sub deadline ?t"
  show ?case
  proof (cases "?left = 0")
    case True
    with Suc.prems show ?thesis by (simp add: pool_now_def)
  next
    case False
    then have K: "ps_reads s < K" using assms(3) [of "ps_reads s"] by (metis not_le sat_sub_eq_0_iff)
    let ?w = "loop_wait_event E run wait in_co (Some (min (unat ?left) SLICE)) ?s1"
    have wait: "pool_answers (loop_wait_event E run wait in_co (Some (min (unat ?left) SLICE)))"
      by (rule pool_wait_answers) (rule assms)+
    show ?thesis
    proof (cases rule: pool_answersE [OF wait, where s = ?s1])
      case (1 u s2)
      then have st: "cp_state (ps_pool s2) = Ps_Stopping" and rd: "K - ps_reads s2 < fuel"
        using Suc.prems K by auto
      show ?thesis
      proof (cases "loop_idle E s2")
        case idle: True
        then have "loop_idle E (s2\<lparr>ps_pool := (ps_pool s2)\<lparr>cp_state := Ps_Stopped\<rparr>\<rparr>)"
          by (simp add: loop_idle_def pool_is_local_empty_def)
        with 1 False idle loop_stopped_ok [OF st] show ?thesis by (simp add: pool_now_def Let_def)
      next
        case busy: False
        with 1 False Suc.IH [OF st rd] show ?thesis by (simp add: pool_now_def Let_def)
      qed
    next
      case (2 e s2)
      with False Suc.prems show ?thesis by (simp add: pool_now_def Let_def)
    qed
  qed
qed simp

lemma submit_refused: "cp_state (ps_pool s) \<noteq> Ps_Running \<Longrightarrow> submit_task E name f param prio s = Err EK_Other"
  by (cases "cp_state (ps_pool s)") (simp_all add: submit_task_def)

subsection \<open>Round robin\<close>

fun rr_take :: "nat \<Rightarrow> ('f, 'q) event_loops \<Rightarrow> nat list" where
  "rr_take 0 m = []"
| "rr_take (Suc n) m = (case round_robin m of (Ok i, m1) \<Rightarrow> i # rr_take n m1 | (_, m1) \<Rightarrow> [])"

lemma rr_take_eq:
  assumes "ms_loops m \<noteq> []" and "ms_index m + n \<le> usize_max"
  shows "rr_take n m = map (\<lambda>j. j mod length (ms_loops m)) [ms_index m..<ms_index m + n]"
  using assms
proof (induction n arbitrary: m)
  case (Suc n)
  let ?m = "m\<lparr>ms_index := Suc (ms_index m)\<rparr>"
  have "rr_take n ?m = map (\<lambda>j. j mod length (ms_loops m)) [Suc (ms_index m)..<Suc (ms_index m) + n]"
    using Suc.IH [of ?m] Suc.prems by simp
  moreover have "round_robin m = (Ok (ms_index m mod length (ms_loops m)), ?m)"
    using Suc.prems by (simp add: round_robin_def Let_def)
  moreover have "[ms_index m..<ms_index m + Suc n] = ms_index m # [Suc (ms_index m)..<Suc (ms_index m) + n]"
    by (subst upt_conv_Cons) simp_all
  ultimately show ?case by (simp del: upt_Suc)
qed simp

lemma count_distinct: "distinct xs \<Longrightarrow> x \<in> set xs \<Longrightarrow> count_list xs x = 1"
  by (induction xs) auto

lemma mod_window: "0 < L \<Longrightarrow> i < L \<Longrightarrow> count_list (map (\<lambda>j. j mod L) [a..<a + L]) i = 1"
proof -
  assume L: "0 < L" and i: "i < L"
  have inj: "inj_on (\<lambda>j. j mod L) (set [a..<a + L])"
  proof (rule inj_onI)
    fix x y
    assume "x \<in> set [a..<a + L]" "y \<in> set [a..<a + L]" and eq: "x mod L = y mod L"
    then have b: "a \<le> x" "x < a + L" "a \<le> y" "y < a + L" by auto
    show "x = y"
    proof (rule ccontr)
      assume "x \<noteq> y"
      then consider "x < y" | "y < x" by linarith
      then show False
      proof cases
        case 1
        then have "L dvd y - x" using eq by (metis mod_eq_dvd_iff_nat nless_le)
        with 1 b show False by (auto dest: dvd_imp_le)
      next
        case 2
        then have "L dvd x - y" using eq by (metis mod_eq_dvd_iff_nat nless_le)
        with 2 b show False by (auto dest: dvd_imp_le)
      qed
    qed
  qed
  let ?xs = "map (\<lambda>j. j mod L) [a..<a + L]"
  have d: "distinct ?xs" using inj by (simp add: distinct_map)
  have "set ?xs \<subseteq> {..<L}" using L by auto
  moreover have "card (set ?xs) = card {..<L}" using distinct_card [OF d] by simp
  ultimately have "set ?xs = {..<L}" by (meson card_subset_eq finite_lessThan)
  with i have "i \<in> set ?xs" by blast
  with d show ?thesis by (rule count_distinct)
qed

lemma mod_windows: "0 < L \<Longrightarrow> i < L \<Longrightarrow> count_list (map (\<lambda>j. j mod L) [a..<a + k * L]) i = k"
proof (induction k arbitrary: a)
  case (Suc k)
  have "[a..<a + Suc k * L] = [a..<a + L] @ [a + L..<(a + L) + k * L]"
    using upt_add_eq_append [of a "a + L" "k * L"] by (simp add: add.assoc)
  with Suc mod_window [of L i a] show ?case by simp
qed simp


subsection \<open>Results of tasks\<close>

lemma join_unfold:
  "jh_task h \<noteq> 0 \<Longrightarrow> join E fuel current between meanwhile h s =
     wait_task_result E fuel current between meanwhile (jh_task h) (unat (sat_sub u64_max (pe_clock E (ps_reads s))))
       (s\<lparr>ps_reads := Suc (ps_reads s)\<rparr>)"
  by (simp add: join_def timeout_at_join_def jh_id_def pool_now_def)

lemma wait_checkE:
  obtains s1 where "wait_check tid s = (map_of (cp_results (ps_pool s)) tid, s1)"
  by (metis prod.collapse wait_check_result)

lemma join_present:
  assumes "jh_task h = tid" and "tid \<noteq> 0" and "map_of (cp_results (ps_pool s)) tid = Some res"
  shows "\<exists>s'. join E fuel current between meanwhile h s = (Ok res, s')"
proof -
  let ?s = "s\<lparr>ps_reads := Suc (ps_reads s)\<rparr>"
  obtain s1 where "wait_check tid ?s = (Some res, s1)"
    using assms(3) wait_checkE [of tid ?s] by auto
  with assms(1,2) show ?thesis by (simp add: join_unfold wait_task_result_def)
qed

text \<open>What \<open>try_run\<close> leaves behind for a task that is wanted.\<close>

lemma try_run_leaves:
  assumes "rq_pop (pe_tq E) (cp_task_queue (ps_pool s)) = Some (Some task, q)"
    and "tk_id task \<notin> ps_cancel_tasks s" and "tk_id task \<notin> cp_no_waits (ps_pool s)"
    and "map_of (cp_results (ps_pool s)) (tk_id task) = None"
  shows "\<exists>s'. try_run E current s = (Ok (Some ()), s')
    \<and> map_of (cp_results (ps_pool s')) (tk_id task) = Some (snd (task_run (pe_call E) task))"
proof -
  obtain s1 where s1: "try_run_start E current s = Some (S_task task, s1)"
    "cp_results (ps_pool s1) = cp_results (ps_pool s)" "cp_no_waits (ps_pool s1) = cp_no_waits (ps_pool s)"
    using assms(1,2) by (cases current) (auto simp: try_run_start_def Let_def)
  with try_run_finish_deliver [of "tk_id task" s1 "snd (task_run (pe_call E) task)"] assms(3,4)
  show ?thesis by (simp add: try_run_def AList.update_conv')
qed

lemma wait_check_frame:
  assumes "wait_check tid s = (None, s')"
  shows "ps_cancel_tasks s' = ps_cancel_tasks s" "cp_task_queue (ps_pool s') = cp_task_queue (ps_pool s)"
    "cp_no_waits (ps_pool s') = cp_no_waits (ps_pool s)" "map_of (cp_results (ps_pool s')) tid = None"
  using assms by (auto simp: wait_check_def try_take_task_result_def AList.delete_conv' split: option.splits)

lemma wait_register_frame:
  "ps_cancel_tasks (snd (wait_register tid s)) = ps_cancel_tasks s"
  "cp_task_queue (ps_pool (snd (wait_register tid s))) = cp_task_queue (ps_pool s)"
  "cp_no_waits (ps_pool (snd (wait_register tid s))) = cp_no_waits (ps_pool s)"
  "cp_results (ps_pool (snd (wait_register tid s))) = cp_results (ps_pool s)"
  by (auto simp: wait_register_def Let_def split: option.splits)

lemma join_waits:
  assumes "rq_pop (pe_tq E) (cp_task_queue (ps_pool s)) = Some (Some task, q)"
    and "tk_id task \<notin> ps_cancel_tasks s" and "tk_id task \<notin> cp_no_waits (ps_pool s)"
    and "map_of (cp_results (ps_pool s)) (tk_id task) = None" and "jh_task h = tk_id task" and "tk_id task \<noteq> 0"
  shows "\<exists>s'. join E fuel None (\<lambda>s. s) (\<lambda>arc s. snd (try_run E current s)) h s
    = (Ok (snd (task_run (pe_call E) task)), s')"
proof -
  let ?s = "s\<lparr>ps_reads := Suc (ps_reads s)\<rparr>" and ?tid = "tk_id task"
  obtain s1 where check: "wait_check ?tid ?s = (None, s1)"
    using assms(4) wait_checkE [of ?tid ?s] by auto
  obtain arc s2 where reg: "wait_register ?tid s1 = (arc, s2)" by fastforce
  have s2: "ps_cancel_tasks s2 = ps_cancel_tasks s" "cp_task_queue (ps_pool s2) = cp_task_queue (ps_pool s)"
    "cp_no_waits (ps_pool s2) = cp_no_waits (ps_pool s)" "map_of (cp_results (ps_pool s2)) ?tid = None"
    using wait_check_frame [OF check] wait_register_frame [of ?tid s1] reg by simp_all
  obtain s3 where run: "try_run E current s2 = (Ok (Some ()), s3)"
    "map_of (cp_results (ps_pool s3)) ?tid = Some (snd (task_run (pe_call E) task))"
    using try_run_leaves [of E s2 task q current] assms(1-3) s2 by auto
  obtain s4 where "wait_check ?tid s3 = (Some (snd (task_run (pe_call E) task)), s4)"
    using run(2) wait_checkE [of ?tid s3] by auto
  with check reg run(1) assms(5,6) show ?thesis by (simp add: join_unfold wait_task_result_def)
qed

text \<open>
  Dropping the handle of a joined task marks its id as unwanted, because the result is gone already.
  Ids are hashes of names: the result of the next task of that name is thrown away.
\<close>

lemma drop_after_join_loses:
  assumes "jh_task h = tid" and "tid \<noteq> 0" and "map_of (cp_results (ps_pool s)) tid = None"
  shows "\<exists>s'. try_run_finish tid res (jh_drop h s) = (Ok (), s') \<and> map_of (cp_results (ps_pool s')) tid = None"
  using assms
  by (simp add: jh_drop_def jh_id_def clean_task_result_def try_take_task_result_def try_run_finish_def Let_def
      AList.delete_conv')

definition loop_tick_env :: "(bool, demo_tasks) pool_env" where
  "loop_tick_env = demo_pool_env\<lparr>pe_clock := (\<lambda>k. if k < 8 then of_nat k else 10 ^ 12)\<rparr>"

definition demo_loops :: "(bool, demo_tasks) event_loops" where
  "demo_loops = loops_new 3 (\<lambda>i. demo_pool_sys [])"

section \<open>Properties\<close>



text \<open>
  Round robin is fair: as long as the index does not wrap around, \<open>k * n\<close> consecutive picks among \<open>n\<close>
  loops pick every loop exactly \<open>k\<close> times, from whatever index they start.
\<close>

theorem round_robin_even:
  assumes "ms_index m + k * length (ms_loops m) \<le> usize_max" and "i < length (ms_loops m)"
  shows "count_list (rr_take (k * length (ms_loops m)) m) i = k"
proof -
  have "ms_loops m \<noteq> []" using assms(2) by auto
  with rr_take_eq [of m "k * length (ms_loops m)"] assms mod_windows [of "length (ms_loops m)" i "ms_index m" k]
  show ?thesis by simp
qed

theorem round_robin_even_witness: "count_list (rr_take 6 demo_loops) 2 = 2"
  using round_robin_even [of demo_loops 2 2] by (simp add: demo_loops_def loops_new_def usize_max_def)

text \<open>
  C33. Joining a task yields its result, whether the task ran before the join or runs while a thread waits in
  it: a worker that takes the task from the queue leaves what the task returned, and \<open>join\<close> answers that,
  converted for a C caller by \<open>task_join\<close>. A handle of a failed submission answers \<open>InvalidInput\<close> at once.
\<close>

theorem join_returns_result:
  assumes "rq_pop (pe_tq E) (cp_task_queue (ps_pool s)) = Some (Some task, q)"
    and "tk_id task \<notin> ps_cancel_tasks s" and "tk_id task \<notin> cp_no_waits (ps_pool s)"
    and "map_of (cp_results (ps_pool s)) (tk_id task) = None" and "jh_task h = tk_id task"
  shows "if tk_id task = 0 then join E fuel c between meanwhile h s = (Err EK_InvalidInput, s)
    else (\<exists>s' s''. try_run E current s = (Ok (Some ()), s')
        \<and> join E fuel c between meanwhile h s' = (Ok (snd (task_run (pe_call E) task)), s'')
        \<and> task_join E fuel c between meanwhile h s' = (c_result (Ok (snd (task_run (pe_call E) task))), s''))
      \<and> (\<exists>s''. join E fuel None (\<lambda>s. s) (\<lambda>arc s. snd (try_run E current s)) h s
          = (Ok (snd (task_run (pe_call E) task)), s''))"
proof (cases "tk_id task = 0")
  case True
  with assms(5) show ?thesis by (simp add: join_def timeout_at_join_def jh_id_def)
next
  case False
  obtain s' where run: "try_run E current s = (Ok (Some ()), s')"
    "map_of (cp_results (ps_pool s')) (tk_id task) = Some (snd (task_run (pe_call E) task))"
    using try_run_leaves [OF assms(1-4)] by blast
  from join_present [OF assms(5) False run(2)] join_waits [OF assms False] run(1) False
  show ?thesis by (auto simp: task_join_def) (metis (no_types, lifting) old.prod.case)
qed

theorem join_returns_result_witness:
  "\<exists>s' s''. try_run demo_pool_env (Some 100) demo_waiting = (Ok (Some ()), s')
     \<and> task_join demo_pool_env 5 None (\<lambda>s. s) (\<lambda>a s. s) \<lparr>jh_loop = 0, jh_task = 3\<rparr> s' = (Ok 42, s'')"
proof -
  obtain q where q: "rq_pop (pe_tq demo_pool_env) (cp_task_queue (ps_pool demo_waiting)) = Some (Some demo_task, q)"
    using demo_waiting_pop by blast
  have facts: "tk_id demo_task \<notin> ps_cancel_tasks demo_waiting" "tk_id demo_task \<notin> cp_no_waits (ps_pool demo_waiting)"
    "map_of (cp_results (ps_pool demo_waiting)) (tk_id demo_task) = None"
    "jh_task \<lparr>jh_loop = 0, jh_task = 3\<rparr> = tk_id demo_task" "tk_id demo_task \<noteq> 0"
    "c_result (Ok (snd (task_run (pe_call demo_pool_env) demo_task))) = Ok 42"
    by code_simp+
  from join_returns_result [OF q facts(1-4), of 5 None "\<lambda>s. s" "\<lambda>a s. s" "Some 100"] show ?thesis
    using facts(5,6) by auto
qed

end
