(* ===== verification/OC_Beans.thy ===== *)
theory OC_Beans
  imports OC_Prelude "HOL-Library.AList"
begin

text \<open>
  Two tables of untyped addresses: the process-wide \<open>BeanFactory\<close> (\<^verbatim>\<open>core/src/common/beans.rs\<close>) and the
  \<open>CoroutineLocal\<close> of a coroutine (\<^verbatim>\<open>core/src/coroutine/local.rs\<close>). Both leak boxes, keep their addresses as
  integers under a name and cast them back to the type the caller names. The model keeps the boxes: a
  cast to a type the value does not have, or of a freed address, is undefined behaviour and a value of
  the result type.
\<close>

section \<open>Boxes\<close>

text \<open>\<open>ty\<close> is the type of a value. Addresses are allocation numbers.\<close>

datatype undefined_behaviour = Dangling | Wrong_type

record 'v boxes =
  bx_heap :: "(nat \<times> 'v) list"
  bx_next :: nat

definition leak :: "'v \<Rightarrow> 'v boxes \<Rightarrow> nat \<times> 'v boxes" where
  "leak v b = (bx_next b, b\<lparr>bx_next := bx_next b + 1, bx_heap := AList.update (bx_next b) v (bx_heap b)\<rparr>)"

definition deref :: "('v \<Rightarrow> 't) \<Rightarrow> 't \<Rightarrow> nat \<Rightarrow> 'v boxes \<Rightarrow> (undefined_behaviour, 'v) rust" where
  "deref ty t p b =
     (case map_of (bx_heap b) p of
        None \<Rightarrow> Err Dangling
      | Some v \<Rightarrow> if ty v = t then Ok v else Err Wrong_type)"

text \<open>\<open>*Box::from_raw(p)\<close>: the value moves out and the box is freed.\<close>

definition unbox :: "('v \<Rightarrow> 't) \<Rightarrow> 't \<Rightarrow> nat \<Rightarrow> 'v boxes \<Rightarrow> (undefined_behaviour, 'v) rust \<times> 'v boxes" where
  "unbox ty t p b = (deref ty t p b, b\<lparr>bx_heap := AList.delete p (bx_heap b)\<rparr>)"

definition write_box :: "('v \<Rightarrow> 't) \<Rightarrow> 'v \<Rightarrow> nat \<Rightarrow> 'v boxes \<Rightarrow> (undefined_behaviour, unit) rust \<times> 'v boxes" where
  "write_box ty v p b =
     (case deref ty (ty v) p b of
        Ok old \<Rightarrow> (Ok (), b\<lparr>bx_heap := AList.update p v (bx_heap b)\<rparr>)
      | Err e \<Rightarrow> (Err e, b)
      | Panic m \<Rightarrow> (Panic m, b)
      | Hang \<Rightarrow> (Hang, b))"

record 'v factory =
  fa_table :: "(string \<times> nat) list"
  fa_boxes :: "'v boxes"

definition factory_default :: "'v boxes \<Rightarrow> 'v factory" where
  "factory_default b = \<lparr>fa_table = [], fa_boxes = b\<rparr>"

section \<open>Beans\<close>

text \<open>
  \<open>init_bean\<close> looks the name up and, if it is not there, inserts it; \<open>between\<close> is what other threads do in between.
\<close>

definition init_bean ::
  "('v factory \<Rightarrow> 'v factory) \<Rightarrow> string \<Rightarrow> 'v \<Rightarrow> 'v factory \<Rightarrow> (undefined_behaviour, unit) rust \<times> 'v factory" where
  "init_bean between name bean f =
     (if map_of (fa_table f) name = None
      then (case leak bean (fa_boxes (between f)) of (p, b) \<Rightarrow>
              (if map_of (fa_table (between f)) name = None then Ok () else Panic ''assertion failed'',
               \<lparr>fa_table = AList.update name p (fa_table (between f)), fa_boxes = b\<rparr>))
      else (Ok (), f))"

definition remove_bean ::
  "('v \<Rightarrow> 't) \<Rightarrow> 't \<Rightarrow> string \<Rightarrow> 'v factory \<Rightarrow> (undefined_behaviour, 'v option) rust \<times> 'v factory" where
  "remove_bean ty t name f =
     (case map_of (fa_table f) name of
        None \<Rightarrow> (Ok None, f)
      | Some p \<Rightarrow>
          (case unbox ty t p (fa_boxes f) of (r, b) \<Rightarrow>
             (rust_bind r (\<lambda>v. Ok (Some v)), \<lparr>fa_table = AList.delete name (fa_table f), fa_boxes = b\<rparr>)))"

definition get_bean :: "('v \<Rightarrow> 't) \<Rightarrow> 't \<Rightarrow> string \<Rightarrow> 'v factory \<Rightarrow> (undefined_behaviour, 'v option) rust" where
  "get_bean ty t name f =
     (case map_of (fa_table f) name of
        None \<Rightarrow> Ok None
      | Some p \<Rightarrow> rust_bind (deref ty t p (fa_boxes f)) (\<lambda>v. Ok (Some v)))"

text \<open>The mutable reference \<open>get_mut_bean\<close> hands out, used to store \<open>v\<close>.\<close>

definition get_mut_bean ::
  "('v \<Rightarrow> 't) \<Rightarrow> 'v \<Rightarrow> string \<Rightarrow> 'v factory \<Rightarrow> (undefined_behaviour, unit option) rust \<times> 'v factory" where
  "get_mut_bean ty v name f =
     (case map_of (fa_table f) name of
        None \<Rightarrow> (Ok None, f)
      | Some p \<Rightarrow>
          (case write_box ty v p (fa_boxes f) of (r, b) \<Rightarrow> (rust_bind r (\<lambda>u. Ok (Some u)), f\<lparr>fa_boxes := b\<rparr>)))"

definition get_or_default ::
  "('v factory \<Rightarrow> 'v factory) \<Rightarrow> ('v \<Rightarrow> 't) \<Rightarrow> 'v \<Rightarrow> string \<Rightarrow> 'v factory \<Rightarrow> (undefined_behaviour, 'v) rust \<times> 'v factory" where
  "get_or_default between ty dflt name f =
     (case map_of (fa_table f) name of
        None \<Rightarrow>
          (case leak dflt (fa_boxes (between f)) of (p, b) \<Rightarrow>
             (Ok dflt, \<lparr>fa_table = AList.update name p (fa_table (between f)), fa_boxes = b\<rparr>))
      | Some p \<Rightarrow> (deref ty (ty dflt) p (fa_boxes f), f))"

text \<open>\<open>get_mut_or_default\<close>, its reference used to store \<open>v\<close>.\<close>

definition get_mut_or_default ::
  "('v factory \<Rightarrow> 'v factory) \<Rightarrow> ('v \<Rightarrow> 't) \<Rightarrow> 'v \<Rightarrow> 'v \<Rightarrow> string \<Rightarrow> 'v factory
    \<Rightarrow> (undefined_behaviour, unit option) rust \<times> 'v factory" where
  "get_mut_or_default between ty dflt v name f =
     (case get_or_default between ty dflt name f of
        (Ok u, f1) \<Rightarrow> get_mut_bean ty v name f1
      | (Err e, f1) \<Rightarrow> (Err e, f1)
      | (Panic m, f1) \<Rightarrow> (Panic m, f1)
      | (Hang, f1) \<Rightarrow> (Hang, f1))"

subsection \<open>The instance\<close>

text \<open>
  The static address of the factory, 0 at first, is loaded and, if 0, stored, by two separate atomic operations.
\<close>

record 'v bean_static =
  bs_instance :: nat
  bs_factories :: "'v factory list"

definition create_factory :: "'v bean_static \<Rightarrow> nat \<times> 'v bean_static" where
  "create_factory s =
     (length (bs_factories s) + 1,
      s\<lparr>bs_factories := bs_factories s @ [factory_default \<lparr>bx_heap = [], bx_next = 0\<rparr>]\<rparr>)"

definition get_instance :: "('v bean_static \<Rightarrow> 'v bean_static) \<Rightarrow> 'v bean_static \<Rightarrow> nat \<times> 'v bean_static" where
  "get_instance between s =
     (if bs_instance s = 0
      then (case create_factory (between s) of (p, s1) \<Rightarrow> (p, s1\<lparr>bs_instance := p\<rparr>))
      else (bs_instance s, s))"

definition at_factory :: "nat \<Rightarrow> ('v factory \<Rightarrow> 'a \<times> 'v factory) \<Rightarrow> 'v bean_static \<Rightarrow> 'a \<times> 'v bean_static" where
  "at_factory p op s =
     (case op (bs_factories s ! (p - 1)) of (r, f) \<Rightarrow> (r, s\<lparr>bs_factories := (bs_factories s)[p - 1 := f]\<rparr>))"

section \<open>Coroutine locals\<close>

definition local_put ::
  "('v \<Rightarrow> 't) \<Rightarrow> string \<Rightarrow> 'v \<Rightarrow> 'v factory \<Rightarrow> (undefined_behaviour, 'v option) rust \<times> 'v factory" where
  "local_put ty key val f =
     (case leak val (fa_boxes f) of (p, b) \<Rightarrow>
        let f1 = \<lparr>fa_table = AList.update key p (fa_table f), fa_boxes = b\<rparr>
        in case map_of (fa_table f) key of
             None \<Rightarrow> (Ok None, f1)
           | Some q \<Rightarrow>
               (case unbox ty (ty val) q b of (r, b1) \<Rightarrow> (rust_bind r (\<lambda>v. Ok (Some v)), f1\<lparr>fa_boxes := b1\<rparr>)))"

definition local_get :: "('v \<Rightarrow> 't) \<Rightarrow> 't \<Rightarrow> string \<Rightarrow> 'v factory \<Rightarrow> (undefined_behaviour, 'v option) rust" where
  "local_get = get_bean"

definition local_get_mut ::
  "('v \<Rightarrow> 't) \<Rightarrow> 'v \<Rightarrow> string \<Rightarrow> 'v factory \<Rightarrow> (undefined_behaviour, unit option) rust \<times> 'v factory" where
  "local_get_mut = get_mut_bean"

definition local_remove ::
  "('v \<Rightarrow> 't) \<Rightarrow> 't \<Rightarrow> string \<Rightarrow> 'v factory \<Rightarrow> (undefined_behaviour, 'v option) rust \<times> 'v factory" where
  "local_remove = remove_bean"

section \<open>Abstraction\<close>

text \<open>
  Abstractly a factory is a map from names to values. \<open>sound\<close>: every entry points to a box of the type
  its name stands for, no two to the same, and there are no other boxes.
\<close>

definition abs_map :: "'v factory \<Rightarrow> string \<Rightarrow> 'v option" where
  "abs_map f name = (case map_of (fa_table f) name of None \<Rightarrow> None | Some p \<Rightarrow> map_of (bx_heap (fa_boxes f)) p)"

definition sound :: "('v \<Rightarrow> 't) \<Rightarrow> (string \<Rightarrow> 't) \<Rightarrow> 'v factory \<Rightarrow> bool" where
  "sound ty names f \<longleftrightarrow>
     (\<forall>name p. map_of (fa_table f) name = Some p \<longrightarrow> (\<exists>v. map_of (bx_heap (fa_boxes f)) p = Some v \<and> ty v = names name))
     \<and> inj_on (map_of (fa_table f)) (dom (map_of (fa_table f)))
     \<and> dom (map_of (bx_heap (fa_boxes f))) = ran (map_of (fa_table f))
     \<and> (\<forall>p\<in>dom (map_of (bx_heap (fa_boxes f))). p < bx_next (fa_boxes f))"

datatype 'v bean_op =
    Op_init string 'v | Op_remove string | Op_get string | Op_set string 'v | Op_default string 'v
  | Op_set_default string 'v 'v | Op_put string 'v

fun op_typed :: "('v \<Rightarrow> 't) \<Rightarrow> (string \<Rightarrow> 't) \<Rightarrow> 'v bean_op \<Rightarrow> bool" where
  "op_typed ty names (Op_init n v) = (ty v = names n)"
| "op_typed ty names (Op_remove n) = True"
| "op_typed ty names (Op_get n) = True"
| "op_typed ty names (Op_set n v) = (ty v = names n)"
| "op_typed ty names (Op_default n v) = (ty v = names n)"
| "op_typed ty names (Op_set_default n v w) = (ty v = names n \<and> ty w = names n)"
| "op_typed ty names (Op_put n v) = (ty v = names n)"

text \<open>What a single thread sees of an operation: the value it gets, and the map after it.\<close>

fun bean_exec ::
  "('v \<Rightarrow> 't) \<Rightarrow> (string \<Rightarrow> 't) \<Rightarrow> 'v bean_op \<Rightarrow> 'v factory \<Rightarrow> (undefined_behaviour, 'v option) rust \<times> 'v factory" where
  "bean_exec ty names (Op_init n v) f = map_prod (\<lambda>r. rust_bind r (\<lambda>u. Ok None)) id (init_bean id n v f)"
| "bean_exec ty names (Op_remove n) f = remove_bean ty (names n) n f"
| "bean_exec ty names (Op_get n) f = (get_bean ty (names n) n f, f)"
| "bean_exec ty names (Op_set n v) f = map_prod (\<lambda>r. rust_bind r (\<lambda>u. Ok None)) id (get_mut_bean ty v n f)"
| "bean_exec ty names (Op_default n v) f = map_prod (\<lambda>r. rust_bind r (\<lambda>w. Ok (Some w))) id (get_or_default id ty v n f)"
| "bean_exec ty names (Op_set_default n v w) f =
     map_prod (\<lambda>r. rust_bind r (\<lambda>u. Ok None)) id (get_mut_or_default id ty v w n f)"
| "bean_exec ty names (Op_put n v) f = local_put ty n v f"

fun bean_spec :: "'v bean_op \<Rightarrow> (string \<Rightarrow> 'v option) \<Rightarrow> 'v option \<times> (string \<Rightarrow> 'v option)" where
  "bean_spec (Op_init n v) m = (None, if m n = None then m(n \<mapsto> v) else m)"
| "bean_spec (Op_remove n) m = (m n, m(n := None))"
| "bean_spec (Op_get n) m = (m n, m)"
| "bean_spec (Op_set n v) m = (None, if m n = None then m else m(n \<mapsto> v))"
| "bean_spec (Op_default n v) m = (case m n of None \<Rightarrow> (Some v, m(n \<mapsto> v)) | Some w \<Rightarrow> (Some w, m))"
| "bean_spec (Op_set_default n v w) m = (None, m(n \<mapsto> w))"
| "bean_spec (Op_put n v) m = (m n, m(n \<mapsto> v))"

section \<open>Lemmas\<close>

lemma soundI:
  assumes "\<And>name p. map_of (fa_table f) name = Some p \<Longrightarrow> \<exists>v. map_of (bx_heap (fa_boxes f)) p = Some v \<and> ty v = names name"
    and "\<And>x y p. map_of (fa_table f) x = Some p \<Longrightarrow> map_of (fa_table f) y = Some p \<Longrightarrow> x = y"
    and "\<And>p v. map_of (bx_heap (fa_boxes f)) p = Some v \<Longrightarrow> (\<exists>name. map_of (fa_table f) name = Some p) \<and> p < bx_next (fa_boxes f)"
  shows "sound ty names f"
  unfolding sound_def inj_on_def using assms by (auto simp: dom_def ran_def) metis+

lemma soundD:
  assumes "sound ty names f"
  shows "map_of (fa_table f) name = Some p \<Longrightarrow> \<exists>v. map_of (bx_heap (fa_boxes f)) p = Some v \<and> ty v = names name"
    and "map_of (fa_table f) x = Some p \<Longrightarrow> map_of (fa_table f) y = Some p \<Longrightarrow> x = y"
    and "map_of (bx_heap (fa_boxes f)) p = Some v \<Longrightarrow> (\<exists>name. map_of (fa_table f) name = Some p) \<and> p < bx_next (fa_boxes f)"
  using assms unfolding sound_def inj_on_def by (auto simp: dom_def ran_def)

lemma sound_lookup:
  assumes "sound ty names f"
  obtains "map_of (fa_table f) n = None" "abs_map f n = None"
  | p v where "map_of (fa_table f) n = Some p" "map_of (bx_heap (fa_boxes f)) p = Some v" "ty v = names n"
      "abs_map f n = Some v" "p < bx_next (fa_boxes f)"
proof (cases "map_of (fa_table f) n")
  case None
  with that(1) show ?thesis by (simp add: abs_map_def)
next
  case (Some p)
  from soundD(1) [OF assms Some] obtain v where v: "map_of (bx_heap (fa_boxes f)) p = Some v" "ty v = names n" by blast
  have "p < bx_next (fa_boxes f)" using soundD(3) [OF assms v(1)] by blast
  with Some v show ?thesis by (intro that(2)) (simp_all add: abs_map_def)
qed

lemma sound_insert:
  assumes "sound ty names f" and "ty v = names n"
    and "f' = \<lparr>fa_table = AList.update n (bx_next (fa_boxes f)) (fa_table f),
      fa_boxes = (fa_boxes f)\<lparr>bx_next := bx_next (fa_boxes f) + 1, bx_heap := (case map_of (fa_table f) n of
            None \<Rightarrow> AList.update (bx_next (fa_boxes f)) v (bx_heap (fa_boxes f))
          | Some q \<Rightarrow> AList.delete q (AList.update (bx_next (fa_boxes f)) v (bx_heap (fa_boxes f))))\<rparr>\<rparr>"
  shows "sound ty names f'" "abs_map f' = (abs_map f)(n \<mapsto> v)"
proof -
  let ?T = "map_of (fa_table f)" and ?H = "map_of (bx_heap (fa_boxes f))" and ?N = "bx_next (fa_boxes f)"
  have T: "map_of (fa_table f') = ?T(n \<mapsto> ?N)" by (simp add: assms(3) AList.update_conv')
  have H: "map_of (bx_heap (fa_boxes f')) = (case ?T n of None \<Rightarrow> ?H(?N \<mapsto> v) | Some q \<Rightarrow> (?H(?N \<mapsto> v))(q := None))"
    by (simp add: assms(3) AList.update_conv' AList.delete_conv' split: option.splits)
  have N: "bx_next (fa_boxes f') = Suc ?N" by (simp add: assms(3))
  note d = soundD [OF assms(1)]
  have fresh: "?T x \<noteq> Some ?N" for x using d(1,3) by fastforce
  show "sound ty names f'"
  proof (rule soundI)
    fix name p
    assume "map_of (fa_table f') name = Some p"
    then show "\<exists>v. map_of (bx_heap (fa_boxes f')) p = Some v \<and> ty v = names name"
      using d(1) [of name p] d(2) [of n p name] fresh assms(2) unfolding T H by (auto split: if_splits option.splits)
  next
    fix x y p
    assume "map_of (fa_table f') x = Some p" "map_of (fa_table f') y = Some p"
    then show "x = y" using d(2) [of x p y] fresh unfolding T by (auto split: if_splits)
  next
    fix p w
    assume "map_of (bx_heap (fa_boxes f')) p = Some w"
    then show "(\<exists>name. map_of (fa_table f') name = Some p) \<and> p < bx_next (fa_boxes f')"
      using d(3) [of p w] unfolding T H N by (auto split: if_splits option.splits) (metis option.distinct(1), metis option.inject)
  qed
  show "abs_map f' = (abs_map f)(n \<mapsto> v)"
  proof
    fix x
    show "abs_map f' x = ((abs_map f)(n \<mapsto> v)) x"
      using fresh [of x] fresh [of n] d(2) [of x _ n] unfolding abs_map_def T H by (auto split: option.splits)
  qed
qed

lemma sound_delete:
  assumes "sound ty names f" and "map_of (fa_table f) n = Some p"
    and "f' = \<lparr>fa_table = AList.delete n (fa_table f), fa_boxes = (fa_boxes f)\<lparr>bx_heap := AList.delete p (bx_heap (fa_boxes f))\<rparr>\<rparr>"
  shows "sound ty names f'" "abs_map f' = (abs_map f)(n := None)"
proof -
  let ?T = "map_of (fa_table f)" and ?H = "map_of (bx_heap (fa_boxes f))"
  have T: "map_of (fa_table f') = ?T(n := None)" and H: "map_of (bx_heap (fa_boxes f')) = ?H(p := None)"
    and N: "bx_next (fa_boxes f') = bx_next (fa_boxes f)"
    by (simp_all add: assms(3) AList.delete_conv')
  note d = soundD [OF assms(1)]
  show "sound ty names f'"
  proof (rule soundI)
    fix name q
    assume "map_of (fa_table f') name = Some q"
    then show "\<exists>v. map_of (bx_heap (fa_boxes f')) q = Some v \<and> ty v = names name"
      using d(1) [of name q] d(2) [of n q name] assms(2) unfolding T H by (auto split: if_splits)
  next
    fix x y q
    assume "map_of (fa_table f') x = Some q" "map_of (fa_table f') y = Some q"
    then show "x = y" using d(2) [of x q y] unfolding T by (auto split: if_splits)
  next
    fix q w
    assume "map_of (bx_heap (fa_boxes f')) q = Some w"
    then show "(\<exists>name. map_of (fa_table f') name = Some q) \<and> q < bx_next (fa_boxes f')"
      using d(3) [of q w] assms(2) unfolding T H N by (cases "q = p") (simp_all, metis option.inject)
  qed
  show "abs_map f' = (abs_map f)(n := None)"
  proof
    fix x
    show "abs_map f' x = ((abs_map f)(n := None)) x"
      using d(2) [of x p n] assms(2) unfolding abs_map_def T H by (cases "?T x") auto
  qed
qed

lemma sound_write:
  assumes "sound ty names f" and "map_of (fa_table f) n = Some p" and "ty v = names n"
    and "f' = f\<lparr>fa_boxes := (fa_boxes f)\<lparr>bx_heap := AList.update p v (bx_heap (fa_boxes f))\<rparr>\<rparr>"
  shows "sound ty names f'" "abs_map f' = (abs_map f)(n \<mapsto> v)"
proof -
  let ?T = "map_of (fa_table f)" and ?H = "map_of (bx_heap (fa_boxes f))"
  have T: "map_of (fa_table f') = ?T" and H: "map_of (bx_heap (fa_boxes f')) = ?H(p \<mapsto> v)"
    and N: "bx_next (fa_boxes f') = bx_next (fa_boxes f)"
    by (simp_all add: assms(4) AList.update_conv')
  note d = soundD [OF assms(1)]
  from d(1) [OF assms(2)] obtain u where u: "?H p = Some u" by blast
  show "sound ty names f'"
  proof (rule soundI)
    fix name q
    assume "map_of (fa_table f') name = Some q"
    then show "\<exists>v. map_of (bx_heap (fa_boxes f')) q = Some v \<and> ty v = names name"
      using d(1) [of name q] d(2) [of n q name] assms(2,3) unfolding T H by (auto split: if_splits)
  next
    fix x y q
    assume "map_of (fa_table f') x = Some q" "map_of (fa_table f') y = Some q"
    then show "x = y" using d(2) [of x q y] unfolding T by simp
  next
    fix q w
    assume "map_of (bx_heap (fa_boxes f')) q = Some w"
    then show "(\<exists>name. map_of (fa_table f') name = Some q) \<and> q < bx_next (fa_boxes f')"
      using d(3) [of q w] d(3) [OF u] unfolding T H N by (cases "q = p") simp_all
  qed
  show "abs_map f' = (abs_map f)(n \<mapsto> v)"
  proof
    fix x
    show "abs_map f' x = ((abs_map f)(n \<mapsto> v)) x"
      using d(2) [of x p n] assms(2) unfolding abs_map_def T H by (cases "?T x") auto
  qed
qed

definition refines :: "('v \<Rightarrow> 't) \<Rightarrow> (string \<Rightarrow> 't) \<Rightarrow> 'v bean_op \<Rightarrow> 'v factory \<Rightarrow> bool" where
  "refines ty names op f \<longleftrightarrow>
     (case bean_exec ty names op f of (r, f') \<Rightarrow>
        r = Ok (fst (bean_spec op (abs_map f))) \<and> sound ty names f' \<and> abs_map f' = snd (bean_spec op (abs_map f)))"

lemmas box_simps = init_bean_def remove_bean_def get_bean_def get_mut_bean_def get_or_default_def local_put_def
  leak_def unbox_def deref_def write_box_def Let_def refines_def

lemma set_refines:
  assumes "sound ty names f" and "ty v = names n"
  shows "refines ty names (Op_set n v) f"
proof (cases rule: sound_lookup [OF assms(1), of n])
  case 1
  with assms show ?thesis by (simp add: box_simps)
next
  case (2 p w)
  with assms(2) sound_write [OF assms(1) 2(1) assms(2) refl] show ?thesis by (simp add: box_simps)
qed

lemma default_refines:
  assumes "sound ty names f" and "ty v = names n"
  shows "refines ty names (Op_default n v) f"
proof (cases rule: sound_lookup [OF assms(1), of n])
  case 1
  with sound_insert [OF assms refl] show ?thesis by (simp add: box_simps)
next
  case (2 p w)
  with assms show ?thesis by (simp add: box_simps)
qed

lemma put_refines:
  assumes "sound ty names f" and "ty v = names n"
  shows "refines ty names (Op_put n v) f"
proof (cases rule: sound_lookup [OF assms(1), of n])
  case 1
  with sound_insert [OF assms refl] show ?thesis by (simp add: box_simps)
next
  case (2 p w)
  with assms(2) sound_insert [OF assms refl] show ?thesis by (simp add: box_simps AList.update_conv')
qed

lemma op_refines:
  assumes "sound ty names f" and "op_typed ty names op"
  shows "refines ty names op f"
proof (cases op)
  case (Op_init n v)
  then have v: "ty v = names n" using assms(2) by simp
  show ?thesis unfolding Op_init
    by (cases rule: sound_lookup [OF assms(1), of n]) (use sound_insert [OF assms(1) v refl] assms(1) in \<open>simp_all add: box_simps\<close>)
next
  case (Op_remove n)
  show ?thesis unfolding Op_remove
  proof (cases rule: sound_lookup [OF assms(1), of n])
    case 1
    with assms(1) show "refines ty names (Op_remove n) f" by (auto simp: box_simps fun_eq_iff)
  next
    case (2 p w)
    with sound_delete [OF assms(1) 2(1) refl] show "refines ty names (Op_remove n) f" by (simp add: box_simps)
  qed
next
  case (Op_get n)
  show ?thesis unfolding Op_get
    by (cases rule: sound_lookup [OF assms(1), of n]) (use assms(1) in \<open>simp_all add: box_simps\<close>)
next
  case (Op_set_default n v w)
  then have v: "ty v = names n" and w: "ty w = names n" using assms(2) by auto
  obtain u f1 where d: "get_or_default id ty v n f = (Ok u, f1)" "sound ty names f1" "abs_map f1 n \<noteq> None"
    "(abs_map f1)(n \<mapsto> w) = (abs_map f)(n \<mapsto> w)"
  proof (cases "get_or_default id ty v n f")
    case (Pair r f1)
    with default_refines [OF assms(1) v] that show ?thesis
      by (cases r) (auto simp: refines_def fun_eq_iff split: option.splits)
  qed
  with set_refines [OF d(2) w] show ?thesis unfolding Op_set_default
    by (auto simp: refines_def get_mut_or_default_def)
qed (use assms set_refines default_refines put_refines in \<open>auto\<close>)

inductive bean_reach :: "('v \<Rightarrow> 't) \<Rightarrow> (string \<Rightarrow> 't) \<Rightarrow> 'v bean_op list \<Rightarrow> 'v factory \<Rightarrow> bool"
  for ty :: "'v \<Rightarrow> 't" and names :: "string \<Rightarrow> 't" where
  bean_start: "bean_reach ty names [] (factory_default \<lparr>bx_heap = [], bx_next = 0\<rparr>)"
| bean_step: "bean_reach ty names ops f \<Longrightarrow> op_typed ty names op \<Longrightarrow> bean_exec ty names op f = (r, f') \<Longrightarrow>
    bean_reach ty names (ops @ [op]) f'"

lemma reach_sound:
  "bean_reach ty names ops f \<Longrightarrow> sound ty names f \<and> abs_map f = fold (\<lambda>op m. snd (bean_spec op m)) ops Map.empty"
proof (induction rule: bean_reach.induct)
  case bean_start
  show ?case by (auto simp: sound_def factory_default_def abs_map_def fun_eq_iff)
next
  case (bean_step ops f op r f')
  then have "refines ty names op f" by (blast intro: op_refines)
  with bean_step show ?case by (simp add: refines_def)
qed

text \<open>Both threads find no factory and make their own; the bean of the first is lost.\<close>

lemma instance_race:
  "let s0 = \<lparr>bs_instance = 0, bs_factories = []\<rparr>;
       (mine, s1) = get_instance (\<lambda>s. snd (get_instance (\<lambda>s. s) s)) s0;
       (theirs, s2) = get_instance (\<lambda>s. s) s0;
       (r, s3) = at_factory theirs (init_bean (\<lambda>f. f) ''monitor'' (7 :: nat)) s1
   in r = Ok () \<and> bs_instance s3 = mine \<and> fst (at_factory mine (\<lambda>f. (get_bean (\<lambda>v. ()) () ''monitor'' f, f)) s3) = Ok None"
  by code_simp

text \<open>Two threads that initialise the same bean at the same time: the second one panics and has replaced the bean.\<close>

lemma init_race:
  "map_of (fa_table f) name = None \<Longrightarrow>
     fst (init_bean (\<lambda>f. snd (init_bean (\<lambda>f. f) name v f)) name w f) = Panic ''assertion failed''"
  by (simp add: init_bean_def leak_def AList.update_conv')

section \<open>Properties\<close>


definition demo_names :: "string \<Rightarrow> bool" where
  "demo_names n \<longleftrightarrow> n = ''flag''"

definition demo_bean :: "bool + nat \<Rightarrow> bool" where
  "demo_bean v = (case v of Inl b \<Rightarrow> True | Inr k \<Rightarrow> False)"


end
