(* ===== verification/OC_Monitor.thy ===== *)
theory OC_Monitor
  imports OC_Coroutine OC_Beans
begin

text \<open>
  The monitor of \<^verbatim>\<open>core/src/monitor.rs\<close>: a thread that looks for coroutines that have been running for 10 ms and
  signals their threads, the listener that tells it which coroutines run, and the signal
  handlers. The stubs that Windows needs instead of a signal are in \<open>OC_Preempt\<close>.
\<close>

section \<open>The monitor\<close>

datatype monitor_state = Mo_Created | Mo_Running | Mo_Stopping | Mo_Stopped

record notify_node =
  nn_timestamp :: u64
  nn_thread :: u64

text \<open>\<open>mo_hook\<close>, \<open>mo_handler\<close> and \<open>mo_thread\<close>: what \<open>start\<close> has installed.\<close>

record monitor =
  mo_queue :: "notify_node set"
  mo_state :: monitor_state
  mo_blocker :: bool
  mo_hook :: bool
  mo_handler :: bool
  mo_thread :: bool

definition monitor_default :: monitor where
  "monitor_default = \<lparr>mo_queue = {}, mo_state = Mo_Created, mo_blocker = False, mo_hook = False,
     mo_handler = False, mo_thread = False\<rparr>"

text \<open>\<open>handler_ok\<close> and \<open>spawn_ok\<close>: whether the operating system installs the handler and spawns the thread.\<close>

definition monitor_start :: "bool \<Rightarrow> bool \<Rightarrow> monitor \<Rightarrow> (error_kind, unit) rust \<times> monitor" where
  "monitor_start handler_ok spawn_ok m =
     (case mo_state m of
        Mo_Created \<Rightarrow>
          (let m1 = m\<lparr>mo_state := Mo_Running, mo_hook := True\<rparr>
           in if \<not> handler_ok then (Err EK_Other, m1)
              else let m2 = m1\<lparr>mo_handler := True\<rparr>
              in if \<not> spawn_ok then (Err EK_Other, m2)
                 else (Ok (), m2\<lparr>mo_thread := True\<rparr>))
      | Mo_Running \<Rightarrow> (Ok (), m)
      | Mo_Stopping \<Rightarrow> (Err EK_Unsupported, m)
      | Mo_Stopped \<Rightarrow> (Err EK_Unsupported, m))"

definition monitor_stop :: "monitor \<Rightarrow> monitor" where
  "monitor_stop m = m\<lparr>mo_state := Mo_Stopping\<rparr>"

definition monitor_submit :: "bool \<Rightarrow> bool \<Rightarrow> u64 \<Rightarrow> u64 \<Rightarrow> monitor \<Rightarrow> (error_kind, notify_node) rust \<times> monitor" where
  "monitor_submit handler_ok spawn_ok self timestamp m =
     (case monitor_start handler_ok spawn_ok m of
        (Ok u, m1) \<Rightarrow>
          (let node = \<lparr>nn_timestamp = timestamp, nn_thread = self\<rparr>
           in (Ok node, m1\<lparr>mo_queue := insert node (mo_queue m1), mo_blocker := blocker_notify (mo_blocker m1)\<rparr>))
      | (Err e, m1) \<Rightarrow> (Err e, m1)
      | (Panic msg, m1) \<Rightarrow> (Panic msg, m1)
      | (Hang, m1) \<Rightarrow> (Hang, m1))"

definition monitor_remove :: "notify_node \<Rightarrow> monitor \<Rightarrow> bool \<times> monitor" where
  "monitor_remove node m = (node \<in> mo_queue m, m\<lparr>mo_queue := mo_queue m - {node}\<rparr>)"

section \<open>The thread\<close>

text \<open>One pass over the queue, in the order of the hash set: the clock is read for every node. The result are the threads signalled.\<close>

fun monitor_pass :: "(nat \<Rightarrow> u64) \<Rightarrow> nat \<Rightarrow> notify_node list \<Rightarrow> u64 list" where
  "monitor_pass clock k [] = []"
| "monitor_pass clock k (node # nodes) =
     (if clock k < nn_timestamp node then monitor_pass clock (Suc k) nodes
      else nn_thread node # monitor_pass clock (Suc k) nodes)"

text \<open>
  \<open>order\<close> is the iteration order of the set, \<open>meanwhile i\<close> what other threads do to the monitor during
  the \<open>i\<close>-th pause of at most a millisecond.
\<close>

fun monitor_loop ::
  "(nat \<Rightarrow> u64) \<Rightarrow> (notify_node set \<Rightarrow> notify_node list) \<Rightarrow> (nat \<Rightarrow> monitor \<Rightarrow> monitor) \<Rightarrow> nat \<Rightarrow> nat \<Rightarrow> nat \<Rightarrow> monitor
    \<Rightarrow> (error_kind, unit) rust \<times> u64 list \<times> monitor" where
  "monitor_loop clock order meanwhile 0 i k m = (Hang, [], m)"
| "monitor_loop clock order meanwhile (Suc fuel) i k m =
     (if mo_state m = Mo_Running \<or> mo_queue m \<noteq> {}
      then let nodes = order (mo_queue m);
               m1 = meanwhile i m;
               m2 = m1\<lparr>mo_blocker := snd (blocker_block False (mo_blocker m1))\<rparr>
           in case monitor_loop clock order meanwhile fuel (Suc i) (k + length nodes) m2 of
                (r, sigs, m3) \<Rightarrow> (r, monitor_pass clock k nodes @ sigs, m3)
      else (if mo_state m = Mo_Stopping then Ok () else Panic ''assert_eq'', [], m\<lparr>mo_state := Mo_Stopped\<rparr>))"

definition monitor_thread_main ::
  "(nat \<Rightarrow> u64) \<Rightarrow> (notify_node set \<Rightarrow> notify_node list) \<Rightarrow> (nat \<Rightarrow> monitor \<Rightarrow> monitor) \<Rightarrow> nat \<Rightarrow> monitor
    \<Rightarrow> (error_kind, unit) rust \<times> u64 list \<times> monitor" where
  "monitor_thread_main clock order meanwhile fuel m = monitor_loop clock order meanwhile fuel 0 0 m"

section \<open>Handlers\<close>

text \<open>
  \<open>st\<close> is the state of the thread's current coroutine, \<open>su\<close> whether it has a suspender. The results: whether
  the handler unblocks the signal, and whether it suspends the coroutine.
\<close>

definition sigurg_handler :: "bool \<Rightarrow> ('y, 'r) coroutine_state option \<Rightarrow> bool \<Rightarrow> bool \<times> bool" where
  "sigurg_handler mask_ok st su =
     (if mask_ok
      then (case st of
              Some s \<Rightarrow> (case s of Cs_Running \<Rightarrow> (True, su) | _ \<Rightarrow> (False, False))
            | None \<Rightarrow> (True, su))
      else (False, False))"

text \<open>On Windows the first attempt only raises the thread-local flag \<open>PREEMPT_PENDING\<close>.\<close>

definition do_preempt :: "bool \<Rightarrow> ('y, 'r) coroutine_state option \<Rightarrow> bool \<Rightarrow> bool \<times> bool" where
  "do_preempt pending st su =
     (if pending
      then (case st of
              Some s \<Rightarrow> (case s of Cs_Running \<Rightarrow> (False, su) | _ \<Rightarrow> (False, False))
            | None \<Rightarrow> (False, su))
      else (True, False))"

text \<open>The panic hook \<open>start\<close> installs, for the current coroutine; failed changes of state are only logged.\<close>

definition panic_hook ::
  "('l, unit, 'r, 'w) listener \<Rightarrow> u64 \<Rightarrow> ('k, unit, 'r, 'l) coroutine \<Rightarrow> 'w thread
    \<Rightarrow> ('k, unit, 'r, 'l) coroutine \<times> 'w thread" where
  "panic_hook lsn t co th =
     (case co_syscall lsn () Sn_panicking Ss_Executing co th of (r, co1, th1) \<Rightarrow>
        (case co_running lsn t co1 th1 of (r2, co2, th2) \<Rightarrow> (co2, th2)))"

section \<open>The listener\<close>

text \<open>
  What the listener sees and changes: the monitor, the locals of every coroutine, the thread it runs on, whether
  that is the monitor's own, and the clock.
\<close>

record mon_world =
  mw_monitor :: monitor
  mw_locals :: "u64 \<Rightarrow> notify_node factory"
  mw_self :: u64
  mw_is_monitor :: bool
  mw_reads :: nat

record mon_env =
  me_clock :: "nat \<Rightarrow> u64"
  me_handler_ok :: bool
  me_spawn_ok :: bool

definition NOTIFY_NODE :: string where
  "NOTIFY_NODE = ''MONITOR_NODE''"

definition node_ty :: "notify_node \<Rightarrow> unit" where
  "node_ty n = ()"

definition on_running_state :: "mon_env \<Rightarrow> u64 \<Rightarrow> mon_world \<Rightarrow> mon_world \<times> bool" where
  "on_running_state E cid w =
     (let timestamp = get_timeout_time (me_clock E (mw_reads w)) (10 * 10 ^ 6);
          w1 = w\<lparr>mw_reads := Suc (mw_reads w)\<rparr>
      in case monitor_submit (me_handler_ok E) (me_spawn_ok E) (mw_self w) timestamp (mw_monitor w1) of
           (Ok node, m) \<Rightarrow>
             (case local_put node_ty NOTIFY_NODE node (mw_locals w1 cid) of (r, f) \<Rightarrow>
                (w1\<lparr>mw_monitor := m, mw_locals := (mw_locals w1)(cid := f)\<rparr>, False))
         | (_, m) \<Rightarrow> (w1\<lparr>mw_monitor := m\<rparr>, False))"

definition on_other_state :: "u64 \<Rightarrow> mon_world \<Rightarrow> mon_world \<times> bool" where
  "on_other_state cid w =
     (case local_get node_ty () NOTIFY_NODE (mw_locals w cid) of
        Ok (Some node) \<Rightarrow> (w\<lparr>mw_monitor := snd (monitor_remove node (mw_monitor w))\<rparr>, False)
      | _ \<Rightarrow> (w, False))"

text \<open>A listener is named by the coroutine whose locals it is given. Only \<open>on_state_changed\<close> is implemented.\<close>

definition monitor_listener :: "mon_env \<Rightarrow> (u64, 'y, 'r, mon_world) listener" where
  "monitor_listener E cid ev w =
     (case ev of
        On_state_changed old new \<Rightarrow>
          (if mw_is_monitor w then (w, False)
           else case new of
             Cs_Ready \<Rightarrow> (w, False)
           | Cs_Running \<Rightarrow> on_running_state E cid w
           | _ \<Rightarrow> on_other_state cid w)
      | _ \<Rightarrow> (w, False))"

section \<open>Lemmas\<close>

text \<open>A monitor that is or can be started: submitting a node succeeds.\<close>

definition accepts :: "mon_env \<Rightarrow> monitor \<Rightarrow> bool" where
  "accepts E m \<longleftrightarrow> mo_state m = Mo_Running \<or> mo_state m = Mo_Created \<and> me_handler_ok E \<and> me_spawn_ok E"

lemma submit_accepts:
  assumes "accepts E m"
  shows "\<exists>m'. monitor_submit (me_handler_ok E) (me_spawn_ok E) self ts m = (Ok \<lparr>nn_timestamp = ts, nn_thread = self\<rparr>, m')
    \<and> mo_queue m' = insert \<lparr>nn_timestamp = ts, nn_thread = self\<rparr> (mo_queue m) \<and> accepts E m'"
  using assms by (auto simp: accepts_def monitor_submit_def monitor_start_def Let_def)

text \<open>
  \<open>tracked E Q self cid s w\<close>: besides the nodes \<open>Q\<close> of others, the queue has one of this thread exactly if the
  coroutine runs, and then it is the one in its locals, due 10 ms after some reading of the clock.
\<close>

definition node_of :: "u64 \<Rightarrow> mon_world \<Rightarrow> notify_node option" where
  "node_of cid w = abs_map (mw_locals w cid) NOTIFY_NODE"

definition tracked ::
  "mon_env \<Rightarrow> notify_node set \<Rightarrow> u64 \<Rightarrow> u64 \<Rightarrow> ('y, 'r) coroutine_state \<Rightarrow> mon_world \<Rightarrow> bool" where
  "tracked E Q self cid s w \<longleftrightarrow>
     sound node_ty (\<lambda>n. ()) (mw_locals w cid) \<and> accepts E (mw_monitor w) \<and> mw_self w = self \<and> \<not> mw_is_monitor w
     \<and> (\<forall>n. node_of cid w = Some n \<longrightarrow> n \<notin> Q)
     \<and> (if s = Cs_Running
        then \<exists>n j. node_of cid w = Some n \<and> mo_queue (mw_monitor w) = insert n Q \<and> nn_thread n = self
               \<and> j < mw_reads w \<and> nn_timestamp n = get_timeout_time (me_clock E j) (10 * 10 ^ 6)
        else mo_queue (mw_monitor w) = Q)"

lemma tracked_to_running:
  assumes "tracked E Q self cid s w" and "s \<noteq> Cs_Running" and "\<forall>n\<in>Q. nn_thread n \<noteq> self"
  shows "tracked E Q self cid Cs_Running (fst (on_running_state E cid w))"
proof -
  let ?ts = "get_timeout_time (me_clock E (mw_reads w)) (10 * 10 ^ 6)"
  let ?n = "\<lparr>nn_timestamp = ?ts, nn_thread = self\<rparr>"
  have w: "accepts E (mw_monitor w)" "mw_self w = self" "sound node_ty (\<lambda>n. ()) (mw_locals w cid)" "\<not> mw_is_monitor w"
    "mo_queue (mw_monitor w) = Q"
    using assms(1,2) by (simp_all add: tracked_def)
  from submit_accepts [OF w(1), of self ?ts] obtain m where
    m: "monitor_submit (me_handler_ok E) (me_spawn_ok E) self ?ts (mw_monitor w) = (Ok ?n, m)"
      "mo_queue m = insert ?n Q" "accepts E m"
    unfolding w(5) by blast
  obtain r f where f: "local_put node_ty NOTIFY_NODE ?n (mw_locals w cid) = (r, f)" by fastforce
  have "refines node_ty (\<lambda>n. ()) (Op_put NOTIFY_NODE ?n) (mw_locals w cid)"
    by (rule put_refines [OF w(3)]) (simp add: node_ty_def)
  with f have f': "sound node_ty (\<lambda>n. ()) f" "abs_map f NOTIFY_NODE = Some ?n" by (auto simp: refines_def)
  have "fst (on_running_state E cid w) =
      w\<lparr>mw_reads := Suc (mw_reads w), mw_monitor := m, mw_locals := (mw_locals w)(cid := f)\<rparr>"
    using m(1) f w(2) by (simp add: on_running_state_def Let_def)
  moreover have "?n \<notin> Q" using assms(3) by auto
  ultimately show ?thesis
    using m(2,3) f' w(2,4) by (auto simp: tracked_def node_of_def)
qed

lemma tracked_to_other:
  assumes "tracked E Q self cid s w" and "s' \<noteq> Cs_Running"
  shows "tracked E Q self cid s' (fst (on_other_state cid w))"
proof (cases "node_of cid w")
  case None
  have snd: "sound node_ty (\<lambda>n. ()) (mw_locals w cid)" using assms(1) by (simp add: tracked_def)
  then have "refines node_ty (\<lambda>n. ()) (Op_get NOTIFY_NODE) (mw_locals w cid)" by (rule op_refines) simp
  with None have "local_get node_ty () NOTIFY_NODE (mw_locals w cid) = Ok None"
    by (simp add: refines_def node_of_def local_get_def)
  with assms None show ?thesis by (auto simp: on_other_state_def tracked_def split: if_splits)
next
  case (Some n)
  have snd: "sound node_ty (\<lambda>n. ()) (mw_locals w cid)" using assms(1) by (simp add: tracked_def)
  then have "refines node_ty (\<lambda>n. ()) (Op_get NOTIFY_NODE) (mw_locals w cid)" by (rule op_refines) simp
  with Some have "local_get node_ty () NOTIFY_NODE (mw_locals w cid) = Ok (Some n)"
    by (simp add: refines_def node_of_def local_get_def)
  then have eq: "fst (on_other_state cid w) = w\<lparr>mw_monitor := (mw_monitor w)\<lparr>mo_queue := mo_queue (mw_monitor w) - {n}\<rparr>\<rparr>"
    by (simp add: on_other_state_def monitor_remove_def)
  have "n \<notin> Q" using assms(1) Some by (simp add: tracked_def)
  moreover have "mo_queue (mw_monitor w) = Q \<or> mo_queue (mw_monitor w) = insert n Q"
    using assms(1) Some by (auto simp: tracked_def split: if_splits)
  ultimately have "mo_queue (mw_monitor w) - {n} = Q" by auto
  with assms Some show ?thesis unfolding eq by (auto simp: tracked_def node_of_def accepts_def)
qed

lemma broadcast_one: "broadcast lsn [l] ev w = fst (lsn l ev w)"
  by (simp split: prod.splits)

lemma listener_trans:
  assumes "co_trans s s' ev" and "tracked E Q self cid s w" and "\<forall>n\<in>Q. nn_thread n \<noteq> self"
  shows "tracked E Q self cid s' (broadcast (monitor_listener E) [cid] ev
    (broadcast (monitor_listener E) [cid] (On_state_changed s s') w))"
proof -
  have mon: "\<not> mw_is_monitor w" using assms(2) by (simp add: tracked_def)
  have id: "broadcast (monitor_listener E) [cid] ev w' = w'" for w'
    using assms(1) by (cases rule: co_trans.cases) (simp_all add: monitor_listener_def)
  have "tracked E Q self cid s' (fst (monitor_listener E cid (On_state_changed s s') w))"
  proof (cases "s' = Cs_Running")
    case True
    then have "s \<noteq> Cs_Running" using assms(1) by (auto elim: co_trans.cases)
    from tracked_to_running [OF assms(2) this assms(3)] True mon show ?thesis by (simp add: monitor_listener_def)
  next
    case False
    show ?thesis
    proof (cases "s' = Cs_Ready")
      case True
      then have "s \<noteq> Cs_Running" using assms(1) by (auto elim: co_trans.cases)
      with True mon assms(2) show ?thesis by (simp add: monitor_listener_def tracked_def)
    next
      case other: False
      then have "monitor_listener E cid (On_state_changed s s') w = on_other_state cid w"
        using False mon by (cases s') (simp_all add: monitor_listener_def)
      with tracked_to_other [OF assms(2) False] show ?thesis by simp
    qed
  qed
  then show ?thesis unfolding id by (simp only: broadcast_one)
qed

lemma listener_path:
  assumes "co_path s evs s'" and "tracked E Q self cid s w" and "\<forall>n\<in>Q. nn_thread n \<noteq> self"
  shows "tracked E Q self cid s' (fold (broadcast (monitor_listener E) [cid]) evs w)"
  using assms
proof (induction arbitrary: w rule: co_path.induct)
  case (path_step s s' ev evs s'')
  from path_step.IH [OF listener_trans [OF path_step.hyps(1) path_step.prems] path_step.prems(2)]
  show ?case by simp
qed simp

text \<open>What a pass over the queue signals.\<close>

lemma pass_only_due:
  "t \<in> set (monitor_pass clock k nodes) \<Longrightarrow> \<exists>node\<in>set nodes. \<exists>j. nn_thread node = t \<and> nn_timestamp node \<le> clock j"
  by (induction nodes arbitrary: k) (auto simp: not_less split: if_splits)

lemma pass_all_due:
  "node \<in> set nodes \<Longrightarrow> (\<And>j. k \<le> j \<Longrightarrow> nn_timestamp node \<le> clock j) \<Longrightarrow> nn_thread node \<in> set (monitor_pass clock k nodes)"
proof (induction nodes arbitrary: k)
  case (Cons n nodes)
  have "nn_timestamp node \<le> clock j" if "Suc k \<le> j" for j using Cons.prems(2) [of j] that by simp
  then have "node \<in> set nodes \<Longrightarrow> nn_thread node \<in> set (monitor_pass clock (Suc k) nodes)" using Cons.IH by blast
  with Cons.prems(1) Cons.prems(2) [of k] show ?case by (auto simp: not_less)
qed simp

text \<open>If the first start fails, the monitor says it runs, and every later start succeeds without a thread.\<close>

lemma failed_start_sticks:
  "mo_state m = Mo_Created \<Longrightarrow> \<not> mo_thread m \<Longrightarrow>
     \<exists>m'. monitor_start handler_ok False m = (Err EK_Other, m') \<and> monitor_start True True m' = (Ok (), m') \<and> \<not> mo_thread m'"
  by (auto simp: monitor_start_def Let_def)

lemma handlers_spare:
  "snd (sigurg_handler mask_ok (Some s) su) \<Longrightarrow> s = Cs_Running" "snd (do_preempt pending (Some s) su) \<Longrightarrow> s = Cs_Running \<and> pending"
  by (auto simp: sigurg_handler_def do_preempt_def split: if_splits coroutine_state.splits)

lemma tracked_fresh:
  assumes "s \<noteq> Cs_Running" and "mw_locals w cid = factory_default \<lparr>bx_heap = [], bx_next = 0\<rparr>" and "accepts E (mw_monitor w)"
    and "\<not> mw_is_monitor w"
  shows "tracked E (mo_queue (mw_monitor w)) (mw_self w) cid s w"
  using assms by (auto simp: tracked_def node_of_def sound_def abs_map_def factory_default_def)

lemma tracked_node:
  assumes "tracked E Q self cid s w"
  shows "if s = Cs_Running
    then \<exists>n i. mo_queue (mw_monitor w) = insert n Q \<and> nn_thread n = self \<and> i < mw_reads w
      \<and> nn_timestamp n = get_timeout_time (me_clock E i) (10 * 10 ^ 6)
    else mo_queue (mw_monitor w) = Q"
  using assms by (cases "s = Cs_Running") (auto simp: tracked_def)

definition demo_mon_env :: mon_env where
  "demo_mon_env = \<lparr>me_clock = (\<lambda>k. 5), me_handler_ok = True, me_spawn_ok = True\<rparr>"

definition demo_mon_world :: mon_world where
  "demo_mon_world = \<lparr>mw_monitor = monitor_default, mw_locals = (\<lambda>cid. factory_default \<lparr>bx_heap = [], bx_next = 0\<rparr>),
     mw_self = 9, mw_is_monitor = False, mw_reads = 0\<rparr>"

section \<open>Properties\<close>



end
