(* ===== verification/OC_Preempt.thy ===== *)
theory OC_Preempt
  imports OC_Prelude
begin

text \<open>
  Preemption of a suspended thread on Windows (\<^verbatim>\<open>core/src/monitor.rs\<close>): \<open>preempt_thread\<close> redirects the thread
  to the assembly stub \<open>preempt_asm\<close>, which saves the registers, calls \<open>do_preempt\<close>, restores them and
  returns to where the thread was. The stub is modelled instruction by instruction, for x86-64 and for
  i686, on a processor with registers, flags and byte-addressed memory; the code behind the call is a parameter,
  of which only the calling convention is known.
\<close>

unbundle bit_operations_syntax

section \<open>The processor\<close>

text \<open>The 32-bit code uses the first seven registers and \<open>RSP\<close>, which stand for \<open>EAX\<close> to \<open>EDI\<close> and \<open>ESP\<close>.\<close>

datatype reg =
    RAX | RCX | RDX | RBX | RBP | RSI | RDI | R8 | R9 | R10 | R11 | R12 | R13 | R14 | R15 | RSP

record 'v cpu =
  rg :: "reg \<Rightarrow> 'v"
  xm :: "nat \<Rightarrow> 128 word"
  fl :: 'v
  ip :: 'v
  ram :: "nat \<Rightarrow> 8 word"

text \<open>Little-endian access to \<open>n\<close> bytes.\<close>

primrec load :: "nat \<Rightarrow> nat \<Rightarrow> (nat \<Rightarrow> 8 word) \<Rightarrow> nat" where
  "load 0 a m = 0"
| "load (Suc n) a m = unat (m a) + 256 * load n (Suc a) m"

primrec store :: "nat \<Rightarrow> nat \<Rightarrow> nat \<Rightarrow> (nat \<Rightarrow> 8 word) \<Rightarrow> nat \<Rightarrow> 8 word" where
  "store 0 a v m = m"
| "store (Suc n) a v m = store n (Suc a) (v div 256) (m(a := of_nat v))"

definition wbytes :: "'w::len word \<Rightarrow> nat" where
  "wbytes x = LENGTH('w) div 8"

datatype instr =
    Pushf | Popf | Push reg | Pop reg | Sub_sp nat | And_sp nat | Add_sp nat | Mov reg reg | Mov_from reg reg nat
  | Movups_to nat nat | Movups_from nat nat | Call reg | Ret

text \<open>The status flags of an arithmetic result: carry, parity, auxiliary carry, zero, sign, overflow.\<close>

definition put_bit :: "nat \<Rightarrow> bool \<Rightarrow> 'w::len word \<Rightarrow> 'w word" where
  "put_bit n b w = (if b then set_bit n w else unset_bit n w)"

definition parity_flag :: "'w::len word \<Rightarrow> bool" where
  "parity_flag r \<longleftrightarrow> even (length (filter (bit r) [0..<8]))"

definition status :: "bool \<Rightarrow> bool \<Rightarrow> bool \<Rightarrow> 'w::len word \<Rightarrow> 'w word \<Rightarrow> 'w word" where
  "status cf af ovf r old =
     put_bit 11 ovf (put_bit 7 (bit r (LENGTH('w) - 1)) (put_bit 6 (r = 0) (put_bit 4 af
       (put_bit 2 (parity_flag r) (put_bit 0 cf old)))))"

definition add_status :: "'w::len word \<Rightarrow> 'w word \<Rightarrow> 'w word \<Rightarrow> 'w word" where
  "add_status a b old =
     status (a + b < a) (unat (take_bit 4 a) + unat (take_bit 4 b) > 15)
       (bit (a XOR (a + b)) (LENGTH('w) - 1) \<and> bit (b XOR (a + b)) (LENGTH('w) - 1)) (a + b) old"

definition sub_status :: "'w::len word \<Rightarrow> 'w word \<Rightarrow> 'w word \<Rightarrow> 'w word" where
  "sub_status a b old =
     status (a < b) (take_bit 4 a < take_bit 4 b)
       (bit (a XOR b) (LENGTH('w) - 1) \<and> bit (a XOR (a - b)) (LENGTH('w) - 1)) (a - b) old"

definition push :: "'w::len word \<Rightarrow> 'w word cpu \<Rightarrow> 'w word cpu" where
  "push v c =
     (let sp = rg c RSP - of_nat (wbytes v)
      in c\<lparr>rg := (rg c)(RSP := sp), ram := store (wbytes v) (unat sp) (unat v) (ram c)\<rparr>)"

definition top :: "'w::len word cpu \<Rightarrow> 'w word" where
  "top c = of_nat (load (wbytes (rg c RSP)) (unat (rg c RSP)) (ram c))"

definition raise_sp :: "'w::len word cpu \<Rightarrow> 'w word cpu" where
  "raise_sp c = c\<lparr>rg := (rg c)(RSP := rg c RSP + of_nat (wbytes (rg c RSP)))\<rparr>"

text \<open>\<open>And_sp k\<close> is \<open>and rsp, -k\<close>. \<open>callee f\<close> is the effect of the code at \<open>f\<close>, from its call to its return.\<close>

primrec exec :: "('w::len word \<Rightarrow> 'w word cpu \<Rightarrow> 'w word cpu) \<Rightarrow> instr \<Rightarrow> 'w word cpu \<Rightarrow> 'w word cpu" where
  "exec callee Pushf c = push (fl c) c"
| "exec callee Popf c = (raise_sp c)\<lparr>fl := top c\<rparr>"
| "exec callee (Push r) c = push (rg c r) c"
| "exec callee (Pop r) c = (let c1 = raise_sp c in c1\<lparr>rg := (rg c1)(r := top c)\<rparr>)"
| "exec callee (Sub_sp k) c =
     c\<lparr>rg := (rg c)(RSP := rg c RSP - of_nat k), fl := sub_status (rg c RSP) (of_nat k) (fl c)\<rparr>"
| "exec callee (And_sp k) c =
     (let sp = rg c RSP AND - of_nat k in c\<lparr>rg := (rg c)(RSP := sp), fl := status False (bit (fl c) 4) False sp (fl c)\<rparr>)"
| "exec callee (Add_sp k) c =
     c\<lparr>rg := (rg c)(RSP := rg c RSP + of_nat k), fl := add_status (rg c RSP) (of_nat k) (fl c)\<rparr>"
| "exec callee (Mov d r) c = c\<lparr>rg := (rg c)(d := rg c r)\<rparr>"
| "exec callee (Mov_from d r k) c =
     c\<lparr>rg := (rg c)(d := of_nat (load (wbytes (rg c r)) (unat (rg c r + of_nat k)) (ram c)))\<rparr>"
| "exec callee (Movups_to k i) c = c\<lparr>ram := store 16 (unat (rg c RSP + of_nat k)) (unat (xm c i)) (ram c)\<rparr>"
| "exec callee (Movups_from i k) c = c\<lparr>xm := (xm c)(i := of_nat (load 16 (unat (rg c RSP + of_nat k)) (ram c)))\<rparr>"
| "exec callee (Call r) c = callee (rg c r) c"
| "exec callee Ret c = (raise_sp c)\<lparr>ip := top c\<rparr>"

definition run :: "('w::len word \<Rightarrow> 'w word cpu \<Rightarrow> 'w word cpu) \<Rightarrow> instr list \<Rightarrow> 'w word cpu \<Rightarrow> 'w word cpu" where
  "run callee is c = fold (exec callee) is c"

section \<open>The stubs\<close>

definition preempt_asm :: "instr list" where
  "preempt_asm =
     [Pushf, Push RAX, Push RCX, Push RDX, Push RBX, Push RBP, Push RSI, Push RDI, Push R8, Push R9, Push R10,
      Push R11, Push R12, Push R13, Push R14, Push R15, Sub_sp 256,
      Movups_to 0 0, Movups_to 16 1, Movups_to 32 2, Movups_to 48 3, Movups_to 64 4, Movups_to 80 5,
      Movups_to 96 6, Movups_to 112 7, Movups_to 128 8, Movups_to 144 9, Movups_to 160 10, Movups_to 176 11,
      Movups_to 192 12, Movups_to 208 13, Movups_to 224 14, Movups_to 240 15,
      Mov R12 RSP, And_sp 16, Sub_sp 32, Mov_from RAX R12 384, Call RAX, Mov RSP R12,
      Movups_from 0 0, Movups_from 1 16, Movups_from 2 32, Movups_from 3 48, Movups_from 4 64, Movups_from 5 80,
      Movups_from 6 96, Movups_from 7 112, Movups_from 8 128, Movups_from 9 144, Movups_from 10 160,
      Movups_from 11 176, Movups_from 12 192, Movups_from 13 208, Movups_from 14 224, Movups_from 15 240,
      Add_sp 256, Pop R15, Pop R14, Pop R13, Pop R12, Pop R11, Pop R10, Pop R9, Pop R8, Pop RDI, Pop RSI, Pop RBP,
      Pop RBX, Pop RDX, Pop RCX, Pop RAX, Popf, Add_sp 8, Ret]"

definition preempt_asm_i686 :: "instr list" where
  "preempt_asm_i686 =
     [Pushf, Push RAX, Push RCX, Push RDX, Push RBX, Push RBP, Push RSI, Push RDI, Sub_sp 128,
      Movups_to 0 0, Movups_to 16 1, Movups_to 32 2, Movups_to 48 3, Movups_to 64 4, Movups_to 80 5,
      Movups_to 96 6, Movups_to 112 7,
      Mov RBX RSP, And_sp 16, Mov_from RAX RBX 160, Call RAX, Mov RSP RBX,
      Movups_from 0 0, Movups_from 1 16, Movups_from 2 32, Movups_from 3 48, Movups_from 4 64, Movups_from 5 80,
      Movups_from 6 96, Movups_from 7 112,
      Add_sp 128, Pop RDI, Pop RSI, Pop RBP, Pop RBX, Pop RDX, Pop RCX, Pop RAX, Popf, Add_sp 4, Ret]"

text \<open>
  What \<open>preempt_thread\<close> does to the context of the suspended thread: the address of \<open>do_preempt\<close> and the
  instruction pointer are put below its stack pointer, and it continues at the stub.
\<close>

definition redirect :: "'w::len word \<Rightarrow> 'w word \<Rightarrow> 'w word cpu \<Rightarrow> 'w word cpu" where
  "redirect do_preempt asm c =
     (let n = wbytes (ip c); sp = rg c RSP - of_nat (2 * n)
      in c\<lparr>rg := (rg c)(RSP := sp),
           ram := store n (unat sp) (unat do_preempt) (store n (unat (sp + of_nat n)) (unat (ip c)) (ram c)),
           ip := asm\<rparr>)"

text \<open>The calls of the operating system around it, each of which may fail; the thread with its handles.\<close>

record win_answers =
  wa_open :: bool
  wa_suspend :: bool
  wa_get :: bool
  wa_set :: bool

record 'v win_thread =
  wt_cpu :: "'v cpu"
  wt_suspended :: int
  wt_handles :: int

definition open_thread :: "'v win_thread \<Rightarrow> 'v win_thread" where
  "open_thread t = t\<lparr>wt_handles := wt_handles t + 1\<rparr>"

definition close_handle :: "'v win_thread \<Rightarrow> 'v win_thread" where
  "close_handle t = t\<lparr>wt_handles := wt_handles t - 1\<rparr>"

definition suspend_thread :: "'v win_thread \<Rightarrow> 'v win_thread" where
  "suspend_thread t = t\<lparr>wt_suspended := wt_suspended t + 1\<rparr>"

definition resume_thread :: "'v win_thread \<Rightarrow> 'v win_thread" where
  "resume_thread t = t\<lparr>wt_suspended := wt_suspended t - 1\<rparr>"

text \<open>
  The stack is written before \<open>SetThreadContext\<close> is known to succeed; the registers only then.
\<close>

definition preempt_thread ::
  "win_answers \<Rightarrow> 'w::len word \<Rightarrow> 'w word \<Rightarrow> 'w word win_thread \<Rightarrow> bool \<times> 'w word win_thread" where
  "preempt_thread a do_preempt asm t =
     (if \<not> wa_open a then (False, t)
      else let t1 = open_thread t
      in if \<not> wa_suspend a then (False, close_handle t1)
      else let t2 = suspend_thread t1
      in if \<not> wa_get a then (False, close_handle (resume_thread t2))
      else let c = redirect do_preempt asm (wt_cpu t2); t3 = t2\<lparr>wt_cpu := (wt_cpu t2)\<lparr>ram := ram c\<rparr>\<rparr>
      in if \<not> wa_set a then (False, close_handle (resume_thread t3))
      else (True, close_handle (resume_thread (t3\<lparr>wt_cpu := c\<rparr>))))"

section \<open>Memory\<close>

lemma store_other: "x < a \<or> a + n \<le> x \<Longrightarrow> store n a v m x = m x"
  by (induction n arbitrary: a v m) auto

lemma load_cong: "(\<And>x. a \<le> x \<Longrightarrow> x < a + n \<Longrightarrow> m x = m' x) \<Longrightarrow> load n a m = load n a m'"
  by (induction n arbitrary: a) auto

lemma load_store: "v < 256 ^ n \<Longrightarrow> load n a (store n a v m) = v"
proof (induction n arbitrary: a v m)
  case (Suc n)
  then have "v div 256 < 256 ^ n" by (simp add: less_mult_imp_div_less mult.commute)
  with Suc.IH [of "v div 256" "Suc a"] show ?case by (simp add: store_other unat_of_nat)
qed simp

lemma load_store_other: "a + n \<le> b \<or> b + k \<le> a \<Longrightarrow> load n a (store k b v m) = load n a m"
  by (rule load_cong) (auto intro!: store_other)

text \<open>Consecutive slots of \<open>n\<close> bytes.\<close>

primrec slots :: "nat \<Rightarrow> nat \<Rightarrow> nat list \<Rightarrow> (nat \<Rightarrow> 8 word) \<Rightarrow> bool" where
  "slots n a [] m \<longleftrightarrow> True"
| "slots n a (v # vs) m \<longleftrightarrow> load n a m = v \<and> slots n (a + n) vs m"

lemma slots_append: "slots n a (xs @ ys) m \<longleftrightarrow> slots n a xs m \<and> slots n (a + n * length xs) ys m"
  by (induction xs arbitrary: a) (auto simp: algebra_simps)

lemma slots_cong:
  "(\<And>x. a \<le> x \<Longrightarrow> x < a + n * length vs \<Longrightarrow> m x = m' x) \<Longrightarrow> slots n a vs m \<longleftrightarrow> slots n a vs m'"
proof (induction vs arbitrary: a)
  case (Cons v vs)
  have "load n a m = load n a m'" by (rule load_cong) (simp add: Cons.prems)
  moreover have "slots n (a + n) vs m \<longleftrightarrow> slots n (a + n) vs m'" by (rule Cons.IH) (simp add: Cons.prems)
  ultimately show ?case by simp
qed simp

section \<open>Runs\<close>

lemma run_simps [simp]:
  "run callee [] c = c" "run callee (i # is) c = run callee is (exec callee i c)"
  "run callee (is @ js) c = run callee js (run callee is c)"
  by (simp_all add: run_def)

lemma unat_bytes: "8 dvd LENGTH('w) \<Longrightarrow> unat (v :: 'w::len word) < 256 ^ (LENGTH('w) div 8)"
proof -
  assume "8 dvd LENGTH('w)"
  moreover have "(256 :: nat) ^ (LENGTH('w) div 8) = 2 ^ (8 * (LENGTH('w) div 8))" by (simp add: power_mult)
  ultimately show ?thesis by simp
qed

lemma unat_sp_sub: "k \<le> unat sp \<Longrightarrow> unat (sp - of_nat k :: 'w::len word) = unat sp - k"
proof -
  assume k: "k \<le> unat sp"
  then have "k < 2 ^ LENGTH('w)" using unsigned_less [of sp] by (rule le_less_trans)
  then have "unat (of_nat k :: 'w word) = k" by (simp add: unat_of_nat)
  with k show ?thesis by (simp add: unat_sub word_le_nat_alt)
qed

lemma unat_sp_add: "unat sp + k < 2 ^ LENGTH('w) \<Longrightarrow> unat (sp + of_nat k :: 'w::len word) = unat sp + k"
proof -
  assume k: "unat sp + k < 2 ^ LENGTH('w)"
  then have "unat (of_nat k :: 'w word) = k" by (simp add: unat_of_nat)
  with k show ?thesis by (metis unat_add_lem)
qed

lemma push_slot:
  fixes c :: "'w::len word cpu"
  assumes "8 dvd LENGTH('w)" and "LENGTH('w) div 8 \<le> unat (rg c RSP)"
  shows "load (LENGTH('w) div 8) (unat (rg c RSP) - LENGTH('w) div 8) (ram (push v c)) = unat v"
    and "unat (rg c RSP) \<le> x \<Longrightarrow> ram (push v c) x = ram c x"
  using assms load_store [OF unat_bytes [OF assms(1), of v]] by (auto simp: push_def Let_def wbytes_def unat_sp_sub intro!: store_other)

lemma push_frame [simp]:
  "rg (push v c) = (rg c)(RSP := rg c RSP - of_nat (wbytes v))" "xm (push v c) = xm c" "fl (push v c) = fl c" "ip (push v c) = ip c"
  by (simp_all add: push_def Let_def)

lemma pushes:
  fixes c :: "'w::len word cpu"
  assumes "8 dvd LENGTH('w)" and "RSP \<notin> set rs" and "LENGTH('w) div 8 * length rs \<le> unat (rg c RSP)"
  shows "\<exists>m. run callee (map Push rs) c = c\<lparr>rg := (rg c)(RSP := rg c RSP - of_nat (LENGTH('w) div 8 * length rs)), ram := m\<rparr>
    \<and> (\<forall>x\<ge>unat (rg c RSP). m x = ram c x)
    \<and> slots (LENGTH('w) div 8) (unat (rg c RSP) - LENGTH('w) div 8 * length rs) (rev (map (\<lambda>r. unat (rg c r)) rs)) m"
  using assms(2,3)
proof (induction rs arbitrary: c)
  case Nil
  then show ?case by (intro exI [of _ "ram c"]) simp
next
  case (Cons r rs)
  let ?n = "LENGTH('w) div 8"
  let ?c = "push (rg c r) c"
  have sp: "unat (rg ?c RSP) = unat (rg c RSP) - ?n" using Cons.prems by (simp add: wbytes_def unat_sp_sub)
  have "RSP \<notin> set rs" "?n * length rs \<le> unat (rg ?c RSP)" using Cons.prems sp by simp_all
  from Cons.IH [OF this]
  obtain m where m: "run callee (map Push rs) ?c = ?c\<lparr>rg := (rg ?c)(RSP := rg ?c RSP - of_nat (?n * length rs)), ram := m\<rparr>"
    "\<And>x. unat (rg ?c RSP) \<le> x \<Longrightarrow> m x = ram ?c x"
    "slots ?n (unat (rg ?c RSP) - ?n * length rs) (rev (map (\<lambda>r. unat (rg ?c r)) rs)) m"
    by blast
  have "load ?n (unat (rg c RSP) - ?n) m = load ?n (unat (rg c RSP) - ?n) (ram ?c)"
    by (rule load_cong) (use m(2) sp in simp)
  then have last: "load ?n (unat (rg c RSP) - ?n) m = unat (rg c r)"
    using push_slot(1) [OF assms(1), of c] Cons.prems(2) by simp
  have regs: "map (\<lambda>r. unat (rg ?c r)) rs = map (\<lambda>r. unat (rg c r)) rs" using Cons.prems(1) by auto
  have slots: "slots ?n (unat (rg c RSP) - ?n - ?n * length rs) (rev (map (\<lambda>r. unat (rg c r)) rs)) m"
    using m(3) unfolding regs sp .
  have pos: "unat (rg c RSP) - ?n - ?n * length rs + ?n * length rs = unat (rg c RSP) - ?n" using Cons.prems(2) by simp
  show ?case
  proof (intro exI [of _ m] conjI allI impI)
    show "run callee (map Push (r # rs)) c = c\<lparr>rg := (rg c)(RSP := rg c RSP - of_nat (?n * length (r # rs))), ram := m\<rparr>"
      using m(1) by (simp add: push_def Let_def wbytes_def algebra_simps)
    show "m x = ram c x" if "unat (rg c RSP) \<le> x" for x
      using that m(2) [of x] sp push_slot(2) [OF assms(1), of c x] Cons.prems(2) by simp
    show "slots ?n (unat (rg c RSP) - ?n * length (r # rs)) (rev (map (\<lambda>r. unat (rg c r)) (r # rs))) m"
      using slots last pos by (simp add: slots_append algebra_simps)
  qed
qed

lemma pops:
  fixes c :: "'w::len word cpu"
  assumes "RSP \<notin> set rs" and "unat (rg c RSP) + LENGTH('w) div 8 * length rs < 2 ^ LENGTH('w)"
    and "slots (LENGTH('w) div 8) (unat (rg c RSP)) (map (\<lambda>r. unat (v r)) rs) (ram c)"
  shows "run callee (map Pop rs) c =
    c\<lparr>rg := (\<lambda>r. if r = RSP then rg c RSP + of_nat (LENGTH('w) div 8 * length rs) else if r \<in> set rs then v r else rg c r)\<rparr>"
  using assms
proof (induction rs arbitrary: c)
  case (Cons r rs)
  let ?n = "LENGTH('w) div 8"
  let ?c = "c\<lparr>rg := (rg c)(RSP := rg c RSP + of_nat ?n, r := v r)\<rparr>"
  have pop: "exec callee (Pop r) c = ?c"
    using Cons.prems(3) by (simp add: top_def raise_sp_def wbytes_def Let_def)
  have sp: "rg ?c RSP = rg c RSP + of_nat ?n" "unat (rg c RSP + of_nat ?n) = unat (rg c RSP) + ?n"
    using Cons.prems(1,2) by (auto intro!: unat_sp_add)
  have "run callee (map Pop rs) ?c = ?c\<lparr>rg := (\<lambda>r. if r = RSP then rg ?c RSP + of_nat (?n * length rs)
      else if r \<in> set rs then v r else rg ?c r)\<rparr>"
    by (rule Cons.IH) (use Cons.prems sp in \<open>auto simp: algebra_simps\<close>)
  then show ?case using pop sp Cons.prems(1) by (auto simp: fun_eq_iff algebra_simps)
qed (auto simp: fun_eq_iff intro!: cpu.equality)

lemma saves:
  fixes c :: "'w::len word cpu"
  assumes "unat (rg c RSP) + 16 * n < 2 ^ LENGTH('w)"
  shows "\<exists>m. run callee (map (\<lambda>i. Movups_to (16 * i) i) [0..<n]) c = c\<lparr>ram := m\<rparr>
    \<and> (\<forall>x. x < unat (rg c RSP) \<or> unat (rg c RSP) + 16 * n \<le> x \<longrightarrow> m x = ram c x)
    \<and> slots 16 (unat (rg c RSP)) (map (\<lambda>i. unat (xm c i)) [0..<n]) m"
  using assms
proof (induction n)
  case 0
  then show ?case by (intro exI [of _ "ram c"]) simp
next
  case (Suc n)
  let ?a = "unat (rg c RSP)"
  obtain m where m: "run callee (map (\<lambda>i. Movups_to (16 * i) i) [0..<n]) c = c\<lparr>ram := m\<rparr>"
    "\<And>x. x < ?a \<or> ?a + 16 * n \<le> x \<Longrightarrow> m x = ram c x" "slots 16 ?a (map (\<lambda>i. unat (xm c i)) [0..<n]) m"
    using Suc by auto
  let ?m = "store 16 (?a + 16 * n) (unat (xm c n)) m"
  have a: "unat (rg c RSP + of_nat (16 * n)) = ?a + 16 * n" using Suc.prems by (intro unat_sp_add) simp
  have "unat (xm c n) < 256 ^ 16" using unsigned_less [of "xm c n"] by simp
  then have "load 16 (?a + 16 * n) ?m = unat (xm c n)" by (rule load_store)
  moreover have "slots 16 ?a (map (\<lambda>i. unat (xm c i)) [0..<n]) ?m"
    using m(3) by (subst slots_cong [where m' = m]) (auto intro!: store_other)
  ultimately have "slots 16 ?a (map (\<lambda>i. unat (xm c i)) [0..<Suc n]) ?m" by (simp add: slots_append)
  moreover have "run callee (map (\<lambda>i. Movups_to (16 * i) i) [0..<Suc n]) c = c\<lparr>ram := ?m\<rparr>" using m(1) a by simp
  moreover have "?m x = ram c x" if "x < ?a \<or> ?a + 16 * Suc n \<le> x" for x
    using that m(2) [of x] store_other [of x "?a + 16 * n" 16] by auto
  ultimately show ?case by blast
qed

lemma loads:
  fixes c :: "'w::len word cpu"
  assumes "unat (rg c RSP) + 16 * n < 2 ^ LENGTH('w)" and "slots 16 (unat (rg c RSP)) (map (\<lambda>i. unat (u i)) [0..<n]) (ram c)"
  shows "run callee (map (\<lambda>i. Movups_from i (16 * i)) [0..<n]) c = c\<lparr>xm := (\<lambda>i. if i < n then u i else xm c i)\<rparr>"
  using assms
proof (induction n)
  case (Suc n)
  have "unat (rg c RSP + of_nat (16 * n)) = unat (rg c RSP) + 16 * n" using Suc.prems by (intro unat_sp_add) simp
  with Suc show ?case by (auto simp: slots_append fun_eq_iff less_Suc_eq)
qed simp

lemma and_sp_nat:
  assumes "5 \<le> LENGTH('w)"
  shows "unat (sp AND - of_nat 16 :: 'w::len word) = 16 * (unat sp div 16)"
proof -
  have eq: "sp AND - of_nat 16 = push_bit 4 (drop_bit 4 sp)"
  proof -
    have "sp AND NOT (mask k) = push_bit k (drop_bit k sp)" for k
      by (rule bit_word_eqI) (auto simp: bit_simps)
    moreover have "- of_nat 16 = (NOT (mask 4) :: 'w word)" using minus_exp_eq_not_mask [of 4, where 'a = "'w word"] by simp
    ultimately show ?thesis by metis
  qed
  have "16 * (unat sp div 16) < 2 ^ LENGTH('w)"
    using unsigned_less [of sp] by (metis le_less_trans times_div_less_eq_dividend)
  then show ?thesis unfolding eq
    by (simp only: unsigned_push_bit_eq unsigned_drop_bit_eq take_bit_eq_mod)
      (simp add: push_bit_eq_mult drop_bit_eq_div mult.commute)
qed

text \<open>The shape both stubs have: \<open>n\<close> bytes a slot, registers \<open>rs\<close>, frame pointer \<open>b\<close>, \<open>k\<close> vector registers, shadow space \<open>h\<close>.\<close>

definition save_part :: "reg list \<Rightarrow> nat \<Rightarrow> instr list" where
  "save_part rs k = Pushf # map Push rs @ Sub_sp (16 * k) # map (\<lambda>i. Movups_to (16 * i) i) [0..<k]"

definition call_part :: "nat \<Rightarrow> reg list \<Rightarrow> reg \<Rightarrow> nat \<Rightarrow> nat \<Rightarrow> instr list" where
  "call_part n rs b k h =
     [Mov b RSP, And_sp 16] @ (if h = 0 then [] else [Sub_sp h]) @
     [Mov_from RAX b (16 * k + n * Suc (length rs)), Call RAX, Mov RSP b]"

definition restore_part :: "nat \<Rightarrow> reg list \<Rightarrow> nat \<Rightarrow> instr list" where
  "restore_part n rs k =
     map (\<lambda>i. Movups_from i (16 * i)) [0..<k] @ Add_sp (16 * k) # map Pop (rev rs) @ [Popf, Add_sp n, Ret]"

definition frame_of :: "reg list \<Rightarrow> nat \<Rightarrow> 'w::len word cpu \<Rightarrow> nat \<Rightarrow> (nat \<Rightarrow> 8 word) \<Rightarrow> bool" where
  "frame_of rs k c a m \<longleftrightarrow> slots 16 a (map (\<lambda>i. unat (xm c i)) [0..<k]) m
     \<and> slots (LENGTH('w) div 8) (a + 16 * k) (rev (map (\<lambda>r. unat (rg c r)) rs) @ [unat (fl c)]) m"

lemma frame_of_cong:
  fixes c :: "'w::len word cpu"
  assumes "\<And>x. a \<le> x \<Longrightarrow> m x = m' x" and "frame_of rs k c a m"
  shows "frame_of rs k c a m'"
proof -
  have "slots 16 a vs m = slots 16 a vs m'" "slots n (a + 16 * k) ws m = slots n (a + 16 * k) ws m'" for n vs ws
    by (auto intro!: slots_cong simp: assms(1))
  with assms(2) show ?thesis by (simp add: frame_of_def)
qed

lemma save_part_run:
  fixes c :: "'w::len word cpu"
  assumes "8 dvd LENGTH('w)" and "RSP \<notin> set rs"
    and "LENGTH('w) div 8 * Suc (length rs) + 16 * k + a = unat (rg c RSP)" and "0 < LENGTH('w) div 8"
  shows "\<exists>m f. run callee (save_part rs k) c = c\<lparr>rg := (rg c)(RSP := of_nat a), fl := f, ram := m\<rparr>
    \<and> (\<forall>x\<ge>unat (rg c RSP). m x = ram c x) \<and> frame_of rs k c a m"
proof -
  let ?n = "LENGTH('w) div 8" and ?B = "unat (rg c RSP)"
  let ?c = "push (fl c) c"
  have B: "?n \<le> ?B" "?B < 2 ^ LENGTH('w)" using assms(3) unsigned_less [of "rg c RSP"] by auto
  have sp: "unat (rg ?c RSP) = ?B - ?n" using B by (simp add: wbytes_def unat_sp_sub)
  obtain m where m: "run callee (map Push rs) ?c = ?c\<lparr>rg := (rg ?c)(RSP := rg ?c RSP - of_nat (?n * length rs)), ram := m\<rparr>"
    "\<forall>x\<ge>unat (rg ?c RSP). m x = ram ?c x"
    "slots ?n (unat (rg ?c RSP) - ?n * length rs) (rev (map (\<lambda>r. unat (rg ?c r)) rs)) m"
    using pushes [OF assms(1,2), of ?c callee] sp assms(3) by fastforce
  define c1 where "c1 = ?c\<lparr>ram := m, rg := (rg ?c)(RSP := rg ?c RSP - of_nat (?n * length rs) - of_nat (16 * k)),
      fl := sub_status (rg ?c RSP - of_nat (?n * length rs)) (of_nat (16 * k)) (fl c)\<rparr>"
  have "rg c RSP = of_nat (?n * Suc (length rs) + 16 * k + a)" using assms(3) by simp
  then have spa: "rg c1 RSP = of_nat a" by (simp add: c1_def wbytes_def)
  have "a < 2 ^ LENGTH('w)" using B(2) assms(3) by linarith
  with spa have A: "unat (rg c1 RSP) = a" by (simp add: unat_of_nat)
  have "unat (rg c1 RSP) + 16 * k < 2 ^ LENGTH('w)" using A B(2) assms(3) by linarith
  moreover have sel: "xm c1 = xm c" "ram c1 = m" by (simp_all add: c1_def)
  ultimately obtain m' where m': "run callee (map (\<lambda>i. Movups_to (16 * i) i) [0..<k]) c1 = c1\<lparr>ram := m'\<rparr>"
    "\<And>x. x < a \<or> a + 16 * k \<le> x \<Longrightarrow> m' x = m x" "slots 16 a (map (\<lambda>i. unat (xm c i)) [0..<k]) m'"
    using saves [of c1 k callee] unfolding A sel by blast
  have rd: "\<And>x. ?B \<le> x \<Longrightarrow> m' x = ram c x"
    using m'(2) m(2) push_slot(2) [OF assms(1) B(1), of _ "fl c"] sp assms(3) by simp
  have "load ?n (?B - ?n) m' = load ?n (?B - ?n) (ram ?c)"
  proof (rule load_cong)
    fix x
    assume "?B - ?n \<le> x"
    moreover from this have "a + 16 * k \<le> x" using assms(3) by simp
    ultimately show "m' x = ram ?c x" using m'(2) [of x] m(2) sp by simp
  qed
  then have flags: "load ?n (?B - ?n) m' = unat (fl c)" using push_slot(1) [OF assms(1) B(1)] by simp
  have regs: "map (\<lambda>r. unat (rg ?c r)) rs = map (\<lambda>r. unat (rg c r)) rs" using assms(2) by auto
  have pos: "?B - ?n - ?n * length rs = a + 16 * k" using assms(3) by simp
  have "slots ?n (a + 16 * k) (rev (map (\<lambda>r. unat (rg c r)) rs)) m" using m(3) unfolding regs sp pos .
  then have "slots ?n (a + 16 * k) (rev (map (\<lambda>r. unat (rg c r)) rs)) m'"
    by (subst slots_cong [where m' = m]) (use m'(2) in auto)
  moreover have "?B - ?n = a + 16 * k + ?n * length rs" using assms(3) by simp
  ultimately have fr: "frame_of rs k c a m'" using m'(3) flags by (simp add: frame_of_def slots_append)
  have "run callee (save_part rs k) c = run callee (map (\<lambda>i. Movups_to (16 * i) i) [0..<k]) c1"
    using m(1) by (simp add: save_part_def c1_def)
  also have "\<dots> = c1\<lparr>ram := m'\<rparr>" by (rule m'(1))
  also have "\<dots> = c\<lparr>rg := (rg c)(RSP := of_nat a), fl := fl c1, ram := m'\<rparr>"
    using spa by (auto intro!: cpu.equality simp: c1_def)
  finally show ?thesis using rd fr by blast
qed

text \<open>
  What the calling convention promises of a function called without arguments and with an aligned stack: the stack
  pointer and the registers \<open>keep\<close> come back, and the memory above the shadow space is not touched.
\<close>

definition abi :: "nat \<Rightarrow> reg set \<Rightarrow> ('w::len word cpu \<Rightarrow> 'w word cpu) \<Rightarrow> bool" where
  "abi shadow keep f \<longleftrightarrow>
     (\<forall>c. unat (rg c RSP) mod 16 = 0 \<longrightarrow>
        rg (f c) RSP = rg c RSP \<and> (\<forall>r\<in>keep. rg (f c) r = rg c r)
        \<and> (\<forall>x\<ge>unat (rg c RSP) + shadow. ram (f c) x = ram c x))"

lemma call_part_run:
  fixes c :: "'w::len word cpu"
  assumes "abi h keep (callee f)" and "b \<in> keep" and "b \<noteq> RSP" and "b \<noteq> RAX" and "5 \<le> LENGTH('w)"
    and "rg c RSP = of_nat a" and "unat (rg c RSP) = a" and "16 + h \<le> a" and "h mod 16 = 0"
    and "a + 16 * k + n * Suc (length rs) < 2 ^ LENGTH('w)" and "n = LENGTH('w) div 8"
    and "load n (a + 16 * k + n * Suc (length rs)) (ram c) = unat f"
  shows "\<exists>c'. run callee (call_part n rs b k h) c = c' \<and> rg c' RSP = of_nat a \<and> (\<forall>x\<ge>a. ram c' x = ram c x)"
proof -
  let ?sp = "(of_nat a AND - of_nat 16) - of_nat h :: 'w word"
  let ?g = "(rg c)(b := of_nat a, RSP := ?sp, RAX := f)"
  have un: "unat (of_nat a :: 'w word) = a" using assms(6,7) by simp
  have al: "unat (of_nat a AND - of_nat 16 :: 'w word) = 16 * (a div 16)" using and_sp_nat [OF assms(5), of "of_nat a"] un by simp
  have "h \<le> 16 * (a div 16)" using assms(8) by linarith
  then have sp: "unat ?sp = 16 * (a div 16) - h" using unat_sp_sub [of h "of_nat a AND - of_nat 16 :: 'w word"] al by simp
  then have m16: "unat ?sp mod 16 = 0" using assms(9) \<open>h \<le> 16 * (a div 16)\<close>
    by (metis dvd_diff_nat dvd_triv_left mod_0_imp_dvd mod_eq_0_iff_dvd)
  have off: "unat (of_nat a + of_nat (16 * k + n * Suc (length rs)) :: 'w word) = a + 16 * k + n * Suc (length rs)"
    using unat_sp_add [of "of_nat a :: 'w word" "16 * k + n * Suc (length rs)"] un assms(10) by (simp add: add.assoc)
  have ld: "load n (unat (of_nat a + of_nat (16 * k + n * Suc (length rs)) :: 'w word)) (ram c) = unat f"
    unfolding off by (rule assms(12))
  obtain fl' where "run callee ([Mov b RSP, And_sp 16] @ (if h = 0 then [] else [Sub_sp h])
      @ [Mov_from RAX b (16 * k + n * Suc (length rs))]) c = c\<lparr>fl := fl', rg := ?g\<rparr>"
  proof (cases "h = 0")
    case True
    with ld assms(3,4,6,11) that show ?thesis
      by (simp add: Let_def wbytes_def fun_upd_twist [of RAX] del: of_nat_add of_nat_mult)
  next
    case False
    with ld assms(3,4,6,11) that show ?thesis
      by (simp add: Let_def wbytes_def del: of_nat_add of_nat_mult)
  qed
  then have run: "run callee (call_part n rs b k h) c
      = exec callee (Mov RSP b) (exec callee (Call RAX) (c\<lparr>fl := fl', rg := ?g\<rparr>))"
    by (simp add: call_part_def split: if_splits)
  let ?c1 = "c\<lparr>fl := fl', rg := ?g\<rparr>"
  have "rg ?c1 RSP = ?sp" by simp
  then have "rg (callee f ?c1) b = rg ?c1 b" "\<forall>x\<ge>unat ?sp + h. ram (callee f ?c1) x = ram c x"
    using assms(1,2) m16 by (auto simp: abi_def)
  moreover have "unat ?sp + h \<le> a" using sp \<open>h \<le> 16 * (a div 16)\<close> by simp
  ultimately show ?thesis using run assms(3,4) by auto
qed

lemma restore_part_run:
  fixes c c' :: "'w::len word cpu"
  assumes "RSP \<notin> set rs" and "n = LENGTH('w) div 8"
    and "n * Suc (length rs) + 16 * k + a = unat sp" and "unat sp + 2 * n < 2 ^ LENGTH('w)"
    and "rg c' RSP = of_nat a" and "frame_of rs k c a (ram c')" and "load n (unat sp + n) (ram c') = unat ret"
    and "c'' = run callee (restore_part n rs k) c'"
  shows "rg c'' = (\<lambda>r. if r = RSP then sp + of_nat (2 * n) else if r \<in> set rs then rg c r else rg c' r)
    \<and> xm c'' = (\<lambda>i. if i < k then xm c i else xm c' i) \<and> fl c'' = add_status sp (of_nat n) (fl c) \<and> ip c'' = ret
    \<and> ram c'' = ram c'"
proof -
  define c1 where "c1 = run callee (map (\<lambda>i. Movups_from i (16 * i)) [0..<k]) c'"
  define c2 where "c2 = exec callee (Add_sp (16 * k)) c1"
  define c3 where "c3 = run callee (map Pop (rev rs)) c2"
  have un: "unat (rg c' RSP) = a" using assms(3,4,5) by (simp add: unat_of_nat)
  have "c1 = c'\<lparr>xm := (\<lambda>i. if i < k then xm c i else xm c' i)\<rparr>"
    unfolding c1_def by (rule loads) (use un assms(3,4,6) in \<open>auto simp: frame_of_def\<close>)
  then have c2: "rg c2 = (rg c')(RSP := of_nat (a + 16 * k))" "xm c2 = (\<lambda>i. if i < k then xm c i else xm c' i)" "ram c2 = ram c'"
    using assms(5) by (simp_all add: c2_def)
  have un2: "unat (rg c2 RSP) = a + 16 * k" using assms(3,4) unfolding c2 by (simp add: unat_of_nat del: of_nat_add)
  have sl: "slots n (a + 16 * k) (map (\<lambda>r. unat (rg c r)) (rev rs)) (ram c2)"
    "load n (a + 16 * k + n * length rs) (ram c') = unat (fl c)"
    using assms(2,6) c2(3) by (auto simp: frame_of_def slots_append rev_map)
  have "c3 = c2\<lparr>rg := (\<lambda>r. if r = RSP then rg c2 RSP + of_nat (n * length (rev rs)) else if r \<in> set (rev rs) then rg c r else rg c2 r)\<rparr>"
    unfolding c3_def assms(2) by (rule pops) (use assms(1-4) un2 sl(1) in auto)
  then have c3: "rg c3 = (\<lambda>r. if r = RSP then of_nat (a + 16 * k + n * length rs) else if r \<in> set rs then rg c r else rg c' r)"
    "xm c3 = xm c2" "ram c3 = ram c'"
    using c2 by (auto simp: fun_eq_iff)
  have un3: "unat (rg c3 RSP) = a + 16 * k + n * length rs"
    using assms(3,4) unfolding c3 by (simp add: unat_of_nat del: of_nat_add of_nat_mult)
  have sp3: "rg c3 RSP + of_nat n = sp"
  proof -
    have "sp = of_nat (n * Suc (length rs) + 16 * k + a)" using assms(3) by simp
    then show ?thesis by (simp add: c3 algebra_simps)
  qed
  have w: "wbytes x = n" for x :: "'w word" by (simp add: wbytes_def assms(2))
  define c4 where "c4 = exec callee Popf c3"
  have c4: "rg c4 = (rg c3)(RSP := sp)" "fl c4 = fl c" "xm c4 = xm c2" "ram c4 = ram c'"
    using sp3 un3 sl(2) c3 by (simp_all add: c4_def raise_sp_def top_def w)
  have "c'' = exec callee Ret (exec callee (Add_sp n) c4)"
    unfolding assms(8) restore_part_def by (simp add: c1_def c2_def c3_def c4_def)
  moreover have "unat (sp + of_nat n) = unat sp + n" using assms(4) by (intro unat_sp_add) simp
  ultimately show ?thesis
    using c4 c3 c2 assms(7) by (auto simp: raise_sp_def top_def w fun_eq_iff)
qed

section \<open>The stubs restore the thread\<close>

text \<open>
  \<open>c'\<close> goes on where \<open>c\<close> was: same place, same stack pointer and stack, same registers. Of the flags
  nothing is said.
\<close>

definition goes_on_as :: "reg list \<Rightarrow> nat \<Rightarrow> 'w::len word cpu \<Rightarrow> 'w word cpu \<Rightarrow> bool" where
  "goes_on_as rs k c c' \<longleftrightarrow> ip c' = ip c \<and> rg c' RSP = rg c RSP \<and> (\<forall>x\<ge>unat (rg c RSP). ram c' x = ram c x)
     \<and> (\<forall>r\<in>set rs. rg c' r = rg c r) \<and> (\<forall>i<k. xm c' i = xm c i)"

lemma redirect_sel:
  fixes c :: "'w::len word cpu"
  assumes "8 dvd LENGTH('w)" and "n = LENGTH('w) div 8" and "2 * n \<le> unat (rg c RSP)" and "c0 = redirect f asm c"
  shows "rg c0 = (rg c)(RSP := rg c RSP - of_nat (2 * n))" "xm c0 = xm c" "fl c0 = fl c" "ip c0 = asm"
    "unat (rg c0 RSP) = unat (rg c RSP) - 2 * n"
    "load n (unat (rg c0 RSP)) (ram c0) = unat f" "load n (unat (rg c0 RSP) + n) (ram c0) = unat (ip c)"
    "unat (rg c RSP) \<le> x \<Longrightarrow> ram c0 x = ram c x"
proof -
  let ?sp = "rg c RSP - of_nat (2 * n)"
  have w: "wbytes x = n" for x :: "'w word" by (simp add: wbytes_def assms(2))
  show rg: "rg c0 = (rg c)(RSP := ?sp)" and "xm c0 = xm c" "fl c0 = fl c" "ip c0 = asm"
    by (simp_all add: assms(4) redirect_def Let_def w)
  have u: "unat ?sp = unat (rg c RSP) - 2 * n" by (rule unat_sp_sub [OF assms(3)])
  then show "unat (rg c0 RSP) = unat (rg c RSP) - 2 * n" by (simp add: rg)
  have "unat (rg c RSP) < 2 ^ LENGTH('w)" by simp
  then have u2: "unat (?sp + of_nat n) = unat ?sp + n" using u assms(3) by (intro unat_sp_add) linarith
  have m: "ram c0 = store n (unat ?sp) (unat f) (store n (unat ?sp + n) (unat (ip c)) (ram c))"
    using u2 by (simp add: assms(4) redirect_def Let_def w del: of_nat_mult)
  have b: "unat v < 256 ^ n" for v :: "'w word" using unat_bytes [OF assms(1), of v] assms(2) by simp
  show "load n (unat (rg c0 RSP)) (ram c0) = unat f" unfolding m rg by (simp add: load_store [OF b] del: of_nat_mult)
  show "load n (unat (rg c0 RSP) + n) (ram c0) = unat (ip c)"
    unfolding m rg by (simp add: load_store_other load_store [OF b] del: of_nat_mult)
  show "ram c0 x = ram c x" if "unat (rg c RSP) \<le> x"
  proof -
    have "unat ?sp + n \<le> x" "unat ?sp + n + n \<le> x" using that u assms(3) by linarith+
    then show ?thesis unfolding m by (simp add: store_other)
  qed
qed

lemma stub_restores:
  fixes c :: "'w::len word cpu"
  assumes "8 dvd LENGTH('w)" and "8 \<le> LENGTH('w)" and "n = LENGTH('w) div 8" and "RSP \<notin> set rs"
    and "b \<in> keep" and "b \<noteq> RSP" and "b \<noteq> RAX" and "abi h keep (callee f)" and "h mod 16 = 0"
    and "2 * n + n * Suc (length rs) + 16 * k + 16 + h \<le> unat (rg c RSP)"
    and "c' = run callee (save_part rs k @ call_part n rs b k h @ restore_part n rs k) (redirect f asm c)"
  shows "goes_on_as rs k c c' \<and> fl c' = add_status (rg c RSP - of_nat (2 * n)) (of_nat n) (fl c)"
proof -
  define c0 where "c0 = redirect f asm c"
  let ?S = "unat (rg c RSP)"
  have S: "?S < 2 ^ LENGTH('w)" "2 * n \<le> ?S" using assms(10) by simp_all
  note r = redirect_sel [OF assms(1,3) S(2) c0_def]
  define a where "a = unat (rg c0 RSP) - (n * Suc (length rs) + 16 * k)"
  have a: "n * Suc (length rs) + 16 * k + a = unat (rg c0 RSP)" "16 + h \<le> a"
    using assms(10) unfolding a_def r(5) by linarith+
  obtain m fl' where sv: "run callee (save_part rs k) c0 = c0\<lparr>rg := (rg c0)(RSP := of_nat a), fl := fl', ram := m\<rparr>"
    "\<forall>x\<ge>unat (rg c0 RSP). m x = ram c0 x" "frame_of rs k c0 a m"
    using save_part_run [OF assms(1,4), of k a c0 callee] a(1) assms(2,3) by fastforce
  define c1 where "c1 = run callee (save_part rs k) c0"
  have c1: "rg c1 RSP = of_nat a" "ram c1 = m" by (simp_all add: c1_def sv(1))
  have "a < 2 ^ LENGTH('w)" using a(1) r(5) S by linarith
  then have un: "unat (rg c1 RSP) = a" by (simp add: c1 unat_of_nat)
  have top: "a + 16 * k + n * Suc (length rs) = unat (rg c0 RSP)" using a(1) by simp
  have ld: "load n (unat (rg c0 RSP)) m = unat f" "load n (unat (rg c0 RSP) + n) m = unat (ip c)"
    unfolding r(6) [symmetric] r(7) [symmetric] by (rule load_cong, use sv(2) in simp)+
  have less: "a + 16 * k + n * Suc (length rs) < 2 ^ LENGTH('w)" unfolding top by simp
  have ld1: "load n (a + 16 * k + n * Suc (length rs)) (ram c1) = unat f" unfolding top c1(2) by (rule ld(1))
  obtain c2 where c2: "run callee (call_part n rs b k h) c1 = c2" "rg c2 RSP = of_nat a" "\<forall>x\<ge>a. ram c2 x = ram c1 x"
    using call_part_run [where callee = callee and f = f and h = h, OF assms(8,5,6,7) _ c1(1) un a(2) assms(9) less assms(3) ld1] assms(2) by auto
  have fr: "frame_of rs k c0 a (ram c2)" by (rule frame_of_cong [OF _ sv(3)]) (use c2(3) c1(2) in simp)
  have ld2: "load n (unat (rg c0 RSP) + n) (ram c2) = unat (ip c)"
    unfolding ld(2) [symmetric] by (rule load_cong) (use c2(3) c1(2) top in simp)
  have "unat (rg c0 RSP) + 2 * n < 2 ^ LENGTH('w)" using r(5) S by linarith
  from restore_part_run [OF assms(4,3) a(1) this c2(2) fr ld2, of c' callee]
  have out: "rg c' = (\<lambda>q. if q = RSP then rg c0 RSP + of_nat (2 * n) else if q \<in> set rs then rg c0 q else rg c2 q)"
    "xm c' = (\<lambda>i. if i < k then xm c0 i else xm c2 i)" "fl c' = add_status (rg c0 RSP) (of_nat n) (fl c0)" "ip c' = ip c"
    "ram c' = ram c2"
    using assms(11) c2(1) by (auto simp: c0_def c1_def)
  have "ram c' x = ram c x" if "?S \<le> x" for x
    using that c2(3) sv(2) c1(2) r(5,8) top out(5) by auto
  with out r(1-3) assms(4) show ?thesis by (auto simp: goes_on_as_def)
qed

definition gprs :: "reg list" where
  "gprs = [RAX, RCX, RDX, RBX, RBP, RSI, RDI, R8, R9, R10, R11, R12, R13, R14, R15]"

lemma preempt_asm_shape:
  "preempt_asm = save_part gprs 16 @ call_part 8 gprs R12 16 32 @ restore_part 8 gprs 16"
  "preempt_asm_i686 = save_part (take 7 gprs) 8 @ call_part 4 (take 7 gprs) RBX 8 0 @ restore_part 4 (take 7 gprs) 8"
  by (simp_all add: preempt_asm_def preempt_asm_i686_def save_part_def call_part_def restore_part_def gprs_def
      upt_rec numeral_eq_Suc)

lemma stub_x64:
  fixes c :: "64 word cpu"
  assumes "abi 32 {RBX, RBP, RSI, RDI, R12, R13, R14, R15} (callee f)" and "448 \<le> unat (rg c RSP)"
  shows "goes_on_as gprs 16 c (run callee preempt_asm (redirect f asm c))
    \<and> fl (run callee preempt_asm (redirect f asm c)) = add_status (rg c RSP - of_nat (2 * 8)) (of_nat 8) (fl c)"
  unfolding preempt_asm_shape
  by (rule stub_restores [where callee = callee and f = f and b = R12 and h = 32, OF _ _ _ _ _ _ _ assms(1) _ _ refl]) (use assms(2) in \<open>simp_all add: gprs_def\<close>)

lemma stub_i686:
  fixes c :: "32 word cpu"
  assumes "abi 0 {RBX, RBP, RSI, RDI} (callee f)" and "192 \<le> unat (rg c RSP)"
  shows "goes_on_as (take 7 gprs) 8 c (run callee preempt_asm_i686 (redirect f asm c))
    \<and> fl (run callee preempt_asm_i686 (redirect f asm c)) = add_status (rg c RSP - of_nat (2 * 4)) (of_nat 4) (fl c)"
  unfolding preempt_asm_shape
  by (rule stub_restores [where callee = callee and f = f and b = RBX and h = 0, OF _ _ _ _ _ _ _ assms(1) _ _ refl]) (use assms(2) in \<open>simp_all add: gprs_def\<close>)

lemma thread_restored:
  fixes t :: "'w::len word win_thread"
  assumes "8 dvd LENGTH('w)" and "2 * (LENGTH('w) div 8) \<le> unat (rg (wt_cpu t) RSP)"
    and "preempt_thread a f asm t = (ok, t')"
  shows "wt_handles t' = wt_handles t \<and> wt_suspended t' = wt_suspended t
    \<and> (if ok then wt_cpu t' = redirect f asm (wt_cpu t)
       else goes_on_as rs k (wt_cpu t) (wt_cpu t') \<and> fl (wt_cpu t') = fl (wt_cpu t))"
  using assms(3) redirect_sel(8) [OF assms(1) refl assms(2) refl, of _ f asm]
  by (auto simp: preempt_thread_def open_thread_def close_handle_def suspend_thread_def resume_thread_def Let_def
      goes_on_as_def split: if_splits)

lemma zero_flag_after_add: "12 \<le> LENGTH('w) \<Longrightarrow> bit (add_status a b old :: 'w::len word) 6 \<longleftrightarrow> a + b = 0"
  by (simp add: add_status_def status_def put_bit_def bit_simps)

text \<open>
  The last addition of the stub, behind \<open>popfq\<close>, sets the status flags: the preempted code finds its zero flag
  cleared whatever it was.
\<close>

lemma preempt_loses_zero_flag:
  fixes c :: "64 word cpu"
  assumes "abi 32 {RBX, RBP, RSI, RDI, R12, R13, R14, R15} (callee f)" and "448 \<le> unat (rg c RSP)"
  shows "\<not> bit (fl (run callee preempt_asm (redirect f asm c))) 6"
proof -
  have "fl (run callee preempt_asm (redirect f asm c)) = add_status (rg c RSP - of_nat (2 * 8)) (of_nat 8) (fl c)"
    using stub_x64 [of callee f c asm, OF assms] by blast
  moreover have "rg c RSP - of_nat (2 * 8) + of_nat 8 \<noteq> 0"
  proof
    assume "rg c RSP - of_nat (2 * 8) + of_nat 8 = 0"
    then have "rg c RSP = 8" by (simp add: algebra_simps)
    with assms(2) show False by simp
  qed
  ultimately show ?thesis by (simp add: zero_flag_after_add)
qed

text \<open>The i686 stub under the convention \<open>cdecl\<close>.\<close>

lemma preempt_restores_i686:
  fixes t :: "32 word win_thread"
  assumes "abi 0 {RBX, RBP, RSI, RDI} (callee f)" and "192 \<le> unat (rg (wt_cpu t) RSP)"
    and "preempt_thread a f asm t = (True, t')"
  shows "goes_on_as (take 7 gprs) 8 (wt_cpu t) (run callee preempt_asm_i686 (wt_cpu t'))"
proof -
  have "wt_cpu t' = redirect f asm (wt_cpu t)" using thread_restored [OF _ _ assms(3)] assms(2) by simp
  then show ?thesis
    using stub_i686 [of callee f "wt_cpu t" asm, OF assms(1,2)] by simp
qed

definition busy_callee :: "64 word cpu \<Rightarrow> 64 word cpu" where
  "busy_callee c = c\<lparr>rg := (rg c)(RAX := 1, RCX := 2, RDX := 3, R8 := 4, R9 := 5, R10 := 6, R11 := 7),
     xm := (\<lambda>i. 0), fl := 0\<rparr>"

definition busy_thread :: "64 word win_thread" where
  "busy_thread = \<lparr>wt_cpu = \<lparr>rg = (\<lambda>r. if r = RSP then 4096 else 9), xm = (\<lambda>i. 11), fl = 64, ip = 4660, ram = (\<lambda>x. 3)\<rparr>,
     wt_suspended = 0, wt_handles = 0\<rparr>"

section \<open>Properties\<close>



end
