(* ===== verification/OC_Trap.thy ===== *)
theory OC_Trap
  imports OC_Coroutine
begin

text \<open>
  The handlers a coroutine installs: for invalid memory accesses (\<open>trap_handler\<close> of
  \<^verbatim>\<open>core/src/coroutine/korosensei.rs\<close>, for every target) and for cancellation (\<open>sigvtalrm_handler\<close> of
  \<^verbatim>\<open>core/src/coroutine/mod.rs\<close>). The context of the interrupted code is a function from register names, as the
  platform's headers name them, to values; which registers the crate \<open>corosensei\<close> wants set is a parameter.
\<close>

unbundle bit_operations_syntax

datatype trap_target =
    Linux_x86_64 | Linux_x86 | Apple_x86_64 | Linux_aarch64 | Linux_arm | Linux_riscv | Apple_aarch64 | Linux_loongarch64
  | Windows_x86_64 | Windows_x86

type_synonym trap_context = "string \<Rightarrow> u64"

text \<open>The stack pointer of the context. On Linux/x86-64 the register is a signed number that has to be positive.\<close>

definition trap_sp :: "trap_target \<Rightarrow> trap_context \<Rightarrow> (unit, u64) rust" where
  "trap_sp target ctx =
     (case target of
        Linux_x86_64 \<Rightarrow> (if bit (ctx ''REG_RSP'') 63 then Panic ''overflow'' else Ok (ctx ''REG_RSP''))
      | Linux_x86 \<Rightarrow> Ok (take_bit 32 (ctx ''REG_ESP''))
      | Apple_x86_64 \<Rightarrow> Ok (ctx ''__rsp'')
      | Linux_aarch64 \<Rightarrow> Ok (ctx ''sp'')
      | Linux_arm \<Rightarrow> Ok (ctx ''arm_sp'')
      | Linux_riscv \<Rightarrow> Ok (ctx ''REG_SP'')
      | Apple_aarch64 \<Rightarrow> Ok (ctx ''__sp'')
      | Linux_loongarch64 \<Rightarrow> Ok (ctx ''gregs3'')
      | Windows_x86_64 \<Rightarrow> Ok (ctx ''Rsp'')
      | Windows_x86 \<Rightarrow> Ok (take_bit 32 (ctx ''Esp'')))"

text \<open>\<open>stack_ptr_in_bounds\<close>: a stack of the coroutine, from its bottom to below its top.\<close>

definition stack_ptr_in_bounds :: "stack_info list \<Rightarrow> u64 \<Rightarrow> bool" where
  "stack_ptr_in_bounds infos sp \<longleftrightarrow> (\<exists>info\<in>set infos. stack_bottom info \<le> unat sp \<and> unat sp < stack_top info)"

definition trap_message :: "stack_info list \<Rightarrow> u64 \<Rightarrow> string" where
  "trap_message infos sp = (if stack_ptr_in_bounds infos sp then ''invalid memory reference'' else ''stack overflow'')"

text \<open>Which field of \<open>TrapHandlerRegs\<close> goes to which register of the context.\<close>

fun trap_regs :: "trap_target \<Rightarrow> (string \<times> string) list" where
  "trap_regs Linux_x86_64 =
     [(''rip'', ''REG_RIP''), (''rsp'', ''REG_RSP''), (''rbp'', ''REG_RBP''), (''rdi'', ''REG_RDI''), (''rsi'', ''REG_RSI'')]"
| "trap_regs Linux_x86 =
     [(''eip'', ''REG_EIP''), (''esp'', ''REG_ESP''), (''ebp'', ''REG_EBP''), (''ecx'', ''REG_ECX''), (''edx'', ''REG_EDX'')]"
| "trap_regs Apple_x86_64 =
     [(''rip'', ''__rip''), (''rsp'', ''__rsp''), (''rbp'', ''__rbp''), (''rdi'', ''__rdi''), (''rsi'', ''__rsi'')]"
| "trap_regs Linux_aarch64 =
     [(''pc'', ''pc''), (''sp'', ''sp''), (''x0'', ''regs0''), (''x1'', ''regs1''), (''x29'', ''regs29''), (''lr'', ''regs30'')]"
| "trap_regs Linux_arm =
     [(''pc'', ''arm_pc''), (''r0'', ''arm_r0''), (''r1'', ''arm_r1''), (''r7'', ''arm_r7''), (''r11'', ''arm_fp''),
      (''r13'', ''arm_sp''), (''r14'', ''arm_lr'')]"
| "trap_regs Linux_riscv =
     [(''pc'', ''REG_PC''), (''ra'', ''REG_RA''), (''sp'', ''REG_SP''), (''a0'', ''REG_A0''), (''a1'', ''REG_A1''), (''s0'', ''REG_S0'')]"
| "trap_regs Apple_aarch64 =
     [(''pc'', ''__pc''), (''sp'', ''__sp''), (''x0'', ''__x0''), (''x1'', ''__x1''), (''x29'', ''__fp''), (''lr'', ''__lr'')]"
| "trap_regs Linux_loongarch64 =
     [(''pc'', ''__pc''), (''ra'', ''gregs1''), (''sp'', ''gregs3''), (''a0'', ''gregs4''), (''a1'', ''gregs5''), (''fp'', ''gregs22'')]"
| "trap_regs Windows_x86_64 =
     [(''rip'', ''Rip''), (''rsp'', ''Rsp''), (''rbp'', ''Rbp''), (''rdi'', ''Rdi''), (''rsi'', ''Rsi'')]"
| "trap_regs Windows_x86 =
     [(''eip'', ''Eip''), (''esp'', ''Esp''), (''ebp'', ''Ebp''), (''eax'', ''Eax''), (''ebx'', ''Ebx''), (''ecx'', ''Ecx''),
      (''edx'', ''Edx'')]"

text \<open>Storing one of them; the conversion to a signed register can fail on Linux/x86-64.\<close>

definition put_reg :: "trap_target \<Rightarrow> (string \<Rightarrow> u64) \<Rightarrow> string \<times> string \<Rightarrow> trap_context \<Rightarrow> (unit, trap_context) rust" where
  "put_reg target regs r ctx =
     (if target = Linux_x86_64 \<and> bit (regs (fst r)) 63 then Panic ''overflow'' else Ok (ctx(snd r := regs (fst r))))"

fun put_regs :: "trap_target \<Rightarrow> (string \<Rightarrow> u64) \<Rightarrow> (string \<times> string) list \<Rightarrow> trap_context \<Rightarrow> (unit, trap_context) rust" where
  "put_regs target regs [] ctx = Ok ctx"
| "put_regs target regs (r # rs) ctx = rust_bind (put_reg target regs r ctx) (put_regs target regs rs)"

text \<open>On arm the status register gets the mode and the byte order.\<close>

definition put_flag :: "u64 \<Rightarrow> bool \<Rightarrow> u64 \<Rightarrow> u64" where
  "put_flag flag on v = (if on then v OR flag else v AND NOT flag)"

definition put_status :: "trap_target \<Rightarrow> (string \<Rightarrow> u64) \<Rightarrow> trap_context \<Rightarrow> trap_context" where
  "put_status target regs ctx =
     (if target = Linux_arm
      then ctx(''arm_cpsr'' := put_flag 0x200 (regs ''cpsr_endian'' \<noteq> 0) (put_flag 0x20 (regs ''cpsr_thumb'' \<noteq> 0) (ctx ''arm_cpsr'')))
      else ctx)"

text \<open>
  The handler. \<open>current\<close> are the stacks of the thread's current coroutine, if there is one; \<open>setup\<close> is
  \<open>setup_trap_handler\<close> of the crate, given the message the coroutine ends with.
\<close>

definition trap_handler ::
  "(string \<Rightarrow> string \<Rightarrow> u64) \<Rightarrow> trap_target \<Rightarrow> stack_info list option \<Rightarrow> trap_context \<Rightarrow> (unit, trap_context) rust" where
  "trap_handler setup target current ctx =
     rust_bind (trap_sp target ctx) (\<lambda>sp.
       case current of
         None \<Rightarrow> Ok ctx
       | Some infos \<Rightarrow>
           let regs = setup (trap_message infos sp)
           in rust_bind (put_regs target regs (trap_regs target) ctx) (\<lambda>ctx1. Ok (put_status target regs ctx1)))"

text \<open>On Windows the handler looks at the exception first; it answers whether the thread goes on.\<close>

datatype exception_code = EXCEPTION_ACCESS_VIOLATION | EXCEPTION_STACK_OVERFLOW | Other_exception

definition vectored_handler ::
  "(string \<Rightarrow> string \<Rightarrow> u64) \<Rightarrow> trap_target \<Rightarrow> exception_code \<Rightarrow> stack_info list option \<Rightarrow> trap_context
    \<Rightarrow> (unit, int \<times> trap_context) rust" where
  "vectored_handler setup target code current ctx =
     (case code of
        Other_exception \<Rightarrow> Ok (0, ctx)
      | _ \<Rightarrow>
          (case current of
             None \<Rightarrow> Ok (- 1, ctx)
           | Some infos \<Rightarrow> rust_bind (trap_handler setup target current ctx) (\<lambda>c. Ok (- 1, c))))"

text \<open>Handlers are installed once per process: the flag, and the signals that got the handler.\<close>

definition setup_trap_handler :: "bool \<Rightarrow> bool \<times> string list \<Rightarrow> (unit, unit) rust \<times> bool \<times> string list" where
  "setup_trap_handler install_ok st =
     (case st of (inited, signals) \<Rightarrow>
        if inited then (Ok (), st)
        else if install_ok then (Ok (), True, signals @ [''SIGBUS'', ''SIGSEGV''])
        else (Panic ''install SIGBUS handler failed !'', True, signals))"

definition setup_sigvtalrm_handler :: "bool \<Rightarrow> bool \<times> string list \<Rightarrow> (unit, unit) rust \<times> bool \<times> string list" where
  "setup_sigvtalrm_handler install_ok st =
     (case st of (inited, signals) \<Rightarrow>
        if inited then (Ok (), st)
        else if install_ok then (Ok (), True, signals @ [''SIGVTALRM''])
        else (Panic ''install SIGVTALRM handler failed !'', True, signals))"

text \<open>The cancellation signal: whether it is unblocked, and whether the current coroutine is cancelled.\<close>

definition sigvtalrm_handler :: "bool \<Rightarrow> bool \<Rightarrow> bool \<times> bool" where
  "sigvtalrm_handler mask_ok suspender = (if mask_ok then (True, suspender) else (False, False))"

text \<open>Dropping a coroutine that was started and has not finished resets its stack; the result says so.\<close>

definition co_drop :: "bool \<Rightarrow> bool \<Rightarrow> bool" where
  "co_drop started finished \<longleftrightarrow> started \<and> \<not> finished"

section \<open>Lemmas\<close>

text \<open>
  Only the registers of the table change, each to the value of its field; the interrupted code continues at the
  address \<open>corosensei\<close> names, with the message that fits.
\<close>

lemma trap_regs_distinct: "distinct (map snd (trap_regs target))" "''arm_cpsr'' \<notin> snd ` set (trap_regs target)"
  by (cases target; simp)+

lemma put_regs_set:
  assumes "distinct (map snd rs)" and "put_regs target regs rs ctx = Ok ctx'"
  shows "(\<forall>(f, r)\<in>set rs. ctx' r = regs f) \<and> (\<forall>r. r \<notin> snd ` set rs \<longrightarrow> ctx' r = ctx r)"
  using assms
proof (induction rs arbitrary: ctx)
  case (Cons r rs)
  then have "put_regs target regs rs (ctx(snd r := regs (fst r))) = Ok ctx'"
    by (auto simp: put_reg_def split: if_splits)
  from Cons.IH [OF _ this] Cons.prems(1) show ?case by (cases r) (auto simp: image_iff)
qed simp

lemma trap_handler_writes:
  assumes "trap_handler setup target (Some infos) ctx = Ok ctx'" and "trap_sp target ctx = Ok sp"
  shows "(\<forall>(f, r)\<in>set (trap_regs target). ctx' r = setup (trap_message infos sp) f)
    \<and> (\<forall>r. r \<notin> snd ` set (trap_regs target) \<longrightarrow> r \<noteq> ''arm_cpsr'' \<longrightarrow> ctx' r = ctx r)"
proof -
  obtain c where c: "put_regs target (setup (trap_message infos sp)) (trap_regs target) ctx = Ok c"
    "ctx' = put_status target (setup (trap_message infos sp)) c"
    using assms by (auto simp: trap_handler_def Let_def rust_bind_Ok_iff)
  have "ctx' r = c r" if "r \<noteq> ''arm_cpsr''" for r using that by (simp add: c(2) put_status_def)
  moreover have "r \<noteq> ''arm_cpsr''" if "(f, r) \<in> set (trap_regs target)" for f r
    using that trap_regs_distinct(2) [of target] by force
  ultimately show ?thesis using put_regs_set [OF trap_regs_distinct(1) c(1)] by fastforce
qed

text \<open>
  Outside of a coroutine the handlers change nothing and let the thread go on, at the very instruction that failed:
  it fails again, for ever.
\<close>

lemma trap_outside_coroutine:
  "trap_sp target ctx = Ok sp \<Longrightarrow> trap_handler setup target None ctx = Ok ctx"
  "code \<noteq> Other_exception \<Longrightarrow> vectored_handler setup target code None ctx = Ok (- 1, ctx)"
  by (auto simp: trap_handler_def vectored_handler_def split: exception_code.splits)

end
