(* ===== verification/OC_Nio.thy ===== *)
theory OC_Nio
  imports OC_Scheduler
begin

unbundle bit_operations_syntax

text \<open>
  \<^verbatim>\<open>core/src/syscall/unix/mod.rs\<close>: the layers every hooked system call is made of. \<open>facade\<close> moves the
  current coroutine into and out of the state of the call, \<open>io_uring\<close> hands the call to the
  kernel's ring and suspends the coroutine, \<open>nio\<close> turns a blocking call on a socket into a loop of
  non-blocking calls and waits for events, \<open>raw\<close> is the call itself.

  The operating system is a record of functions on a world; a raw call is a function of its
  arguments and the state. What happens while a coroutine is suspended or waits for an event
  is a function of the environment too, and its contract is stated where it is used. Loops have
  fuel, and \<open>Hang\<close> is their value when it is spent: a blocking call may legitimately wait
  for ever.
\<close>

section \<open>State and environment\<close>

record ('k, 'l, 'w) sys =
  sy_thread :: "'w thread"
  sy_co :: "('k, 'l) sco option"
  sy_errno :: int
  sy_recv_limit :: "(int \<times> u64) list"
  sy_send_limit :: "(int \<times> u64) list"
  sy_reads :: nat

type_synonym ('k, 'l, 'w, 'a) call = "('k, 'l, 'w) sys \<Rightarrow> (error_kind, 'a) rust \<times> ('k, 'l, 'w) sys"

datatype del_kind = Del_read | Del_write | Del_both

record ('k, 'l, 'w) sys_env =
  en_lsn :: "('l, unit, nat option, 'w) listener"
  en_clock :: "nat \<Rightarrow> u64"
  en_getfl :: "int \<Rightarrow> 'w \<Rightarrow> i32"
  en_setfl :: "int \<Rightarrow> i32 \<Rightarrow> 'w \<Rightarrow> int \<times> 'w"
  en_fstat :: "int \<Rightarrow> 'w \<Rightarrow> u32 option"
  en_rcvtimeo :: "int \<Rightarrow> 'w \<Rightarrow> int + int \<times> int"
  en_sndtimeo :: "int \<Rightarrow> 'w \<Rightarrow> int + int \<times> int"
  en_wait_read :: "int \<Rightarrow> nat \<Rightarrow> ('k, 'l, 'w, unit) call"
  en_wait_write :: "int \<Rightarrow> nat \<Rightarrow> ('k, 'l, 'w, unit) call"
  en_wait_event :: "nat \<Rightarrow> ('k, 'l, 'w, unit) call"
  en_del_event :: "del_kind \<Rightarrow> int \<Rightarrow> ('k, 'l, 'w, unit) call"
  en_suspend :: "('k, 'l, 'w) sys \<Rightarrow> ('k, 'l, 'w) sys"

abbreviation sy_world :: "('k, 'l, 'w) sys \<Rightarrow> 'w" where
  "sy_world s \<equiv> th_world (sy_thread s)"

abbreviation on_world :: "('w \<Rightarrow> 'w) \<Rightarrow> ('k, 'l, 'w) sys \<Rightarrow> ('k, 'l, 'w) sys" where
  "on_world f s \<equiv> s\<lparr>sy_thread := (sy_thread s)\<lparr>th_world := f (th_world (sy_thread s))\<rparr>\<rparr>"

text \<open>Sequencing of calls: everything but a value ends the composite.\<close>

definition call_bind :: "('k, 'l, 'w, 'a) call \<Rightarrow> ('a \<Rightarrow> ('k, 'l, 'w, 'b) call) \<Rightarrow> ('k, 'l, 'w, 'b) call" where
  "call_bind m f s = (case m s of (Ok a, s') \<Rightarrow> f a s' | (Err e, s') \<Rightarrow> (Err e, s')
     | (Panic p, s') \<Rightarrow> (Panic p, s') | (Hang, s') \<Rightarrow> (Hang, s'))"

definition sys_now :: "('k, 'l, 'w) sys_env \<Rightarrow> ('k, 'l, 'w, u64) call" where
  "sys_now E s = (Ok (en_clock E (sy_reads s)), s\<lparr>sy_reads := Suc (sy_reads s)\<rparr>)"

section \<open>errno and descriptor flags\<close>

definition EINTR :: int where "EINTR = 4"
definition EAGAIN :: int where "EAGAIN = 11"
definition ENOTSOCK :: int where "ENOTSOCK = 88"
definition ETIMEDOUT :: int where "ETIMEDOUT = 110"
definition O_NONBLOCK :: i32 where "O_NONBLOCK = 0x800"
definition S_IFMT :: u32 where "S_IFMT = 0xF000"
definition S_IFSOCK :: u32 where "S_IFSOCK = 0xC000"

text \<open>\<open>Error::last_os_error().kind()\<close>, as far as the code distinguishes kinds.\<close>

definition kind_of :: "int \<Rightarrow> error_kind" where
  "kind_of e = (if e = EAGAIN then EK_WouldBlock else if e = EINTR then EK_Interrupted
     else if e = ETIMEDOUT then EK_TimedOut else EK_Other)"

definition set_errno :: "int \<Rightarrow> ('k, 'l, 'w) sys \<Rightarrow> ('k, 'l, 'w) sys" where
  "set_errno e s = s\<lparr>sy_errno := e\<rparr>"

definition reset_errno :: "('k, 'l, 'w) sys \<Rightarrow> ('k, 'l, 'w) sys" where
  "reset_errno s = set_errno 0 s"

definition set_non_blocking_flag :: "('k, 'l, 'w) sys_env \<Rightarrow> int \<Rightarrow> bool \<Rightarrow> ('k, 'l, 'w) sys \<Rightarrow> bool \<times> ('k, 'l, 'w) sys" where
  "set_non_blocking_flag E fd on s =
     (let flags = en_getfl E fd (sy_world s)
      in if sint flags < 0 then (False, s)
         else case en_setfl E fd (if on then flags OR O_NONBLOCK else flags AND NOT O_NONBLOCK) (sy_world s) of
           (r, w) \<Rightarrow> (r = 0, on_world (\<lambda>_. w) s))"

definition set_non_blocking :: "('k, 'l, 'w) sys_env \<Rightarrow> int \<Rightarrow> ('k, 'l, 'w, unit) call" where
  "set_non_blocking E fd s =
     (case set_non_blocking_flag E fd True s of
        (ok, s') \<Rightarrow> (if ok then Ok () else Panic ''set_non_blocking failed !'', s'))"

definition set_blocking :: "('k, 'l, 'w) sys_env \<Rightarrow> int \<Rightarrow> ('k, 'l, 'w, unit) call" where
  "set_blocking E fd s =
     (case set_non_blocking_flag E fd False s of
        (ok, s') \<Rightarrow> (if ok then Ok () else Panic ''set_blocking failed !'', s'))"

definition is_non_blocking :: "('k, 'l, 'w) sys_env \<Rightarrow> int \<Rightarrow> ('k, 'l, 'w) sys \<Rightarrow> bool" where
  "is_non_blocking E fd s =
     (let flags = en_getfl E fd (sy_world s)
      in if sint flags < 0 then False else flags AND O_NONBLOCK \<noteq> 0)"

definition is_blocking :: "('k, 'l, 'w) sys_env \<Rightarrow> int \<Rightarrow> ('k, 'l, 'w) sys \<Rightarrow> bool" where
  "is_blocking E fd s \<longleftrightarrow> \<not> is_non_blocking E fd s"

definition is_socket :: "('k, 'l, 'w) sys_env \<Rightarrow> int \<Rightarrow> ('k, 'l, 'w) sys \<Rightarrow> bool" where
  "is_socket E fd s = (case en_fstat E fd (sy_world s) of None \<Rightarrow> False | Some mode \<Rightarrow> mode AND S_IFMT = S_IFSOCK)"

section \<open>Time limits\<close>

definition get_time_limit :: "int \<times> int \<Rightarrow> (error_kind, u64) rust" where
  "get_time_limit tv =
     (if fst tv < 0 \<or> snd tv < 0 then Panic ''overflow''
      else (let time_limit = sat_add (sat_mul (of_int (fst tv)) 1000000000) (sat_mul (of_int (snd tv)) 1000)
            in Ok (if time_limit = 0 then u64_max else time_limit)))"

definition send_time_limit :: "('k, 'l, 'w) sys_env \<Rightarrow> int \<Rightarrow> ('k, 'l, 'w, u64) call" where
  "send_time_limit E fd s =
     (case map_of (sy_send_limit s) fd of
        Some v \<Rightarrow> (Ok v, s)
      | None \<Rightarrow>
          (case en_sndtimeo E fd (sy_world s) of
             Inl e \<Rightarrow> (if e = ENOTSOCK then Ok u64_max else Panic ''getsockopt failed'', set_errno e s)
           | Inr tv \<Rightarrow>
               (case get_time_limit tv of
                  Ok l \<Rightarrow> (Ok l, s\<lparr>sy_send_limit := AList.update fd l (sy_send_limit s)\<rparr>)
                | r \<Rightarrow> (r, s))))"

definition recv_time_limit :: "('k, 'l, 'w) sys_env \<Rightarrow> int \<Rightarrow> ('k, 'l, 'w, u64) call" where
  "recv_time_limit E fd s =
     (case map_of (sy_recv_limit s) fd of
        Some v \<Rightarrow> (Ok v, s)
      | None \<Rightarrow>
          (case en_rcvtimeo E fd (sy_world s) of
             Inl e \<Rightarrow> (if e = ENOTSOCK then Ok u64_max else Panic ''getsockopt failed'', set_errno e s)
           | Inr tv \<Rightarrow>
               (case get_time_limit tv of
                  Ok l \<Rightarrow> (Ok l, s\<lparr>sy_recv_limit := AList.update fd l (sy_recv_limit s)\<rparr>)
                | r \<Rightarrow> (r, s))))"

section \<open>raw and facade\<close>

definition raw_call :: "('a \<Rightarrow> ('k, 'l, 'w, int) call) option \<Rightarrow> ('a \<Rightarrow> ('k, 'l, 'w, int) call) \<Rightarrow> 'a \<Rightarrow> ('k, 'l, 'w, int) call" where
  "raw_call fn_ptr libc_fn arg = (case fn_ptr of Some f \<Rightarrow> f arg | None \<Rightarrow> libc_fn arg)"

text \<open>The state operations of the current coroutine; a refused one is only logged.\<close>

definition cur_syscall ::
  "('k, 'l, 'w) sys_env \<Rightarrow> syscall_name \<Rightarrow> syscall_state \<Rightarrow> ('k, 'l, 'w) sys \<Rightarrow> ('k, 'l, 'w) sys" where
  "cur_syscall E n st s =
     (case sy_co s of
        None \<Rightarrow> s
      | Some co \<Rightarrow>
          (case co_syscall (en_lsn E) () n st co (sy_thread s) of
             (r, co', th) \<Rightarrow> s\<lparr>sy_co := Some co', sy_thread := th\<rparr>))"

definition cur_running :: "('k, 'l, 'w) sys_env \<Rightarrow> ('k, 'l, 'w) sys \<Rightarrow> ('k, 'l, 'w) sys" where
  "cur_running E s =
     (case sy_co s of
        None \<Rightarrow> s
      | Some co \<Rightarrow>
          (case co_running (en_lsn E) (en_clock E (sy_reads s)) co (sy_thread s) of
             (r, co', th) \<Rightarrow> s\<lparr>sy_co := Some co', sy_thread := th\<rparr>))"

definition facade :: "('k, 'l, 'w) sys_env \<Rightarrow> syscall_name \<Rightarrow> ('k, 'l, 'w, int) call \<Rightarrow> ('k, 'l, 'w, int) call" where
  "facade E n inner s =
     (case inner (cur_syscall E n Ss_Executing s) of
        (Ok r, s') \<Rightarrow> (Ok r, cur_running E s')
      | (r, s') \<Rightarrow> (r, s'))"

section \<open>nio\<close>

datatype io_dir = D_read | D_write

definition time_limit :: "('k, 'l, 'w) sys_env \<Rightarrow> io_dir \<Rightarrow> int \<Rightarrow> ('k, 'l, 'w, u64) call" where
  "time_limit E dir = (case dir of D_read \<Rightarrow> recv_time_limit E | D_write \<Rightarrow> send_time_limit E)"

definition wait_io :: "('k, 'l, 'w) sys_env \<Rightarrow> io_dir \<Rightarrow> int \<Rightarrow> nat \<Rightarrow> ('k, 'l, 'w, unit) call" where
  "wait_io E dir = (case dir of D_read \<Rightarrow> en_wait_read E | D_write \<Rightarrow> en_wait_write E)"

text \<open>
  The arm of the loops for a call that would block: the time that is left, and whether the wait
  for the event, of at most one slice, succeeded.
\<close>

definition await_io :: "('k, 'l, 'w) sys_env \<Rightarrow> io_dir \<Rightarrow> int \<Rightarrow> u64 \<Rightarrow> ('k, 'l, 'w, u64 \<times> bool) call" where
  "await_io E dir fd start_time =
     call_bind (time_limit E dir fd) (\<lambda>limit. call_bind (sys_now E) (\<lambda>t s.
       (let left_time = sat_sub (sat_add start_time limit) t
        in case wait_io E dir fd (min (unat left_time) SLICE) s of
             (Ok u, s') \<Rightarrow> (Ok (left_time, True), s')
           | (Err e, s') \<Rightarrow> (Ok (left_time, False), s')
           | (Panic m, s') \<Rightarrow> (Panic m, s')
           | (Hang, s') \<Rightarrow> (Hang, s'))))"

text \<open>
  What a failed or incomplete call leads to: a wait and another round if it would block, another
  round if it was interrupted, the end otherwise.
\<close>

definition io_retry ::
  "('k, 'l, 'w) sys_env \<Rightarrow> io_dir \<Rightarrow> int \<Rightarrow> u64 \<Rightarrow> (u64 \<Rightarrow> ('k, 'l, 'w, 'a) call) \<Rightarrow> u64 \<Rightarrow> 'a \<Rightarrow> 'a
    \<Rightarrow> ('k, 'l, 'w, 'a) call" where
  "io_retry E dir fd start_time loop left_time gave_up r s =
     (case kind_of (sy_errno s) of
        EK_WouldBlock \<Rightarrow> call_bind (await_io E dir fd start_time)
          (\<lambda>(left_time, ok). if ok then loop left_time else Pair (Ok gave_up)) s
      | EK_Interrupted \<Rightarrow> loop left_time s
      | _ \<Rightarrow> (Ok r, s))"

text \<open>What surrounds each loop: sockets only, and non-blocking for the duration of it.\<close>

definition nio_around ::
  "('k, 'l, 'w) sys_env \<Rightarrow> io_dir \<Rightarrow> int \<Rightarrow> ('k, 'l, 'w, int) call \<Rightarrow> (u64 \<Rightarrow> u64 \<Rightarrow> ('k, 'l, 'w, int) call)
    \<Rightarrow> ('k, 'l, 'w, int) call" where
  "nio_around E dir fd direct loop s =
     (if \<not> is_socket E fd s then direct s
      else (let blocking = is_blocking E fd s
            in call_bind (if blocking then set_non_blocking E fd else Pair (Ok ())) (\<lambda>_.
               call_bind (sys_now E) (\<lambda>start_time.
               call_bind (time_limit E dir fd) (\<lambda>left_time.
               call_bind (loop start_time left_time) (\<lambda>r.
               call_bind (if blocking then set_blocking E fd else Pair (Ok ())) (\<lambda>_. Pair (Ok r)))))) s))"

subsection \<open>\<open>impl_nio_read\<close>\<close>

fun nio_read_loop ::
  "('k, 'l, 'w) sys_env \<Rightarrow> int \<Rightarrow> ('k, 'l, 'w, int) call \<Rightarrow> u64 \<Rightarrow> nat \<Rightarrow> u64 \<Rightarrow> int \<Rightarrow> ('k, 'l, 'w, int) call" where
  "nio_read_loop E fd inner start_time 0 left_time r s = (Hang, s)"
| "nio_read_loop E fd inner start_time (Suc fuel) left_time r s =
     (if left_time = 0 then (Ok r, s)
      else call_bind inner (\<lambda>r s.
        if r \<noteq> -1 then (Ok r, reset_errno s)
        else io_retry E D_read fd start_time
          (\<lambda>left_time. nio_read_loop E fd inner start_time fuel left_time r) left_time r r s) s)"

definition nio_read :: "('k, 'l, 'w) sys_env \<Rightarrow> nat \<Rightarrow> int \<Rightarrow> ('k, 'l, 'w, int) call \<Rightarrow> ('k, 'l, 'w, int) call" where
  "nio_read E fuel fd inner =
     nio_around E D_read fd inner (\<lambda>start_time left_time. nio_read_loop E fd inner start_time fuel left_time (- 1))"

subsection \<open>\<open>impl_nio_read_buf\<close> and \<open>impl_nio_write_buf\<close>\<close>

text \<open>\<open>eof\<close> is the extra exit of the reading loop on a result of zero; the macros agree in everything else.\<close>

fun nio_buf_loop ::
  "('k, 'l, 'w) sys_env \<Rightarrow> io_dir \<Rightarrow> int \<Rightarrow> (nat \<Rightarrow> nat \<Rightarrow> ('k, 'l, 'w, int) call) \<Rightarrow> nat \<Rightarrow> nat \<Rightarrow> u64 \<Rightarrow> nat
    \<Rightarrow> nat \<Rightarrow> u64 \<Rightarrow> int \<Rightarrow> ('k, 'l, 'w, int) call" where
  "nio_buf_loop E dir fd inner buf len start_time 0 sofar left_time r s = (Hang, s)"
| "nio_buf_loop E dir fd inner buf len start_time (Suc fuel) sofar left_time r s =
     (if \<not> (sofar < len \<and> left_time > 0) then (Ok r, s)
      else call_bind (inner (buf + sofar) (len - sofar)) (\<lambda>r s.
        let retry = (\<lambda>sofar. io_retry E dir fd start_time
              (\<lambda>left_time. nio_buf_loop E dir fd inner buf len start_time fuel sofar left_time r)
              left_time (int sofar) r)
        in if r = -1 then retry sofar s
           else if r < 0 then (Panic ''r overflow'', reset_errno s)
           else if sofar + nat r \<ge> len \<or> dir = D_read \<and> r = 0 then (Ok (int (sofar + nat r)), reset_errno s)
           else retry (sofar + nat r) (reset_errno s)) s)"

definition nio_read_buf ::
  "('k, 'l, 'w) sys_env \<Rightarrow> nat \<Rightarrow> int \<Rightarrow> (nat \<Rightarrow> nat \<Rightarrow> ('k, 'l, 'w, int) call) \<Rightarrow> nat \<Rightarrow> nat \<Rightarrow> ('k, 'l, 'w, int) call" where
  "nio_read_buf E fuel fd inner buf len =
     nio_around E D_read fd (inner buf len)
       (\<lambda>start_time left_time. nio_buf_loop E D_read fd inner buf len start_time fuel 0 left_time (- 1))"

definition nio_write_buf ::
  "('k, 'l, 'w) sys_env \<Rightarrow> nat \<Rightarrow> int \<Rightarrow> (nat \<Rightarrow> nat \<Rightarrow> ('k, 'l, 'w, int) call) \<Rightarrow> nat \<Rightarrow> nat \<Rightarrow> ('k, 'l, 'w, int) call" where
  "nio_write_buf E fuel fd inner buf len =
     nio_around E D_write fd (inner buf len)
       (\<lambda>start_time left_time. nio_buf_loop E D_write fd inner buf len start_time fuel 0 left_time (- 1))"

subsection \<open>\<open>impl_nio_read_iovec\<close> and \<open>impl_nio_write_iovec\<close>\<close>

text \<open>
  An iovec is its base address and its length, both \<open>usize\<close>. The inner loop either leaves the
  function with a result or goes on with what was transferred, the time left and the last result.
  The subtraction on \<open>iov_len\<close> wraps in a release build, and is written with the wrap.
\<close>

type_synonym iovec = "nat \<times> nat"

definition iov_shift :: "nat \<Rightarrow> iovec list \<Rightarrow> iovec list" where
  "iov_shift offset arg =
     (case arg of
        [] \<Rightarrow> []
      | (base, len) # rest \<Rightarrow>
          ((base + offset) mod 2 ^ 64, (len + 2 ^ 64 - offset) mod 2 ^ 64) # rest)"

fun iov_while ::
  "('k, 'l, 'w) sys_env \<Rightarrow> io_dir \<Rightarrow> int \<Rightarrow> (iovec list \<Rightarrow> ('k, 'l, 'w, int) call) \<Rightarrow> u64 \<Rightarrow> nat \<Rightarrow> nat \<Rightarrow> nat
    \<Rightarrow> iovec list \<Rightarrow> nat \<Rightarrow> nat \<Rightarrow> u64 \<Rightarrow> int \<Rightarrow> ('k, 'l, 'w, int + nat \<times> u64 \<times> int) call" where
  "iov_while E dir fd inner start_time stage len 0 arg offset sofar left_time r s = (Hang, s)"
| "iov_while E dir fd inner start_time stage len (Suc fuel) arg offset sofar left_time r s =
     (if \<not> (sofar < len \<and> left_time > 0) then (Ok (Inr (sofar, left_time, r)), s)
      else (let arg = (if offset \<noteq> 0 then iov_shift offset arg else arg)
            in call_bind (inner arg) (\<lambda>r s.
              let retry = (\<lambda>sofar offset. io_retry E dir fd start_time
                    (\<lambda>left_time. iov_while E dir fd inner start_time stage len fuel arg offset sofar left_time r)
                    left_time (Inl (int sofar)) (Inl r))
              in if dir = D_read \<and> r = 0 then (Ok (Inl (int sofar)), s)
                 else if r = -1 then retry sofar offset s
                 else if r < 0 then (Panic ''r overflow'', reset_errno s)
                 else if sofar + nat r \<ge> len
                 then (Ok (Inr (sofar + nat r, left_time, int (sofar + nat r))), reset_errno s)
                 else retry (sofar + nat r) (sofar + nat r - stage) (reset_errno s)) s))"

fun iov_for ::
  "('k, 'l, 'w) sys_env \<Rightarrow> io_dir \<Rightarrow> int \<Rightarrow> (iovec list \<Rightarrow> ('k, 'l, 'w, int) call) \<Rightarrow> u64 \<Rightarrow> nat \<Rightarrow> iovec list
    \<Rightarrow> iovec list \<Rightarrow> nat \<Rightarrow> nat \<Rightarrow> nat \<Rightarrow> u64 \<Rightarrow> int \<Rightarrow> ('k, 'l, 'w, int) call" where
  "iov_for E dir fd inner start_time fuel vec [] len sofar index left_time r s = (Ok r, s)"
| "iov_for E dir fd inner start_time fuel vec (iov # rest) len sofar index left_time r s =
     (let stage = len;
          offset = sofar - stage;
          len = len + snd iov
      in if sofar > len then iov_for E dir fd inner start_time fuel vec rest len sofar (index + 1) left_time r s
         else call_bind
           (iov_while E dir fd inner start_time stage len fuel (drop index vec) offset sofar left_time r)
           (\<lambda>res. case res of
              Inl r \<Rightarrow> Pair (Ok r)
            | Inr (sofar, left_time, r) \<Rightarrow>
                iov_for E dir fd inner start_time fuel vec rest len sofar
                  (if sofar \<ge> len then index + 1 else index) left_time r) s)"

definition nio_iovec ::
  "('k, 'l, 'w) sys_env \<Rightarrow> io_dir \<Rightarrow> nat \<Rightarrow> int \<Rightarrow> (iovec list \<Rightarrow> ('k, 'l, 'w, int) call) \<Rightarrow> iovec list
    \<Rightarrow> ('k, 'l, 'w, int) call" where
  "nio_iovec E dir fuel fd inner vec =
     nio_around E dir fd (inner vec)
       (\<lambda>start_time left_time. iov_for E dir fd inner start_time fuel vec vec 0 0 0 left_time (- 1))"

definition nio_read_iovec ::
  "('k, 'l, 'w) sys_env \<Rightarrow> nat \<Rightarrow> int \<Rightarrow> (iovec list \<Rightarrow> ('k, 'l, 'w, int) call) \<Rightarrow> iovec list \<Rightarrow> ('k, 'l, 'w, int) call" where
  "nio_read_iovec E = nio_iovec E D_read"

definition nio_write_iovec ::
  "('k, 'l, 'w) sys_env \<Rightarrow> nat \<Rightarrow> int \<Rightarrow> (iovec list \<Rightarrow> ('k, 'l, 'w, int) call) \<Rightarrow> iovec list \<Rightarrow> ('k, 'l, 'w, int) call" where
  "nio_write_iovec E = nio_iovec E D_write"

section \<open>io\_uring\<close>

text \<open>
  \<open>submit\<close> is \<open>EventLoops::\<close>\<^emph>\<open>syscall\<close>: the handle the result will appear behind, or a refusal.
  \<open>result\<close> is what the wait on that handle ends with, if it ends.
\<close>

definition cur_state :: "('k, 'l, 'w) sys \<Rightarrow> sco_state option" where
  "cur_state s = map_option co_state (sy_co s)"

definition cur_to :: "('k, 'l, 'w) sys_env \<Rightarrow> syscall_state list \<Rightarrow> syscall_state \<Rightarrow> ('k, 'l, 'w) sys \<Rightarrow> ('k, 'l, 'w) sys" where
  "cur_to E froms new s =
     (case cur_state s of
        Some (Cs_Syscall u n st) \<Rightarrow> if st \<in> set froms then cur_syscall E n new s else s
      | _ \<Rightarrow> s)"

definition cur_suspend :: "('k, 'l, 'w) sys_env \<Rightarrow> ('k, 'l, 'w) sys \<Rightarrow> ('k, 'l, 'w) sys" where
  "cur_suspend E s = (if th_suspender (sy_thread s) = [] then s else en_suspend E s)"

definition uring_result ::
  "(nat \<Rightarrow> ('k, 'l, 'w) sys \<Rightarrow> int option \<times> ('k, 'l, 'w) sys) \<Rightarrow> nat \<Rightarrow> ('k, 'l, 'w, int) call" where
  "uring_result result arc s =
     (case result arc s of
        (None, s') \<Rightarrow> (Hang, s')
      | (Some r, s') \<Rightarrow> (if r < 0 then (Ok (- 1), set_errno (- r) s') else (Ok r, s')))"

definition uring ::
  "('k, 'l, 'w) sys_env \<Rightarrow> (('k, 'l, 'w) sys \<Rightarrow> nat option \<times> ('k, 'l, 'w) sys)
    \<Rightarrow> (nat \<Rightarrow> ('k, 'l, 'w) sys \<Rightarrow> int option \<times> ('k, 'l, 'w) sys) \<Rightarrow> ('k, 'l, 'w, int) call \<Rightarrow> ('k, 'l, 'w, int) call" where
  "uring E submit result inner s =
     (case submit s of
        (None, s1) \<Rightarrow> inner s1
      | (Some arc, s1) \<Rightarrow>
          uring_result result arc
            (cur_to E [Ss_Callback] Ss_Executing
              (cur_suspend E (cur_to E [Ss_Executing] (Ss_Suspend u64_max) s1))))"

text \<open>The variants for reads and writes have a deadline, computed only if the coroutine is in the call.\<close>

definition uring_timed ::
  "('k, 'l, 'w) sys_env \<Rightarrow> io_dir \<Rightarrow> int \<Rightarrow> (('k, 'l, 'w) sys \<Rightarrow> nat option \<times> ('k, 'l, 'w) sys)
    \<Rightarrow> (nat \<Rightarrow> ('k, 'l, 'w) sys \<Rightarrow> int option \<times> ('k, 'l, 'w) sys) \<Rightarrow> ('k, 'l, 'w, int) call \<Rightarrow> ('k, 'l, 'w, int) call" where
  "uring_timed E dir fd submit result inner s =
     (case submit s of
        (None, s1) \<Rightarrow> inner s1
      | (Some arc, s1) \<Rightarrow>
          call_bind
            (case cur_state s1 of
               Some (Cs_Syscall u n Ss_Executing) \<Rightarrow>
                 call_bind (sys_now E) (\<lambda>t. call_bind (time_limit E dir fd) (\<lambda>limit s.
                   (Ok (), cur_syscall E n (Ss_Suspend (sat_add t limit)) s)))
             | _ \<Rightarrow> Pair (Ok ()))
            (\<lambda>u s.
               let s2 = cur_suspend E s
               in case cur_state s2 of
                    Some (Cs_Syscall u n Ss_Timeout) \<Rightarrow> (Ok (- 1), set_errno ETIMEDOUT s2)
                  | _ \<Rightarrow> uring_result result arc (cur_to E [Ss_Callback] Ss_Executing s2)) s1)"

definition uring_read ::
  "('k, 'l, 'w) sys_env \<Rightarrow> int \<Rightarrow> (('k, 'l, 'w) sys \<Rightarrow> nat option \<times> ('k, 'l, 'w) sys)
    \<Rightarrow> (nat \<Rightarrow> ('k, 'l, 'w) sys \<Rightarrow> int option \<times> ('k, 'l, 'w) sys) \<Rightarrow> ('k, 'l, 'w, int) call \<Rightarrow> ('k, 'l, 'w, int) call" where
  "uring_read E = uring_timed E D_read"

definition uring_write ::
  "('k, 'l, 'w) sys_env \<Rightarrow> int \<Rightarrow> (('k, 'l, 'w) sys \<Rightarrow> nat option \<times> ('k, 'l, 'w) sys)
    \<Rightarrow> (nat \<Rightarrow> ('k, 'l, 'w) sys \<Rightarrow> int option \<times> ('k, 'l, 'w) sys) \<Rightarrow> ('k, 'l, 'w, int) call \<Rightarrow> ('k, 'l, 'w, int) call" where
  "uring_write E = uring_timed E D_write"

text \<open>The chains of \<open>impl_syscall\<close>: facade, io\_uring where the feature is on, nio, raw.\<close>

definition syscall_chain ::
  "('k, 'l, 'w) sys_env \<Rightarrow> bool \<Rightarrow> syscall_name \<Rightarrow> (('k, 'l, 'w, int) call \<Rightarrow> ('k, 'l, 'w, int) call)
    \<Rightarrow> ('k, 'l, 'w, int) call \<Rightarrow> ('k, 'l, 'w, int) call" where
  "syscall_chain E io_uring n ring nio_call = facade E n (if io_uring then ring nio_call else nio_call)"

section \<open>Sequences of calls\<close>

lemma call_bind_Ok: "call_bind m f s = (Ok b, s') \<longleftrightarrow> (\<exists>a s1. m s = (Ok a, s1) \<and> f a s1 = (Ok b, s'))"
  by (auto simp: call_bind_def split: prod.splits rust.splits)

lemma call_bind_cases:
  assumes "call_bind m f s = (r, s')"
  obtains a s1 where "m s = (Ok a, s1)" "f a s1 = (r, s')"
  | s1 where "m s = (Err (case r of Err e \<Rightarrow> e | _ \<Rightarrow> EK_Other), s1)" "s' = s1" "\<exists>e. r = Err e"
  | p s1 where "m s = (Panic p, s1)" "s' = s1" "r = Panic p"
  | s1 where "m s = (Hang, s1)" "s' = s1" "r = Hang"
  using assms by (cases "m s"; cases "fst (m s)") (auto simp: call_bind_def)

text \<open>
  A preorder on states that every step of a loop respects is respected by the loop: this carries
  everything that is said about what a system call leaves alone.
\<close>

definition keeps :: "(('k, 'l, 'w) sys \<Rightarrow> ('k, 'l, 'w) sys \<Rightarrow> bool) \<Rightarrow> ('k, 'l, 'w, 'a) call \<Rightarrow> bool" where
  "keeps R c \<longleftrightarrow> (\<forall>s r s'. c s = (r, s') \<longrightarrow> R s s')"

locale call_frame =
  fixes R :: "('k, 'l, 'w) sys \<Rightarrow> ('k, 'l, 'w) sys \<Rightarrow> bool"
  assumes frame_refl [simp, intro]: "R s s"
    and frame_trans [trans]: "R s s' \<Longrightarrow> R s' s'' \<Longrightarrow> R s s''"
begin

lemma keeps_bind:
  assumes "keeps R m" and "\<And>a. keeps R (f a)"
  shows "keeps R (call_bind m f)"
  unfolding keeps_def
proof (intro allI impI)
  fix s r s'
  assume "call_bind m f s = (r, s')"
  then show "R s s'"
  proof (cases rule: call_bind_cases)
    case (1 a s1)
    then show ?thesis using assms unfolding keeps_def by (blast intro: frame_trans)
  qed (use assms(1) in \<open>auto simp: keeps_def\<close>)
qed

lemma keeps_Pair [simp]: "keeps R (Pair r)" "keeps R (\<lambda>s. (r, s))"
  by (simp_all add: keeps_def)

lemma keeps_if: "(c \<Longrightarrow> keeps R a) \<Longrightarrow> (\<not> c \<Longrightarrow> keeps R b) \<Longrightarrow> keeps R (\<lambda>s. if c then a s else b s)"
  by (cases c) simp_all

lemma keepsD: "keeps R c \<Longrightarrow> c s = (r, s') \<Longrightarrow> R s s'"
  by (simp add: keeps_def)

end

text \<open>The fields a system call keeps its own books in are free to change.\<close>

locale io_frame = call_frame R
  for E :: "('k, 'l, 'w) sys_env" and R :: "('k, 'l, 'w) sys \<Rightarrow> ('k, 'l, 'w) sys \<Rightarrow> bool" +
  assumes frame_own: "R s (s\<lparr>sy_errno := e\<rparr>)" "R s (s\<lparr>sy_reads := n\<rparr>)"
      "R s (s\<lparr>sy_recv_limit := l\<rparr>)" "R s (s\<lparr>sy_send_limit := l\<rparr>)"
begin

lemma frame_reset [simp]: "R s (reset_errno s)" "R s (set_errno e s)"
  by (simp_all add: reset_errno_def set_errno_def frame_own)

lemma keeps_now: "keeps R (sys_now E)"
  by (auto simp: keeps_def sys_now_def frame_own)

lemma keeps_time_limit: "keeps R (time_limit E dir fd)"
  by (auto simp: keeps_def time_limit_def recv_time_limit_def send_time_limit_def frame_own
      split: io_dir.splits option.splits sum.splits rust.splits)

lemma keeps_await:
  assumes "\<And>d. keeps R (wait_io E dir fd d)"
  shows "keeps R (await_io E dir fd start_time)"
  unfolding await_io_def
proof (intro keeps_bind keeps_time_limit keeps_now)
  fix limit t
  show "keeps R (\<lambda>s. let left_time = sat_sub (sat_add start_time limit) t
        in case wait_io E dir fd (min (unat left_time) SLICE) s of
             (Ok u, s') \<Rightarrow> (Ok (left_time, True), s')
           | (Err e, s') \<Rightarrow> (Ok (left_time, False), s')
           | (Panic m, s') \<Rightarrow> (Panic m, s')
           | (Hang, s') \<Rightarrow> (Hang, s'))"
    using assms unfolding keeps_def Let_def by (auto split: prod.splits rust.splits)
qed

lemma keeps_retry:
  assumes "\<And>d. keeps R (wait_io E dir fd d)" and "\<And>l. keeps R (loop l)"
  shows "keeps R (io_retry E dir fd start_time loop left_time gave_up r)"
proof -
  have "keeps R (call_bind (await_io E dir fd start_time)
      (\<lambda>(left_time, ok). if ok then loop left_time else Pair (Ok gave_up)))"
    by (rule keeps_bind [OF keeps_await [OF assms(1)]]) (auto simp: assms(2))
  with assms(2) show ?thesis unfolding keeps_def io_retry_def by (auto split: error_kind.splits)
qed

lemma keeps_after_reset: "keeps R c \<Longrightarrow> keeps R (\<lambda>s. c (reset_errno s))"
  using frame_trans [OF frame_reset(1)] by (auto simp: keeps_def)

lemma keeps_reset: "keeps R (\<lambda>s. (r, reset_errno s))"
  by (simp add: keeps_def)

lemmas keeps_intros = keeps_if keeps_bind keeps_retry keeps_after_reset keeps_reset keeps_Pair

lemma keeps_read_loop:
  assumes "keeps R inner" and "\<And>d. keeps R (wait_io E D_read fd d)"
  shows "keeps R (nio_read_loop E fd inner start_time fuel left_time r)"
proof (induction fuel arbitrary: left_time r)
  case (Suc fuel)
  show ?case unfolding nio_read_loop.simps [abs_def] by (intro keeps_intros assms Suc.IH)
qed (simp add: keeps_def)

lemma keeps_buf_loop:
  assumes "\<And>a l. keeps R (inner a l)" and "\<And>d. keeps R (wait_io E dir fd d)"
  shows "keeps R (nio_buf_loop E dir fd inner buf len start_time fuel sofar left_time r)"
proof (induction fuel arbitrary: sofar left_time r)
  case (Suc fuel)
  show ?case unfolding nio_buf_loop.simps [abs_def] Let_def by (intro keeps_intros assms Suc.IH)
qed (simp add: keeps_def)

lemma keeps_iov_while:
  assumes "\<And>a. keeps R (inner a)" and "\<And>d. keeps R (wait_io E dir fd d)"
  shows "keeps R (iov_while E dir fd inner start_time stage len fuel arg offset sofar left_time r)"
proof (induction fuel arbitrary: arg offset sofar left_time r)
  case (Suc fuel)
  show ?case unfolding iov_while.simps [abs_def] Let_def by (intro keeps_intros assms Suc.IH)
qed (simp add: keeps_def)

lemma keeps_iov_for:
  assumes "\<And>a. keeps R (inner a)" and "\<And>d. keeps R (wait_io E dir fd d)"
  shows "keeps R (iov_for E dir fd inner start_time fuel vec rest len sofar index left_time r)"
proof (induction rest arbitrary: len sofar index left_time r)
  case Nil
  show ?case by (simp add: keeps_def)
next
  case (Cons iov rest)
  have "keeps R (case res of Inl r \<Rightarrow> Pair (Ok r)
      | Inr (sofar, left_time, r) \<Rightarrow>
          iov_for E dir fd inner start_time fuel vec rest l sofar
            (if sofar \<ge> l then index + 1 else index) left_time r)" for res :: "int + nat \<times> u64 \<times> int" and l
    by (auto simp: Cons.IH split: sum.splits)
  from keeps_bind [OF keeps_iov_while [OF assms] this] Cons.IH show ?case
    unfolding keeps_def by (auto simp: Let_def)
qed

lemma keeps_around:
  assumes "keeps R (set_non_blocking E fd)" and "keeps R (set_blocking E fd)"
    and "\<And>t l. keeps R (loop t l)" and "keeps R direct"
  shows "keeps R (nio_around E dir fd direct loop)"
proof -
  have "keeps R (call_bind (if b then set_non_blocking E fd else Pair (Ok ())) (\<lambda>_.
               call_bind (sys_now E) (\<lambda>start_time.
               call_bind (time_limit E dir fd) (\<lambda>left_time.
               call_bind (loop start_time left_time) (\<lambda>r.
               call_bind (if b then set_blocking E fd else Pair (Ok ())) (\<lambda>_. Pair (Ok r)))))))" for b
    using assms(1,2)
    by (intro keeps_bind keeps_now keeps_time_limit assms(3) keeps_Pair(1)) auto
  with assms(4) show ?thesis
    unfolding keeps_def nio_around_def Let_def by (auto split: if_splits)
qed

end

section \<open>What the loops move\<close>

text \<open>
  \<open>M a n w w'\<close> says that between the worlds \<open>w\<close> and \<open>w'\<close> exactly \<open>n\<close> bytes were moved between the
  stream and the memory at address \<open>a\<close>. The contract of the raw call: it moves as many bytes as it
  answers, at most as many as it was asked for, and none if it fails; nothing is moved while the
  loop waits, looks at the time or sets a flag.
\<close>

locale transfer =
  fixes E :: "('k, 'l, 'w) sys_env" and dir :: io_dir and fd :: int
    and inner :: "nat \<Rightarrow> nat \<Rightarrow> ('k, 'l, 'w, int) call" and M :: "nat \<Rightarrow> nat \<Rightarrow> 'w \<Rightarrow> 'w \<Rightarrow> bool"
  assumes none: "M a 0 w w"
    and before: "\<forall>a. M a 0 w w1 \<Longrightarrow> M a n w1 w2 \<Longrightarrow> M a n w w2"
    and after: "M a n w w1 \<Longrightarrow> \<forall>a. M a 0 w1 w2 \<Longrightarrow> M a n w w2"
    and raw_law: "inner a l s = (Ok r, s') \<Longrightarrow>
      r = -1 \<and> (\<forall>a. M a 0 (sy_world s) (sy_world s')) \<or> (\<exists>n\<le>l. r = int n \<and> M a n (sy_world s) (sy_world s'))"
    and wait_law: "wait_io E dir fd d s = (r', s') \<Longrightarrow> M a 0 (sy_world s) (sy_world s')"
    and setfl_law: "en_setfl E fd fl w = (x, w') \<Longrightarrow> M a 0 w w'"
begin

abbreviation quiet :: "('k, 'l, 'w) sys \<Rightarrow> ('k, 'l, 'w) sys \<Rightarrow> bool" where
  "quiet s s' \<equiv> \<forall>a. M a 0 (sy_world s) (sy_world s')"

end

sublocale transfer \<subseteq> quiet: io_frame E quiet
  by unfold_locales (use none after in \<open>blast+ | simp add: none\<close>)+

context transfer
begin

lemma await_quiet: "await_io E dir fd t s = (r, s') \<Longrightarrow> quiet s s'"
  using quiet.keeps_await [of dir fd t] wait_law unfolding keeps_def by blast

lemma retry_exact:
  assumes "io_retry E dir fd t loop l 0 r s = (Ok v, s')"
    and "\<And>l s s'. loop l s = (Ok v, s') \<Longrightarrow> P s s'"
    and "\<And>s0 s1 s2. quiet s0 s1 \<Longrightarrow> P s1 s2 \<Longrightarrow> P s0 s2"
    and "v = 0 \<Longrightarrow> quiet s s' \<Longrightarrow> P s s'" and "v = r \<Longrightarrow> quiet s s' \<Longrightarrow> P s s'"
  shows "P s s'"
proof (cases "kind_of (sy_errno s)")
  case EK_WouldBlock
  then obtain l' ok s1 where aw: "await_io E dir fd t s = (Ok (l', ok), s1)"
    and k: "(if ok then loop l' else Pair (Ok 0)) s1 = (Ok v, s')"
    using assms(1) by (auto simp: io_retry_def call_bind_Ok)
  note q = await_quiet [OF aw]
  show ?thesis
  proof (cases ok)
    case True
    with k have "loop l' s1 = (Ok v, s')" by simp
    from assms(3) [OF q assms(2) [OF this]] show ?thesis .
  next
    case False
    with k q show ?thesis by (intro assms(4)) auto
  qed
qed (use assms none in \<open>auto simp: io_retry_def\<close>)

lemma buf_loop_exact:
  "nio_buf_loop E dir fd inner buf len t fuel 0 l (- 1) s = (Ok v, s') \<Longrightarrow>
     v = - 1 \<and> quiet s s' \<or> (\<exists>n\<le>len. v = int n \<and> M buf n (sy_world s) (sy_world s'))"
proof (induction fuel arbitrary: l s s')
  case (Suc fuel)
  let ?P = "\<lambda>s s'. v = - 1 \<and> quiet s s' \<or> (\<exists>n\<le>len. v = int n \<and> M buf n (sy_world s) (sy_world s'))"
  have pre: "?P s0 s2" if "quiet s0 s1" "?P s1 s2" for s0 s1 s2
    using that(2)
  proof
    assume "v = - 1 \<and> quiet s1 s2"
    with that(1) quiet.frame_trans [of s0 s1 s2] show ?thesis by blast
  next
    assume "\<exists>n\<le>len. v = int n \<and> M buf n (sy_world s1) (sy_world s2)"
    with before [OF that(1)] show ?thesis by blast
  qed
  show ?case
  proof (cases "0 < len \<and> 0 < l")
    case False
    with Suc.prems none show ?thesis by auto
  next
    case True
    then obtain r1 s1 where raw: "inner buf len s = (Ok r1, s1)"
      and k: "(if r1 = - 1 then io_retry E dir fd t (\<lambda>l. nio_buf_loop E dir fd inner buf len t fuel 0 l r1) l (int 0) r1 s1
        else if r1 < 0 then (Panic ''r overflow'', reset_errno s1)
        else if 0 + nat r1 \<ge> len \<or> dir = D_read \<and> r1 = 0 then (Ok (int (0 + nat r1)), reset_errno s1)
        else io_retry E dir fd t (\<lambda>l. nio_buf_loop E dir fd inner buf len t fuel (0 + nat r1) l r1) l (int (0 + nat r1)) r1
          (reset_errno s1)) = (Ok v, s')"
      using Suc.prems by (auto simp: call_bind_Ok Let_def)
    from raw_law [OF raw] show ?thesis
    proof
      assume a: "r1 = - 1 \<and> quiet s s1"
      with k have "io_retry E dir fd t (\<lambda>l. nio_buf_loop E dir fd inner buf len t fuel 0 l (- 1)) l 0 (- 1) s1 = (Ok v, s')"
        by simp
      then have "?P s1 s'"
      proof (rule retry_exact [where P = ?P])
        show "?P s s'" if "nio_buf_loop E dir fd inner buf len t fuel 0 l (- 1) s = (Ok v, s')" for l s s'
          using that by (rule Suc.IH)
        show "?P s0 s2" if "quiet s0 s1" "?P s1 s2" for s0 s1 s2 using that by (rule pre)
      qed auto
      with a show ?thesis using pre [of s s1 s'] by blast
    next
      assume "\<exists>n\<le>len. r1 = int n \<and> M buf n (sy_world s) (sy_world s1)"
      then obtain n where n: "n \<le> len" "r1 = int n" "M buf n (sy_world s) (sy_world s1)" by blast
      have "kind_of (sy_errno (reset_errno s1)) = EK_Other"
        by (simp add: reset_errno_def set_errno_def kind_of_def EAGAIN_def EINTR_def ETIMEDOUT_def)
      with k n(1,2) have "v = int n \<and> s' = reset_errno s1"
        by (auto simp: io_retry_def split: if_splits)
      with n show ?thesis by (auto simp: reset_errno_def set_errno_def)
    qed
  qed
qed simp

lemma set_flag_quiet: "set_non_blocking_flag E fd on s = (r, s') \<Longrightarrow> quiet s s'"
  using setfl_law none by (auto simp: set_non_blocking_flag_def Let_def split: if_splits prod.splits)

lemma set_blocking_quiet: "set_blocking E fd s = (r, s') \<Longrightarrow> quiet s s'"
  "set_non_blocking E fd s = (r, s') \<Longrightarrow> quiet s s'"
  using set_flag_quiet
  by (fastforce simp: set_blocking_def set_non_blocking_def split: prod.splits)+

lemma around_exact:
  assumes "nio_around E dir fd (inner buf len) (\<lambda>t l. nio_buf_loop E dir fd inner buf len t fuel 0 l (- 1)) s = (Ok v, s')"
  shows "v = - 1 \<and> quiet s s' \<or> (\<exists>n\<le>len. v = int n \<and> M buf n (sy_world s) (sy_world s'))"
proof (cases "is_socket E fd s")
  case False
  with assms raw_law show ?thesis by (auto simp: nio_around_def)
next
  case True
  let ?sn = "if is_blocking E fd s then set_non_blocking E fd else Pair (Ok ())"
  let ?sb = "if is_blocking E fd s then set_blocking E fd else Pair (Ok ())"
  obtain s1 t s2 l s3 s4 where ex: "?sn s = (Ok (), s1)" "sys_now E s1 = (Ok t, s2)" "time_limit E dir fd s2 = (Ok l, s3)"
    "nio_buf_loop E dir fd inner buf len t fuel 0 l (- 1) s3 = (Ok v, s4)" "?sb s4 = (Ok (), s')"
    using assms True by (auto simp: nio_around_def Let_def call_bind_Ok)
  have q: "quiet s s1" "quiet s4 s'"
    using ex(1,5) set_blocking_quiet none by (auto split: if_splits)
  have "quiet s1 s2" "quiet s2 s3"
    using quiet.keeps_now quiet.keeps_time_limit ex(2,3) unfolding keeps_def by blast+
  with q have "quiet s s3" by (meson quiet.frame_trans)
  from buf_loop_exact [OF ex(4)] show ?thesis
  proof
    assume "v = - 1 \<and> quiet s3 s4"
    with \<open>quiet s s3\<close> q(2) quiet.frame_trans [of s s3 s4] quiet.frame_trans [of s s4 s'] show ?thesis by blast
  next
    assume "\<exists>n\<le>len. v = int n \<and> M buf n (sy_world s3) (sy_world s4)"
    then obtain n where n: "n \<le> len" "v = int n" "M buf n (sy_world s3) (sy_world s4)" by blast
    from after [OF before [OF \<open>quiet s s3\<close> n(3)] q(2)] n show ?thesis by blast
  qed
qed

end

text \<open>Reading: bytes leave the stream and appear in memory. Writing: bytes of memory join the stream.\<close>

definition put_bytes :: "nat \<Rightarrow> 'b list \<Rightarrow> (nat \<Rightarrow> 'b) \<Rightarrow> nat \<Rightarrow> 'b" where
  "put_bytes a bs m = (\<lambda>x. if a \<le> x \<and> x < a + length bs then bs ! (x - a) else m x)"

definition reads_at ::
  "('w \<Rightarrow> nat \<Rightarrow> 'b) \<Rightarrow> ('w \<Rightarrow> 'b list) \<Rightarrow> nat \<Rightarrow> nat \<Rightarrow> 'w \<Rightarrow> 'w \<Rightarrow> bool" where
  "reads_at mem got a n w w' \<longleftrightarrow>
     (\<exists>bs. length bs = n \<and> got w' = got w @ bs \<and> mem w' = put_bytes a bs (mem w))"

definition writes_at ::
  "('w \<Rightarrow> nat \<Rightarrow> 'b) \<Rightarrow> ('w \<Rightarrow> 'b list) \<Rightarrow> nat \<Rightarrow> nat \<Rightarrow> 'w \<Rightarrow> 'w \<Rightarrow> bool" where
  "writes_at mem sent a n w w' \<longleftrightarrow> mem w' = mem w \<and> sent w' = sent w @ map (mem w) [a..<a + n]"

lemma put_bytes_Nil [simp]: "put_bytes a [] m = m"
  by (auto simp: put_bytes_def fun_eq_iff)

lemma reads_at_laws:
  "reads_at mem got a 0 w w"
  "\<forall>a. reads_at mem got a 0 w w1 \<Longrightarrow> reads_at mem got a n w1 w2 \<Longrightarrow> reads_at mem got a n w w2"
  "reads_at mem got a n w w1 \<Longrightarrow> \<forall>a. reads_at mem got a 0 w1 w2 \<Longrightarrow> reads_at mem got a n w w2"
  by (auto simp: reads_at_def)

lemma writes_at_laws:
  "writes_at mem sent a 0 w w"
  "\<forall>a. writes_at mem sent a 0 w w1 \<Longrightarrow> writes_at mem sent a n w1 w2 \<Longrightarrow> writes_at mem sent a n w w2"
  "writes_at mem sent a n w w1 \<Longrightarrow> \<forall>a. writes_at mem sent a 0 w1 w2 \<Longrightarrow> writes_at mem sent a n w w2"
  by (auto simp: writes_at_def)

section \<open>A kernel to run\<close>

text \<open>
  A scripted socket: each raw call answers the next number of the script, delivering that many
  bytes (0, 1, 2, \<dots>) or taking them, and fails with \<open>EAGAIN\<close> on \<open>-1\<close> and at the end of the script. The
  kernel keeps the memory, what was received and sent, and the arguments of the calls.
\<close>

record kern =
  kn_script :: "int list"
  kn_mem :: "nat \<Rightarrow> nat"
  kn_got :: "nat list"
  kn_sent :: "nat list"
  kn_calls :: "iovec list list"
  kn_flags :: i32

definition kern_next :: "kern \<Rightarrow> int \<times> kern" where
  "kern_next w = (case kn_script w of [] \<Rightarrow> (- 1, w) | r # rs \<Rightarrow> (r, w\<lparr>kn_script := rs\<rparr>))"

definition kern_recv :: "nat \<Rightarrow> nat \<Rightarrow> (unit, unit, kern, int) call" where
  "kern_recv a l s =
     (case kern_next (sy_world s) of (r, w) \<Rightarrow>
        if r < 0 then (Ok (- 1), set_errno EAGAIN (on_world (\<lambda>_. w) s))
        else (let n = min (nat r) l; bs = [length (kn_got w)..<length (kn_got w) + n]
              in (Ok (int n), on_world (\<lambda>_. w\<lparr>kn_got := kn_got w @ bs, kn_mem := put_bytes a bs (kn_mem w)\<rparr>) s)))"

definition kern_send :: "nat \<Rightarrow> nat \<Rightarrow> (unit, unit, kern, int) call" where
  "kern_send a l s =
     (case kern_next (sy_world s) of (r, w) \<Rightarrow>
        if r < 0 then (Ok (- 1), set_errno EAGAIN (on_world (\<lambda>_. w) s))
        else (let n = min (nat r) l
              in (Ok (int n), on_world (\<lambda>_. w\<lparr>kn_sent := kn_sent w @ map (kn_mem w) [a..<a + n]\<rparr>) s)))"

definition kern_readv :: "iovec list \<Rightarrow> (unit, unit, kern, int) call" where
  "kern_readv iov s =
     (case kern_next (sy_world s) of (r, w) \<Rightarrow>
        let w = w\<lparr>kn_calls := kn_calls w @ [iov]\<rparr>
        in if r < 0 then (Ok (- 1), set_errno EAGAIN (on_world (\<lambda>_. w) s))
           else (Ok r, on_world (\<lambda>_. w\<lparr>kn_got := kn_got w @ [length (kn_got w)..<length (kn_got w) + nat r]\<rparr>) s))"

definition kern_env :: "(unit, unit, kern) sys_env" where
  "kern_env =
     \<lparr>en_lsn = (\<lambda>l ev w. (w, False)), en_clock = (\<lambda>n. 1000), en_getfl = (\<lambda>fd w. kn_flags w),
      en_setfl = (\<lambda>fd fl w. (0, w\<lparr>kn_flags := fl\<rparr>)), en_fstat = (\<lambda>fd w. Some S_IFSOCK),
      en_rcvtimeo = (\<lambda>fd w. Inr (0, 0)), en_sndtimeo = (\<lambda>fd w. Inr (0, 0)),
      en_wait_read = (\<lambda>fd d s. (Ok (), s)), en_wait_write = (\<lambda>fd d s. (Ok (), s)),
      en_wait_event = (\<lambda>d s. (Ok (), s)), en_del_event = (\<lambda>k fd s. (Ok (), s)), en_suspend = (\<lambda>s. s)\<rparr>"

definition kern_sys :: "int list \<Rightarrow> (unit, unit, kern) sys" where
  "kern_sys script =
     \<lparr>sy_thread = \<lparr>th_coroutine = [], th_suspender = [], th_timestamp = [], th_cancel = [],
        th_world = \<lparr>kn_script = script, kn_mem = (\<lambda>a. a), kn_got = [], kn_sent = [], kn_calls = [], kn_flags = 2\<rparr>\<rparr>,
      sy_co = None, sy_errno = 0, sy_recv_limit = [], sy_send_limit = [], sy_reads = 0\<rparr>"

lemma kern_env_sel [simp]:
  "en_wait_read kern_env fd d s = (Ok (), s)" "en_wait_write kern_env fd d s = (Ok (), s)"
  "en_setfl kern_env fd fl w = (0, w\<lparr>kn_flags := fl\<rparr>)"
  by (simp_all add: kern_env_def)

interpretation kern_recv: transfer kern_env D_read fd kern_recv "reads_at kn_mem kn_got"
proof (unfold_locales, goal_cases)
  case (4 a l s r s')
  then show ?case
    by (auto simp: kern_recv_def kern_next_def Let_def reads_at_def set_errno_def
        split: list.splits if_splits intro!: exI [of _ "min _ _"])
qed (auto simp: wait_io_def reads_at_def)

interpretation kern_send: transfer kern_env D_write fd kern_send "writes_at kn_mem kn_sent"
proof (unfold_locales, goal_cases)
  case (4 a l s r s')
  then show ?case
    by (auto simp: kern_send_def kern_next_def Let_def writes_at_def set_errno_def
        split: list.splits if_splits intro!: exI [of _ "min _ _"])
qed (auto simp: wait_io_def writes_at_def)

section \<open>What a call leaves as it was\<close>

definition same_flags :: "('k, 'l, 'w) sys_env \<Rightarrow> int \<Rightarrow> ('k, 'l, 'w) sys \<Rightarrow> ('k, 'l, 'w) sys \<Rightarrow> bool" where
  "same_flags E fd s s' \<longleftrightarrow> en_getfl E fd (sy_world s') = en_getfl E fd (sy_world s)"

definition same_state :: "('k, 'l, 'w) sys \<Rightarrow> ('k, 'l, 'w) sys \<Rightarrow> bool" where
  "same_state s s' \<longleftrightarrow> cur_state s' = cur_state s"

interpretation flags: io_frame E "same_flags E fd" for E fd
  by unfold_locales (simp_all add: same_flags_def)

interpretation state: io_frame E same_state for E
  by unfold_locales (simp_all add: same_state_def cur_state_def)

lemma or_and_not:
  fixes x m :: "'a::len word"
  assumes "x AND m = 0"
  shows "(x OR m) AND NOT m = x"
proof (rule bit_word_eqI)
  fix n
  have "bit (x AND m) n = False" using assms by simp
  then show "bit ((x OR m) AND NOT m) n = bit x n"
    by (auto simp: bit_or_iff bit_and_iff bit_not_iff dest: bit_imp_le_length)
qed

lemma sint_or_nonblock: "0 \<le> sint fl \<Longrightarrow> 0 \<le> sint (fl OR O_NONBLOCK)"
proof -
  assume "0 \<le> sint fl"
  then have "\<not> bit fl 31" using bit_last_iff [of fl] by simp
  moreover have "\<not> bit O_NONBLOCK 31" by (simp add: O_NONBLOCK_def)
  ultimately have "\<not> bit (fl OR O_NONBLOCK) 31" by (simp add: bit_or_iff)
  then show ?thesis using bit_last_iff [of "fl OR O_NONBLOCK"] by simp
qed

lemma around_flags:
  assumes setfl: "\<And>fl w. \<exists>w'. en_setfl E fd fl w = (0, w') \<and> en_getfl E fd w' = fl"
    and pos: "0 \<le> sint (en_getfl E fd (sy_world s))"
    and loop: "\<And>t l. keeps (same_flags E fd) (loop t l)" and direct: "keeps (same_flags E fd) direct"
    and run: "nio_around E dir fd direct loop s = (Ok r, s')"
  shows "same_flags E fd s s'"
proof (cases "is_socket E fd s")
  case False
  with run direct show ?thesis by (auto simp: nio_around_def keeps_def)
next
  case True
  let ?fl = "\<lambda>s. en_getfl E fd (sy_world s)"
  have on: "?fl s' = ?fl s OR O_NONBLOCK" if "set_non_blocking E fd s = (Ok u, s')" "0 \<le> sint (?fl s)" for s s' u
    using that setfl [of "?fl s OR O_NONBLOCK" "sy_world s"]
    by (auto simp: set_non_blocking_def set_non_blocking_flag_def Let_def)
  have off: "?fl s' = ?fl s AND NOT O_NONBLOCK" if "set_blocking E fd s = (Ok u, s')" "0 \<le> sint (?fl s)" for s s' u
    using that setfl [of "?fl s AND NOT O_NONBLOCK" "sy_world s"]
    by (auto simp: set_blocking_def set_non_blocking_flag_def Let_def)
  let ?b = "is_blocking E fd s"
  obtain s1 t s2 l s3 s4 where ex: "(if ?b then set_non_blocking E fd else Pair (Ok ())) s = (Ok (), s1)"
    "sys_now E s1 = (Ok t, s2)" "time_limit E dir fd s2 = (Ok l, s3)" "loop t l s3 = (Ok r, s4)"
    "(if ?b then set_blocking E fd else Pair (Ok ())) s4 = (Ok (), s')"
    using run True by (auto simp: nio_around_def Let_def call_bind_Ok)
  have "same_flags E fd s1 s2" "same_flags E fd s2 s3" "same_flags E fd s3 s4"
    using flags.keeps_now [of E fd] flags.keeps_time_limit [of E fd] loop ex(2-4) unfolding keeps_def by blast+
  then have mid: "?fl s4 = ?fl s1" by (simp add: same_flags_def)
  show ?thesis
  proof (cases ?b)
    case True
    then have "?fl s AND O_NONBLOCK = 0"
      using pos by (auto simp: is_blocking_def is_non_blocking_def Let_def split: if_splits)
    moreover have "?fl s1 = ?fl s OR O_NONBLOCK" using ex(1) True on pos by auto
    moreover from this have "?fl s' = ?fl s4 AND NOT O_NONBLOCK"
      using ex(5) True off mid sint_or_nonblock [OF pos] by auto
    ultimately show ?thesis using mid or_and_not by (simp add: same_flags_def)
  next
    case False
    then show ?thesis using ex(1,5) mid by (auto simp: same_flags_def)
  qed
qed

lemma keeps_flag_state: "keeps same_state (set_non_blocking E fd)" "keeps same_state (set_blocking E fd)"
  by (auto simp: keeps_def set_non_blocking_def set_blocking_def set_non_blocking_flag_def same_state_def
      cur_state_def Let_def split: if_splits prod.splits)

lemmas around_state = state.keeps_around [OF keeps_flag_state]

section \<open>One vector is one buffer\<close>

text \<open>The bytes of a call on one buffer, whichever way it is written, end the same way.\<close>

definition iov_value :: "int + nat \<times> u64 \<times> int \<Rightarrow> int" where
  "iov_value res = (case res of Inl r \<Rightarrow> r | Inr (sofar, l, r) \<Rightarrow> r)"

definition map_call :: "('a \<Rightarrow> 'b) \<Rightarrow> ('k, 'l, 'w, 'a) call \<Rightarrow> ('k, 'l, 'w, 'b) call" where
  "map_call f c = call_bind c (\<lambda>a. Pair (Ok (f a)))"

lemma map_call_bind: "map_call f (call_bind m g) = call_bind m (\<lambda>a. map_call f (g a))"
  by (rule ext) (simp add: map_call_def call_bind_def split: prod.splits rust.splits)

lemma map_call_Ok [simp]: "map_call f (Pair (Ok a)) = Pair (Ok (f a))" "map_call f (\<lambda>s. (Ok a, g s)) = (\<lambda>s. (Ok (f a), g s))"
  "map_call f (\<lambda>s. (Panic m, g s)) = (\<lambda>s. (Panic m, g s))"
  by (auto simp: map_call_def call_bind_def fun_eq_iff)

lemma map_call_if: "map_call f (if c then a else b) = (if c then map_call f a else map_call f b)"
  by simp

lemma map_call_app: "map_call f c s = (case c s of (Ok a, s') \<Rightarrow> (Ok (f a), s') | (Err e, s') \<Rightarrow> (Err e, s')
    | (Panic m, s') \<Rightarrow> (Panic m, s') | (Hang, s') \<Rightarrow> (Hang, s'))"
  by (simp add: map_call_def call_bind_def)

lemma map_call_retry:
  "map_call f (io_retry E dir fd t loop l g r) = io_retry E dir fd t (\<lambda>l. map_call f (loop l)) l (f g) (f r)"
proof (rule ext)
  fix s
  have "(\<lambda>a. map_call f (case a of (l, ok) \<Rightarrow> if ok then loop l else Pair (Ok g))) =
      (\<lambda>(l, ok). if ok then map_call f (loop l) else Pair (Ok (f g)))"
    by auto
  then have "map_call f (call_bind (await_io E dir fd t) (\<lambda>(l, ok). if ok then loop l else Pair (Ok g))) =
      call_bind (await_io E dir fd t) (\<lambda>(l, ok). if ok then map_call f (loop l) else Pair (Ok (f g)))"
    by (simp add: map_call_bind)
  from fun_cong [OF this, of s]
  show "map_call f (io_retry E dir fd t loop l g r) s = io_retry E dir fd t (\<lambda>l. map_call f (loop l)) l (f g) (f r) s"
    by (simp add: map_call_app io_retry_def split: error_kind.splits)
qed

lemma iov_while_single:
  assumes "\<And>b l. inner' [(b, l)] = inner b l"
  shows "map_call iov_value (iov_while E D_write fd inner' t 0 len fuel [(buf, len)] 0 0 l (- 1))
    = nio_buf_loop E D_write fd inner buf len t fuel 0 l (- 1)"
proof (induction fuel arbitrary: l)
  case (Suc fuel)
  define g where "g r = (\<lambda>s. let retry = (\<lambda>sofar offset. io_retry E D_write fd t
            (\<lambda>l. iov_while E D_write fd inner' t 0 len fuel [(buf, len)] offset sofar l r) l (Inl (int sofar)) (Inl r))
        in if D_write = D_read \<and> r = 0 then (Ok (Inl (int 0)), s)
           else if r = -1 then retry 0 0 s
           else if r < 0 then (Panic ''r overflow'', reset_errno s)
           else if 0 + nat r \<ge> len then (Ok (Inr (0 + nat r, l, int (0 + nat r))), reset_errno s)
           else retry (0 + nat r) (0 + nat r - 0) (reset_errno s))" for r
  define h where "h r = (\<lambda>s. let retry = (\<lambda>sofar. io_retry E D_write fd t
            (\<lambda>l. nio_buf_loop E D_write fd inner buf len t fuel sofar l r) l (int sofar) r)
        in if r = -1 then retry 0 s
           else if r < 0 then (Panic ''r overflow'', reset_errno s)
           else if 0 + nat r \<ge> len \<or> D_write = D_read \<and> r = 0 then (Ok (int (0 + nat r)), reset_errno s)
           else retry (0 + nat r) (reset_errno s))" for r
  have again: "map_call iov_value (g r) s = h r s" for r s
  proof (cases "r = - 1")
    case True
    have "map_call iov_value (io_retry E D_write fd t
        (\<lambda>l. iov_while E D_write fd inner' t 0 len fuel [(buf, len)] 0 0 l (- 1)) l (Inl (int 0)) (Inl (- 1)))
      = io_retry E D_write fd t (\<lambda>l. nio_buf_loop E D_write fd inner buf len t fuel 0 l (- 1)) l (int 0) (- 1)"
      unfolding map_call_retry by (simp add: Suc.IH iov_value_def)
    from fun_cong [OF this, of s] True show ?thesis by (simp add: map_call_app g_def h_def)
  next
    case False
    have "kind_of (sy_errno (reset_errno s)) = EK_Other"
      by (simp add: reset_errno_def set_errno_def kind_of_def EAGAIN_def EINTR_def ETIMEDOUT_def)
    with False show ?thesis by (simp add: map_call_app io_retry_def iov_value_def g_def h_def)
  qed
  show ?case
  proof (cases "0 < len \<and> 0 < l")
    case False
    then show ?thesis by (auto simp: fun_eq_iff map_call_app iov_value_def)
  next
    case True
    then have "iov_while E D_write fd inner' t 0 len (Suc fuel) [(buf, len)] 0 0 l (- 1) = call_bind (inner buf len) g"
      "nio_buf_loop E D_write fd inner buf len t (Suc fuel) 0 l (- 1) = call_bind (inner buf len) h"
      by (auto simp: fun_eq_iff assms g_def [abs_def] h_def [abs_def] Let_def)
    moreover have "map_call iov_value (call_bind (inner buf len) g) = call_bind (inner buf len) h"
      unfolding map_call_bind using again by (intro arg_cong2 [where f = call_bind] refl) (simp add: fun_eq_iff)
    ultimately show ?thesis by simp
  qed
qed (simp add: fun_eq_iff map_call_app)

lemma cur_syscall_state:
  "cur_state s = Some Cs_Running \<Longrightarrow> cur_state (cur_syscall E n st s) = Some (Cs_Syscall () n st)"
  "cur_state s = Some (Cs_Syscall u n st') \<Longrightarrow> cur_state (cur_syscall E n st s) = Some (Cs_Syscall () n st)"
  "cur_state s = Some (Cs_Syscall u m st') \<Longrightarrow> m \<noteq> n \<Longrightarrow> cur_state (cur_syscall E n st s) = cur_state s"
  "cur_state s = None \<Longrightarrow> cur_state (cur_syscall E n st s) = None"
  by (auto simp: cur_state_def cur_syscall_def co_syscall_def change_state_def Let_def split: prod.splits)

lemma cur_running_state:
  "cur_state s = Some (Cs_Syscall u n Ss_Executing) \<Longrightarrow> cur_state (cur_running E s) = Some Cs_Running"
  "cur_state s = Some (Cs_Syscall u n Ss_Timeout) \<Longrightarrow> cur_state (cur_running E s) = cur_state s"
  by (auto simp: cur_state_def cur_running_def co_running_def change_state_def Let_def split: prod.splits)

lemma cur_syscall_suspender [simp]: "th_suspender (sy_thread (cur_syscall E n st s)) = th_suspender (sy_thread s)"
  by (auto simp: cur_syscall_def co_syscall_def change_state_def notify_all_def Let_def
      split: option.splits prod.splits coroutine_state.splits if_splits)

lemma cur_syscall_frame [simp]:
  "sy_errno (cur_running E s) = sy_errno s"
  "sy_recv_limit (cur_syscall E n st s) = sy_recv_limit s" "sy_send_limit (cur_syscall E n st s) = sy_send_limit s"
  by (auto simp: cur_syscall_def cur_running_def split: option.splits prod.splits)

lemma get_time_limit_exact:
  assumes "0 \<le> sec" "sec < 2 ^ 63" "0 \<le> usec" "usec < 2 ^ 63"
  shows "\<exists>l. get_time_limit (sec, usec) = Ok l \<and>
    unat l = (if sec = 0 \<and> usec = 0 then 2 ^ 64 - 1
              else min (nat sec * 1000000000 + nat usec * 1000) (2 ^ 64 - 1))"
proof -
  have u: "unat (of_int x :: u64) = nat x" if "0 \<le> x" "x < 2 ^ 63" for x :: int
    using that by (simp add: unsigned_of_int take_bit_int_eq_self)
  define l :: u64 where "l = sat_add (sat_mul (of_int sec) 1000000000) (sat_mul (of_int usec) 1000)"
  have l: "unat l = min (nat sec * 1000000000 + nat usec * 1000) (2 ^ 64 - 1)"
    using u [OF assms(1,2)] u [OF assms(3,4)] by (simp add: l_def sat_simps min_def)
  then have "l = 0 \<longleftrightarrow> sec = 0 \<and> usec = 0"
    using assms by (auto simp: unat_eq_zero [symmetric])
  with l assms(1,3) show ?thesis
    by (simp add: get_time_limit_def l_def [symmetric] Let_def unsigned_minus_1_eq_mask mask_eq_exp_minus_1)
qed

section \<open>The loops end at their deadline\<close>

text \<open>
  The contract under which a call on a socket with a time limit returns: the raw call answers and is
  not interrupted by a signal, the wait answers, with success or an error, the clock is read but not
  rewound, the limit of the socket is not changed, and its flags can be set.
\<close>

definition limit_of :: "io_dir \<Rightarrow> int \<Rightarrow> ('k, 'l, 'w) sys \<Rightarrow> u64 option" where
  "limit_of dir fd s = map_of (case dir of D_read \<Rightarrow> sy_recv_limit s | D_write \<Rightarrow> sy_send_limit s) fd"

definition goes_on :: "io_dir \<Rightarrow> int \<Rightarrow> u64 \<Rightarrow> ('k, 'l, 'w) sys \<Rightarrow> ('k, 'l, 'w) sys \<Rightarrow> bool" where
  "goes_on dir fd limit s s' \<longleftrightarrow> sy_reads s \<le> sy_reads s' \<and> limit_of dir fd s' = Some limit"

locale answering_io =
  fixes E :: "('k, 'l, 'w) sys_env" and dir :: io_dir and fd :: int
    and inner :: "nat \<Rightarrow> nat \<Rightarrow> ('k, 'l, 'w, int) call" and limit :: u64
  assumes raw_answers: "limit_of dir fd s = Some limit \<Longrightarrow> \<exists>r s'. inner a l s = (Ok r, s') \<and> - 1 \<le> r
      \<and> (r = - 1 \<longrightarrow> kind_of (sy_errno s') \<noteq> EK_Interrupted) \<and> goes_on dir fd limit s s'"
    and wait_answers: "limit_of dir fd s = Some limit \<Longrightarrow> \<exists>r s'. wait_io E dir fd d s = (r, s')
      \<and> (r = Ok () \<or> (\<exists>e. r = Err e)) \<and> goes_on dir fd limit s s'"
    and flags_settable: "0 \<le> sint (en_getfl E fd w)" "fst (en_setfl E fd fl w) = 0"
begin

lemma time_limit_known: "limit_of dir fd s = Some limit \<Longrightarrow> time_limit E dir fd s = (Ok limit, s)"
  by (cases dir) (simp_all add: limit_of_def time_limit_def recv_time_limit_def send_time_limit_def)

lemma await_answers:
  assumes "limit_of dir fd s = Some limit"
  shows "\<exists>ok s'. await_io E dir fd start_time s = (Ok (sat_sub (sat_add start_time limit) (en_clock E (sy_reads s)), ok), s')
    \<and> sy_reads s < sy_reads s' \<and> limit_of dir fd s' = Some limit"
proof -
  let ?l = "sat_sub (sat_add start_time limit) (en_clock E (sy_reads s))" and ?s = "s\<lparr>sy_reads := Suc (sy_reads s)\<rparr>"
  have "limit_of dir fd ?s = Some limit" using assms by (cases dir) (simp_all add: limit_of_def)
  from wait_answers [OF this, of "min (unat ?l) SLICE"] obtain r s' where
    w: "wait_io E dir fd (min (unat ?l) SLICE) ?s = (r, s')" "r = Ok () \<or> (\<exists>e. r = Err e)"
    "Suc (sy_reads s) \<le> sy_reads s'" "limit_of dir fd s' = Some limit"
    by (auto simp: goes_on_def)
  then show ?thesis
    using time_limit_known [OF assms] by (auto simp: await_io_def call_bind_def sys_now_def Let_def)
qed

lemma buf_loop_returns:
  assumes "\<And>k. K \<le> k \<Longrightarrow> sat_add start_time limit \<le> en_clock E k"
  shows "limit_of dir fd s = Some limit \<Longrightarrow> 0 < fuel \<Longrightarrow> left_time = 0 \<or> Suc (K - sy_reads s) < fuel \<Longrightarrow>
    \<exists>v s'. nio_buf_loop E dir fd inner buf len start_time fuel sofar left_time r s = (Ok v, s')"
proof (induction fuel arbitrary: sofar left_time r s)
  case (Suc fuel)
  show ?case
  proof (cases "sofar < len \<and> 0 < left_time")
    case False
    then show ?thesis by auto
  next
    case True
    then have f: "K - sy_reads s < fuel" using Suc.prems(3) by auto
    from raw_answers [OF Suc.prems(1)] obtain r1 s1 where raw: "inner (buf + sofar) (len - sofar) s = (Ok r1, s1)"
      "- 1 \<le> r1" "r1 = - 1 \<longrightarrow> kind_of (sy_errno s1) \<noteq> EK_Interrupted" "sy_reads s \<le> sy_reads s1" "limit_of dir fd s1 = Some limit"
      unfolding goes_on_def by blast
    show ?thesis
    proof (cases "r1 = - 1 \<and> kind_of (sy_errno s1) = EK_WouldBlock")
      case False
      have "kind_of (sy_errno (reset_errno s1)) = EK_Other"
        by (simp add: reset_errno_def set_errno_def kind_of_def EAGAIN_def EINTR_def ETIMEDOUT_def)
      with False raw True show ?thesis
        by (auto simp: call_bind_def Let_def io_retry_def split: error_kind.splits)
    next
      case block: True
      obtain ok s2 where aw: "await_io E dir fd start_time s1
          = (Ok (sat_sub (sat_add start_time limit) (en_clock E (sy_reads s1)), ok), s2)"
        "sy_reads s1 < sy_reads s2" "limit_of dir fd s2 = Some limit"
        using await_answers [OF raw(5)] by blast
      let ?l = "sat_sub (sat_add start_time limit) (en_clock E (sy_reads s1))"
      have "?l = 0 \<or> Suc (K - sy_reads s2) < fuel"
        using assms [of "sy_reads s1"] f raw(4) aw(2) by (cases "K \<le> sy_reads s1") auto
      from Suc.IH [OF aw(3) _ this] f obtain v s' where
        "nio_buf_loop E dir fd inner buf len start_time fuel sofar ?l r1 s2 = (Ok v, s')"
        by (metis gr_zeroI not_less_zero)
      with aw(1) raw(1) block True show ?thesis
        by (cases ok) (simp_all add: call_bind_def Let_def io_retry_def)
    qed
  qed
qed simp

lemma set_flag_answers:
  "\<exists>s'. set_non_blocking_flag E fd on s = (True, s') \<and> sy_reads s' = sy_reads s \<and> limit_of dir' fd' s' = limit_of dir' fd' s"
proof -
  let ?f = "if on then en_getfl E fd (sy_world s) OR O_NONBLOCK else en_getfl E fd (sy_world s) AND NOT O_NONBLOCK"
  obtain w where "en_setfl E fd ?f (sy_world s) = (0, w)"
    using flags_settable(2) [of ?f "sy_world s"] by (metis prod.collapse)
  then show ?thesis using flags_settable(1) [of "sy_world s"]
    by (cases dir'; cases on) (simp_all add: set_non_blocking_flag_def limit_of_def)
qed

lemma around_returns:
  assumes "\<And>k. K \<le> k \<Longrightarrow> sat_add (en_clock E (sy_reads s)) limit \<le> en_clock E k"
    and "limit_of dir fd s = Some limit" and "Suc K < fuel"
  shows "\<exists>v s'. nio_around E dir fd (inner buf len)
    (\<lambda>start_time left_time. nio_buf_loop E dir fd inner buf len start_time fuel 0 left_time (- 1)) s = (Ok v, s')"
proof (cases "is_socket E fd s")
  case False
  with raw_answers [OF assms(2), of buf len] show ?thesis by (auto simp: nio_around_def)
next
  case True
  let ?b = "is_blocking E fd s"
  obtain s1 where s1: "(if ?b then set_non_blocking E fd else Pair (Ok ())) s = (Ok (), s1)"
    "sy_reads s1 = sy_reads s" "limit_of dir fd s1 = Some limit"
    using set_flag_answers [of True s dir fd] assms(2) by (cases ?b) (auto simp: set_non_blocking_def)
  let ?s2 = "s1\<lparr>sy_reads := Suc (sy_reads s1)\<rparr>"
  have l2: "limit_of dir fd ?s2 = Some limit" using s1(3) by (cases dir) (simp_all add: limit_of_def)
  have "Suc (K - sy_reads ?s2) < fuel" using assms(3) by simp
  with buf_loop_returns [OF assms(1) l2, of K fuel limit buf len 0 "- 1"] assms(3) obtain v s3 where
    loop: "nio_buf_loop E dir fd inner buf len (en_clock E (sy_reads s)) fuel 0 limit (- 1) ?s2 = (Ok v, s3)"
    by auto
  obtain s4 where "(if ?b then set_blocking E fd else Pair (Ok ())) s3 = (Ok (), s4)"
    using set_flag_answers [of False s3 dir fd] by (cases ?b) (auto simp: set_blocking_def)
  with s1 loop True time_limit_known [OF l2] show ?thesis
    by (auto simp: nio_around_def Let_def call_bind_def sys_now_def)
qed

end

section \<open>Properties\<close>

text \<open>
  C20. A hooked read of a buffer reports exactly what it did: if it answers, the bytes taken from
  the stream are as many as it answers, or none if it answers \<open>-1\<close>; they are in the buffer, in
  order, from its start; nothing else in memory changed.
\<close>

theorem nio_read_buf_exact:
  assumes "transfer E D_read fd inner (reads_at mem got)"
    and "nio_read_buf E fuel fd inner buf len s = (Ok r, s')"
  shows "\<exists>bs. length bs \<le> len \<and> (r = int (length bs) \<or> r = - 1 \<and> bs = [])
    \<and> got (sy_world s') = got (sy_world s) @ bs \<and> mem (sy_world s') = put_bytes buf bs (mem (sy_world s))"
  using transfer.around_exact [OF assms(1), of buf len fuel s r s'] assms(2)
  by (fastforce simp: nio_read_buf_def reads_at_def)

lemma demo_read:
  "\<exists>s'. nio_read_buf kern_env 5 3 kern_recv 500 8 (kern_sys [-1, 3, 4]) = (Ok 3, s') \<and> kn_got (sy_world s') = [0, 1, 2]"
proof -
  have "fst (nio_read_buf kern_env 5 3 kern_recv 500 8 (kern_sys [-1, 3, 4])) = Ok 3"
    "kn_got (sy_world (snd (nio_read_buf kern_env 5 3 kern_recv 500 8 (kern_sys [-1, 3, 4])))) = [0, 1, 2]"
    by code_simp+
  then show ?thesis by (metis prod.collapse)
qed

theorem nio_read_buf_exact_witness:
  "\<exists>bs s'. nio_read_buf kern_env 5 3 kern_recv 500 8 (kern_sys [-1, 3, 4]) = (Ok 3, s') \<and> length bs = 3
     \<and> kn_mem (sy_world s') = put_bytes 500 bs (\<lambda>a. a)"
proof -
  obtain s' where run: "nio_read_buf kern_env 5 3 kern_recv 500 8 (kern_sys [-1, 3, 4]) = (Ok 3, s')"
    using demo_read by blast
  from nio_read_buf_exact [OF kern_recv.transfer_axioms run] run show ?thesis by (fastforce simp: kern_sys_def)
qed

text \<open>
  A hooked write of a buffer reports exactly what it did: the bytes that joined the stream are
  the first bytes of the buffer, as many as it answers, or none if it answers \<open>-1\<close>.
\<close>

lemma nio_write_buf_exact:
  assumes "transfer E D_write fd inner (writes_at mem sent)"
    and "nio_write_buf E fuel fd inner buf len s = (Ok r, s')"
  shows "\<exists>n\<le>len. (r = int n \<or> r = - 1 \<and> n = 0)
    \<and> sent (sy_world s') = sent (sy_world s) @ map (mem (sy_world s)) [buf..<buf + n]"
  using transfer.around_exact [OF assms(1), of buf len fuel s r s'] assms(2)
  by (fastforce simp: nio_write_buf_def writes_at_def)

lemma nio_write_buf_exact_example:
  "\<exists>n s'. nio_write_buf kern_env 5 3 kern_send 500 8 (kern_sys [-1, 5]) = (Ok 5, s') \<and> n \<le> 8
     \<and> kn_sent (sy_world s') = map (\<lambda>a. a) [500..<500 + n]"
proof -
  have "fst (nio_write_buf kern_env 5 3 kern_send 500 8 (kern_sys [-1, 5])) = Ok 5" by code_simp
  then obtain s' where run: "nio_write_buf kern_env 5 3 kern_send 500 8 (kern_sys [-1, 5]) = (Ok 5, s')"
    by (metis prod.collapse)
  from nio_write_buf_exact [OF kern_send.transfer_axioms run] run show ?thesis by (fastforce simp: kern_sys_def)
qed

text \<open>
  C21. A hooked read or write on a socket with a time limit returns: with a raw call and a wait that
  answer, it is over at the latest when the clock shows the start plus the limit, after as many
  rounds as the clock was read until then.
\<close>

theorem nio_returns_at_deadline:
  assumes "answering_io E dir fd inner limit" and "limit_of dir fd s = Some limit"
    and "\<And>k. K \<le> k \<Longrightarrow> sat_add (en_clock E (sy_reads s)) limit \<le> en_clock E k" and "Suc K < fuel"
    and "c = (case dir of D_read \<Rightarrow> nio_read_buf E fuel fd inner buf len | D_write \<Rightarrow> nio_write_buf E fuel fd inner buf len)"
  shows "\<exists>r s'. c s = (Ok r, s')"
  using answering_io.around_returns [OF assms(1,3,2,4)] assms(5)
  by (cases dir) (simp_all add: nio_read_buf_def nio_write_buf_def)

definition tick_env :: "(unit, unit, kern) sys_env" where
  "tick_env = kern_env\<lparr>en_clock := (\<lambda>n. of_nat (min n 5000)), en_getfl := (\<lambda>fd w. 2)\<rparr>"

interpretation tick: answering_io tick_env D_read fd kern_recv 1000
proof
  fix s :: "(unit, unit, kern) sys" and a l
  assume lim: "limit_of D_read fd s = Some 1000"
  obtain r w where n: "kern_next (sy_world s) = (r, w)" by fastforce
  have "kind_of EAGAIN \<noteq> EK_Interrupted" by (simp add: kind_of_def)
  with lim n show "\<exists>r s'. kern_recv a l s = (Ok r, s') \<and> - 1 \<le> r
      \<and> (r = - 1 \<longrightarrow> kind_of (sy_errno s') \<noteq> EK_Interrupted) \<and> goes_on D_read fd 1000 s s'"
    by (cases "r < 0") (auto simp: kern_recv_def goes_on_def Let_def set_errno_def limit_of_def)
qed (auto simp: tick_env_def wait_io_def goes_on_def kern_env_def)

theorem nio_returns_at_deadline_witness:
  "\<exists>r s'. nio_read_buf tick_env 1002 3 kern_recv 500 8 ((kern_sys [])\<lparr>sy_recv_limit := [(3, 1000)]\<rparr>) = (Ok r, s')"
proof (rule nio_returns_at_deadline [OF tick.answering_io_axioms])
  show "limit_of D_read 3 ((kern_sys [])\<lparr>sy_recv_limit := [(3, 1000)]\<rparr>) = Some 1000" by (simp add: limit_of_def)
  show "sat_add (en_clock tick_env (sy_reads ((kern_sys [])\<lparr>sy_recv_limit := [(3, 1000)]\<rparr>))) 1000 \<le> en_clock tick_env k"
    if "1000 \<le> k" for k
    using that by (simp add: tick_env_def kern_sys_def sat_add_def word_le_nat_alt unat_of_nat)
qed simp_all

text \<open>
  C22. A vector of one buffer is written exactly like the buffer: result, effects and errors agree.
\<close>

theorem write_iovec_single:
  assumes "\<And>b l. inner' [(b, l)] = inner b l"
  shows "nio_write_iovec E fuel fd inner' [(buf, len)] = nio_write_buf E fuel fd inner buf len"
proof -
  have "iov_for E D_write fd inner' t fuel [(buf, len)] [(buf, len)] 0 0 0 l (- 1)
      = nio_buf_loop E D_write fd inner buf len t fuel 0 l (- 1)" for t l
  proof (rule ext)
    fix s
    have "iov_for E D_write fd inner' t fuel [(buf, len)] [(buf, len)] 0 0 0 l (- 1) s
        = map_call iov_value (iov_while E D_write fd inner' t 0 len fuel [(buf, len)] 0 0 l (- 1)) s"
      by (auto simp: map_call_app call_bind_def iov_value_def split: prod.splits rust.splits sum.splits)
    then show "iov_for E D_write fd inner' t fuel [(buf, len)] [(buf, len)] 0 0 0 l (- 1) s
        = nio_buf_loop E D_write fd inner buf len t fuel 0 l (- 1) s"
      using iov_while_single [of inner' inner, OF assms] by simp
  qed
  with assms show ?thesis by (simp add: nio_write_iovec_def nio_iovec_def nio_write_buf_def)
qed

theorem write_iovec_single_witness:
  "nio_write_iovec kern_env 9 3 (\<lambda>iov. kern_send (fst (hd iov)) (snd (hd iov))) [(500, 8)] = nio_write_buf kern_env 9 3 kern_send 500 8"
  using write_iovec_single [of "\<lambda>iov. kern_send (fst (hd iov)) (snd (hd iov))" kern_send kern_env 9 3 500 8] by simp

text \<open>
  With several buffers the answer can be wrong: a scatter read of two buffers of four bytes that
  takes six bytes, then one more, has consumed seven bytes of the stream and answers 1.
\<close>

lemma readv_underreports:
  "fst (nio_read_iovec kern_env 5 3 kern_readv [(1000, 4), (2000, 4)] (kern_sys [6, 1])) = Ok 1
   \<and> length (kn_got (sy_world (snd (nio_read_iovec kern_env 5 3 kern_readv [(1000, 4), (2000, 4)] (kern_sys [6, 1]))))) = 7"
  by code_simp

text \<open>
  And bytes can go to the wrong place: when the second of these reads would block, the offset
  into the second buffer is applied again on the next round, so that it starts at 2004 instead of 2002,
  with no room left.
\<close>

lemma readv_misplaces:
  "kn_calls (sy_world (snd (nio_read_iovec kern_env 9 3 kern_readv [(1000, 4), (2000, 4)] (kern_sys [6, -1, -1, 0]))))
     = [[(1000, 4), (2000, 4)], [(2002, 2)], [(2004, 0)], [(2006, 2 ^ 64 - 2)]]"
  by code_simp



text \<open>A read of no bytes from a socket does not even ask the kernel: it answers \<open>-1\<close>.\<close>

lemma zero_length_read_fails: "fst (nio_read_buf kern_env 5 3 kern_recv 500 0 (kern_sys [0])) = Ok (- 1)"
  by code_simp

text \<open>
  A coroutine that was running is running again when its hooked call returns, and was in the state
  \<open>Syscall\<close> with the name of the call while the inner layers ran, provided the wait for an event gives the
  coroutine back in the state it found it in.
\<close>

lemma facade_returns_running:
  assumes "cur_state s = Some Cs_Running"
    and "\<And>a l. keeps same_state (inner a l)" and "\<And>d. keeps same_state (wait_io E D_read fd d)"
    and "syscall_chain E False n ring (nio_read_buf E fuel fd inner buf len) s = (Ok r, s')"
  shows "cur_state s' = Some Cs_Running \<and> cur_state (cur_syscall E n Ss_Executing s) = Some (Cs_Syscall () n Ss_Executing)"
proof -
  note enter = cur_syscall_state(1) [OF assms(1), of E n Ss_Executing]
  obtain s1 where run: "nio_read_buf E fuel fd inner buf len (cur_syscall E n Ss_Executing s) = (Ok r, s1)"
    and s': "s' = cur_running E s1"
    using assms(4) by (auto simp: syscall_chain_def facade_def split: prod.splits rust.splits)
  have "keeps same_state (nio_read_buf E fuel fd inner buf len)"
    unfolding nio_read_buf_def by (intro around_state state.keeps_buf_loop assms)
  with run enter have "cur_state s1 = Some (Cs_Syscall () n Ss_Executing)"
    by (auto simp: keeps_def same_state_def)
  with enter show ?thesis using cur_running_state(1) unfolding s' by blast
qed

definition kern_co :: "(unit, unit) sco" where
  "kern_co = \<lparr>co_id = 1, co_name = ''co'', co_inner = (), co_state = Cs_Running, co_stack_infos = [],
     co_listeners = [], co_priority = None\<rparr>"

definition kern_co_sys :: "int list \<Rightarrow> (unit, unit, kern) sys" where
  "kern_co_sys script = (kern_sys script)\<lparr>sy_co := Some kern_co,
     sy_thread := (sy_thread (kern_sys script))\<lparr>th_coroutine := [1], th_suspender := [1]\<rparr>\<rparr>"

lemma facade_returns_running_witness:
  "\<exists>s'. syscall_chain kern_env False Sn_recv (\<lambda>c. c) (nio_read_buf kern_env 5 3 kern_recv 500 8) (kern_co_sys [-1, 3, 4])
      = (Ok 3, s') \<and> cur_state s' = Some Cs_Running"
proof -
  let ?run = "syscall_chain kern_env False Sn_recv (\<lambda>c. c) (nio_read_buf kern_env 5 3 kern_recv 500 8) (kern_co_sys [-1, 3, 4])"
  have "fst ?run = Ok 3" by code_simp
  then have run: "?run = (Ok 3, snd ?run)" by (metis prod.collapse)
  have "cur_state (snd ?run) = Some Cs_Running"
    using facade_returns_running [OF _ _ _ run]
    by (auto simp: cur_state_def kern_co_sys_def kern_co_def keeps_def same_state_def kern_recv_def kern_next_def
        wait_io_def set_errno_def Let_def split: list.splits if_splits)
  with run show ?thesis by blast
qed

text \<open>
  Through the ring a timeout is not cleaned up: the call answers \<open>-1\<close> with \<open>ETIMEDOUT\<close>, but the
  coroutine goes on in the state \<open>Syscall\<close> \<open>Timeout\<close> of the call it has left, and refuses to enter
  any other call from then on.
\<close>

lemma uring_timeout_sticks:
  assumes "cur_state s = Some Cs_Running"
    and "\<And>s. cur_state s = Some (Cs_Syscall () n Ss_Executing) \<Longrightarrow>
      \<exists>arc s1. submit s = (Some arc, s1) \<and> cur_state s1 = cur_state s \<and> th_suspender (sy_thread s1) \<noteq> []
        \<and> map_of (sy_recv_limit s1) fd = Some limit"
    and "\<And>s ts. cur_state s = Some (Cs_Syscall () n (Ss_Suspend ts)) \<Longrightarrow>
      cur_state (en_suspend E s) = Some (Cs_Syscall () n Ss_Timeout)"
    and "m \<noteq> n"
  shows "\<exists>s'. syscall_chain E True n (uring_read E fd submit result) nio_call s = (Ok (- 1), s')
    \<and> sy_errno s' = ETIMEDOUT \<and> cur_state s' = Some (Cs_Syscall () n Ss_Timeout)
    \<and> cur_state (cur_syscall E m Ss_Executing s') = Some (Cs_Syscall () n Ss_Timeout)"
proof -
  let ?s0 = "cur_syscall E n Ss_Executing s"
  note enter = cur_syscall_state(1) [OF assms(1), of E n Ss_Executing]
  obtain arc s1 where sub: "submit ?s0 = (Some arc, s1)" "cur_state s1 = Some (Cs_Syscall () n Ss_Executing)"
    "th_suspender (sy_thread s1) \<noteq> []" "map_of (sy_recv_limit s1) fd = Some limit"
    using assms(2) [OF enter] enter by auto
  define s2 where "s2 = s1\<lparr>sy_reads := Suc (sy_reads s1)\<rparr>"
  define s3 where "s3 = cur_syscall E n (Ss_Suspend (sat_add (en_clock E (sy_reads s1)) limit)) s2"
  have st: "cur_state s3 = Some (Cs_Syscall () n (Ss_Suspend (sat_add (en_clock E (sy_reads s1)) limit)))"
    unfolding s3_def using sub(2) by (intro cur_syscall_state(2) [where u = "()"]) (simp add: s2_def cur_state_def)
  have "th_suspender (sy_thread s3) \<noteq> []" using sub(3) by (simp add: s3_def s2_def)
  then have sus: "cur_suspend E s3 = en_suspend E s3" by (simp add: cur_suspend_def)
  note out = assms(3) [OF st]
  have "uring_read E fd submit result nio_call ?s0 = (Ok (- 1), set_errno ETIMEDOUT (en_suspend E s3))"
    using sub out sus
    by (simp add: uring_read_def uring_timed_def call_bind_def sys_now_def time_limit_def recv_time_limit_def
        s2_def [symmetric] s3_def [symmetric])
      (simp add: s2_def s3_def [symmetric] s3_def [unfolded s2_def, symmetric])
  then have run: "syscall_chain E True n (uring_read E fd submit result) nio_call s =
      (Ok (- 1), cur_running E (set_errno ETIMEDOUT (en_suspend E s3)))"
    by (simp add: syscall_chain_def facade_def)
  have fin: "cur_state (cur_running E (set_errno ETIMEDOUT (en_suspend E s3))) = Some (Cs_Syscall () n Ss_Timeout)"
    using out cur_running_state(2) [of "set_errno ETIMEDOUT (en_suspend E s3)"]
    by (simp add: set_errno_def cur_state_def)
  with run cur_syscall_state(3) [OF fin, of m E Ss_Executing] assms(4) show ?thesis
    by (simp add: set_errno_def)
qed

definition kern_set_state :: "sco_state \<Rightarrow> (unit, unit, kern) sys \<Rightarrow> (unit, unit, kern) sys" where
  "kern_set_state st s = s\<lparr>sy_co := map_option (\<lambda>co. co\<lparr>co_state := st\<rparr>) (sy_co s)\<rparr>"

lemma cur_set_state: "cur_state s = Some st' \<Longrightarrow> cur_state (kern_set_state st s) = Some st"
  by (auto simp: cur_state_def kern_set_state_def)

lemma uring_timeout_sticks_witness:
  "\<exists>s'. syscall_chain (kern_env\<lparr>en_suspend := kern_set_state (Cs_Syscall () Sn_recv Ss_Timeout)\<rparr>) True Sn_recv
      (uring_read (kern_env\<lparr>en_suspend := kern_set_state (Cs_Syscall () Sn_recv Ss_Timeout)\<rparr>) 3
        (\<lambda>s. (Some 0, s\<lparr>sy_recv_limit := [(3, 77)], sy_thread := (sy_thread s)\<lparr>th_suspender := [1]\<rparr>\<rparr>)) (\<lambda>arc s. (None, s)))
      (Pair (Ok 0)) (kern_co_sys []) = (Ok (- 1), s')
    \<and> cur_state s' = Some (Cs_Syscall () Sn_recv Ss_Timeout)"
proof -
  let ?E = "kern_env\<lparr>en_suspend := kern_set_state (Cs_Syscall () Sn_recv Ss_Timeout)\<rparr>"
  have "cur_state (kern_co_sys []) = Some Cs_Running" by (simp add: cur_state_def kern_co_sys_def kern_co_def)
  moreover have "cur_state (en_suspend ?E s) = Some (Cs_Syscall () Sn_recv Ss_Timeout)"
    if "cur_state s = Some (Cs_Syscall () Sn_recv (Ss_Suspend ts))" for s ts
    using cur_set_state [OF that] by simp
  ultimately show ?thesis
    using uring_timeout_sticks [of "kern_co_sys []" Sn_recv
      "\<lambda>s. (Some 0, s\<lparr>sy_recv_limit := [(3, 77)], sy_thread := (sy_thread s)\<lparr>th_suspender := [1]\<rparr>\<rparr>)" 3 77 ?E Sn_send
      "\<lambda>arc s. (None, s)" "Pair (Ok 0)"]
    by (fastforce simp: cur_state_def)
qed

text \<open>
  C24. The time limit of a socket is its timeout option in nanoseconds, cut off at the largest
  \<open>u64\<close>; zero means no limit. It is read from the kernel once and remembered.
\<close>

theorem recv_limit_exact:
  assumes "map_of (sy_recv_limit s) fd = None" and "en_rcvtimeo E fd (sy_world s) = Inr (sec, usec)"
    and "0 \<le> sec" "sec < 2 ^ 63" "0 \<le> usec" "usec < 2 ^ 63"
  shows "\<exists>l s'. recv_time_limit E fd s = (Ok l, s') \<and> recv_time_limit E' fd s' = (Ok l, s') \<and>
    unat l = (if sec = 0 \<and> usec = 0 then 2 ^ 64 - 1
              else min (nat sec * 1000000000 + nat usec * 1000) (2 ^ 64 - 1))"
  using get_time_limit_exact [OF assms(3-6)] assms(1,2)
  by (auto simp: recv_time_limit_def AList.update_conv')

theorem recv_limit_exact_witness:
  "\<exists>l s'. recv_time_limit (kern_env\<lparr>en_rcvtimeo := (\<lambda>fd w. Inr (2, 500))\<rparr>) 3 (kern_sys []) = (Ok l, s') \<and> unat l = 2000500000"
proof -
  let ?E = "kern_env\<lparr>en_rcvtimeo := (\<lambda>fd w. Inr (2, 500))\<rparr>"
  have "\<exists>l s'. recv_time_limit ?E 3 (kern_sys []) = (Ok l, s') \<and> recv_time_limit ?E 3 s' = (Ok l, s') \<and> unat l = 2000500000"
    using recv_limit_exact [of "kern_sys []" 3 ?E 2 500 ?E] by (simp add: kern_sys_def)
  then show ?thesis by blast
qed

end
