(* ===== verification/OC_Unix_Calls.thy ===== *)
theory OC_Unix_Calls
  imports OC_Nio
begin

unbundle bit_operations_syntax

text \<open>
  \<^verbatim>\<open>core/src/syscall/unix/\<close>: the hooked system calls, one file each. Most of them only name the
  layers of \<^verbatim>\<open>mod.rs\<close> they are made of; \<open>sleep\<close>, \<open>usleep\<close>, \<open>nanosleep\<close>, \<open>poll\<close>, \<open>select\<close>, \<open>connect\<close>, \<open>close\<close>,
  \<open>shutdown\<close>, \<open>setsockopt\<close>, \<open>sendmsg\<close>, \<open>recvmsg\<close>, \<open>pthread_mutex_lock\<close>, \<open>pthread_cond_timedwait\<close> and the
  facade of \<open>write\<close> have code of their own.
\<close>

section \<open>Calls that are made of the layers\<close>

text \<open>How a call is handed to the ring and how its result comes back.\<close>

record ('k, 'l, 'w) ring =
  rg_submit :: "('k, 'l, 'w) sys \<Rightarrow> nat option \<times> ('k, 'l, 'w) sys"
  rg_result :: "nat \<Rightarrow> ('k, 'l, 'w) sys \<Rightarrow> int option \<times> ('k, 'l, 'w) sys"

type_synonym ('k, 'l, 'w, 'a) fn = "'a \<Rightarrow> ('k, 'l, 'w, int) call"

definition sys_accept ::
  "('k, 'l, 'w) sys_env \<Rightarrow> bool \<Rightarrow> ('k, 'l, 'w) ring \<Rightarrow> nat \<Rightarrow> ('k, 'l, 'w, int \<times> nat \<times> nat) fn option
    \<Rightarrow> ('k, 'l, 'w, int \<times> nat \<times> nat) fn \<Rightarrow> int \<Rightarrow> nat \<Rightarrow> nat \<Rightarrow> ('k, 'l, 'w, int) call" where
  "sys_accept E io R fuel fn_ptr libc_fn fd address address_len =
     syscall_chain E io Sn_accept (uring_read E fd (rg_submit R) (rg_result R))
       (nio_read E fuel fd (raw_call fn_ptr libc_fn (fd, address, address_len)))"

definition sys_accept4 ::
  "('k, 'l, 'w) sys_env \<Rightarrow> bool \<Rightarrow> ('k, 'l, 'w) ring \<Rightarrow> nat \<Rightarrow> ('k, 'l, 'w, int \<times> nat \<times> nat \<times> int) fn option
    \<Rightarrow> ('k, 'l, 'w, int \<times> nat \<times> nat \<times> int) fn \<Rightarrow> int \<Rightarrow> nat \<Rightarrow> nat \<Rightarrow> int \<Rightarrow> ('k, 'l, 'w, int) call" where
  "sys_accept4 E io R fuel fn_ptr libc_fn fd addr len flg =
     syscall_chain E io Sn_accept4 (uring E (rg_submit R) (rg_result R))
       (nio_read E fuel fd (raw_call fn_ptr libc_fn (fd, addr, len, flg)))"

definition sys_read ::
  "('k, 'l, 'w) sys_env \<Rightarrow> bool \<Rightarrow> ('k, 'l, 'w) ring \<Rightarrow> nat \<Rightarrow> ('k, 'l, 'w, int \<times> nat \<times> nat) fn option
    \<Rightarrow> ('k, 'l, 'w, int \<times> nat \<times> nat) fn \<Rightarrow> int \<Rightarrow> nat \<Rightarrow> nat \<Rightarrow> ('k, 'l, 'w, int) call" where
  "sys_read E io R fuel fn_ptr libc_fn fd buf len =
     syscall_chain E io Sn_read (uring_read E fd (rg_submit R) (rg_result R))
       (nio_read_buf E fuel fd (\<lambda>b l. raw_call fn_ptr libc_fn (fd, b, l)) buf len)"

definition sys_pread ::
  "('k, 'l, 'w) sys_env \<Rightarrow> bool \<Rightarrow> ('k, 'l, 'w) ring \<Rightarrow> nat \<Rightarrow> ('k, 'l, 'w, int \<times> nat \<times> nat \<times> int) fn option
    \<Rightarrow> ('k, 'l, 'w, int \<times> nat \<times> nat \<times> int) fn \<Rightarrow> int \<Rightarrow> nat \<Rightarrow> nat \<Rightarrow> int \<Rightarrow> ('k, 'l, 'w, int) call" where
  "sys_pread E io R fuel fn_ptr libc_fn fd buf len offset =
     syscall_chain E io Sn_pread (uring_read E fd (rg_submit R) (rg_result R))
       (nio_read_buf E fuel fd (\<lambda>b l. raw_call fn_ptr libc_fn (fd, b, l, offset)) buf len)"

definition sys_recv ::
  "('k, 'l, 'w) sys_env \<Rightarrow> bool \<Rightarrow> ('k, 'l, 'w) ring \<Rightarrow> nat \<Rightarrow> ('k, 'l, 'w, int \<times> nat \<times> nat \<times> int) fn option
    \<Rightarrow> ('k, 'l, 'w, int \<times> nat \<times> nat \<times> int) fn \<Rightarrow> int \<Rightarrow> nat \<Rightarrow> nat \<Rightarrow> int \<Rightarrow> ('k, 'l, 'w, int) call" where
  "sys_recv E io R fuel fn_ptr libc_fn fd buf len flags =
     syscall_chain E io Sn_recv (uring_read E fd (rg_submit R) (rg_result R))
       (nio_read_buf E fuel fd (\<lambda>b l. raw_call fn_ptr libc_fn (fd, b, l, flags)) buf len)"

definition sys_recvfrom ::
  "('k, 'l, 'w) sys_env \<Rightarrow> nat \<Rightarrow> ('k, 'l, 'w, int \<times> nat \<times> nat \<times> int \<times> nat \<times> nat) fn option
    \<Rightarrow> ('k, 'l, 'w, int \<times> nat \<times> nat \<times> int \<times> nat \<times> nat) fn \<Rightarrow> int \<Rightarrow> nat \<Rightarrow> nat \<Rightarrow> int \<Rightarrow> nat \<Rightarrow> nat \<Rightarrow> ('k, 'l, 'w, int) call" where
  "sys_recvfrom E fuel fn_ptr libc_fn fd buf len flags addr addrlen =
     facade E Sn_recvfrom
       (nio_read_buf E fuel fd (\<lambda>b l. raw_call fn_ptr libc_fn (fd, b, l, flags, addr, addrlen)) buf len)"

definition sys_readv ::
  "('k, 'l, 'w) sys_env \<Rightarrow> bool \<Rightarrow> ('k, 'l, 'w) ring \<Rightarrow> nat \<Rightarrow> ('k, 'l, 'w, int \<times> iovec list) fn option
    \<Rightarrow> ('k, 'l, 'w, int \<times> iovec list) fn \<Rightarrow> int \<Rightarrow> iovec list \<Rightarrow> ('k, 'l, 'w, int) call" where
  "sys_readv E io R fuel fn_ptr libc_fn fd iov =
     syscall_chain E io Sn_readv (uring_read E fd (rg_submit R) (rg_result R))
       (nio_read_iovec E fuel fd (\<lambda>v. raw_call fn_ptr libc_fn (fd, v)) iov)"

definition sys_preadv ::
  "('k, 'l, 'w) sys_env \<Rightarrow> bool \<Rightarrow> ('k, 'l, 'w) ring \<Rightarrow> nat \<Rightarrow> ('k, 'l, 'w, int \<times> iovec list \<times> int) fn option
    \<Rightarrow> ('k, 'l, 'w, int \<times> iovec list \<times> int) fn \<Rightarrow> int \<Rightarrow> iovec list \<Rightarrow> int \<Rightarrow> ('k, 'l, 'w, int) call" where
  "sys_preadv E io R fuel fn_ptr libc_fn fd iov offset =
     syscall_chain E io Sn_preadv (uring_read E fd (rg_submit R) (rg_result R))
       (nio_read_iovec E fuel fd (\<lambda>v. raw_call fn_ptr libc_fn (fd, v, offset)) iov)"

definition sys_send ::
  "('k, 'l, 'w) sys_env \<Rightarrow> bool \<Rightarrow> ('k, 'l, 'w) ring \<Rightarrow> nat \<Rightarrow> ('k, 'l, 'w, int \<times> nat \<times> nat \<times> int) fn option
    \<Rightarrow> ('k, 'l, 'w, int \<times> nat \<times> nat \<times> int) fn \<Rightarrow> int \<Rightarrow> nat \<Rightarrow> nat \<Rightarrow> int \<Rightarrow> ('k, 'l, 'w, int) call" where
  "sys_send E io R fuel fn_ptr libc_fn fd buf len flags =
     syscall_chain E io Sn_send (uring_write E fd (rg_submit R) (rg_result R))
       (nio_write_buf E fuel fd (\<lambda>b l. raw_call fn_ptr libc_fn (fd, b, l, flags)) buf len)"

definition sys_sendto ::
  "('k, 'l, 'w) sys_env \<Rightarrow> bool \<Rightarrow> ('k, 'l, 'w) ring \<Rightarrow> nat
    \<Rightarrow> ('k, 'l, 'w, int \<times> nat \<times> nat \<times> int \<times> nat \<times> nat) fn option
    \<Rightarrow> ('k, 'l, 'w, int \<times> nat \<times> nat \<times> int \<times> nat \<times> nat) fn \<Rightarrow> int \<Rightarrow> nat \<Rightarrow> nat \<Rightarrow> int \<Rightarrow> nat \<Rightarrow> nat \<Rightarrow> ('k, 'l, 'w, int) call" where
  "sys_sendto E io R fuel fn_ptr libc_fn fd buf len flags addr addrlen =
     syscall_chain E io Sn_sendto (uring_write E fd (rg_submit R) (rg_result R))
       (nio_write_buf E fuel fd (\<lambda>b l. raw_call fn_ptr libc_fn (fd, b, l, flags, addr, addrlen)) buf len)"

definition sys_pwrite ::
  "('k, 'l, 'w) sys_env \<Rightarrow> bool \<Rightarrow> ('k, 'l, 'w) ring \<Rightarrow> nat \<Rightarrow> ('k, 'l, 'w, int \<times> nat \<times> nat \<times> int) fn option
    \<Rightarrow> ('k, 'l, 'w, int \<times> nat \<times> nat \<times> int) fn \<Rightarrow> int \<Rightarrow> nat \<Rightarrow> nat \<Rightarrow> int \<Rightarrow> ('k, 'l, 'w, int) call" where
  "sys_pwrite E io R fuel fn_ptr libc_fn fd buf len offset =
     syscall_chain E io Sn_pwrite (uring_write E fd (rg_submit R) (rg_result R))
       (nio_write_buf E fuel fd (\<lambda>b l. raw_call fn_ptr libc_fn (fd, b, l, offset)) buf len)"

definition sys_writev ::
  "('k, 'l, 'w) sys_env \<Rightarrow> bool \<Rightarrow> ('k, 'l, 'w) ring \<Rightarrow> nat \<Rightarrow> ('k, 'l, 'w, int \<times> iovec list) fn option
    \<Rightarrow> ('k, 'l, 'w, int \<times> iovec list) fn \<Rightarrow> int \<Rightarrow> iovec list \<Rightarrow> ('k, 'l, 'w, int) call" where
  "sys_writev E io R fuel fn_ptr libc_fn fd iov =
     syscall_chain E io Sn_writev (uring_write E fd (rg_submit R) (rg_result R))
       (nio_write_iovec E fuel fd (\<lambda>v. raw_call fn_ptr libc_fn (fd, v)) iov)"

definition sys_pwritev ::
  "('k, 'l, 'w) sys_env \<Rightarrow> bool \<Rightarrow> ('k, 'l, 'w) ring \<Rightarrow> nat \<Rightarrow> ('k, 'l, 'w, int \<times> iovec list \<times> int) fn option
    \<Rightarrow> ('k, 'l, 'w, int \<times> iovec list \<times> int) fn \<Rightarrow> int \<Rightarrow> iovec list \<Rightarrow> int \<Rightarrow> ('k, 'l, 'w, int) call" where
  "sys_pwritev E io R fuel fn_ptr libc_fn fd iov offset =
     syscall_chain E io Sn_pwritev (uring_write E fd (rg_submit R) (rg_result R))
       (nio_write_iovec E fuel fd (\<lambda>v. raw_call fn_ptr libc_fn (fd, v, offset)) iov)"

text \<open>\<open>impl_syscall2\<close>: facade, io\_uring where the feature is on, raw.\<close>

definition sys_socket ::
  "('k, 'l, 'w) sys_env \<Rightarrow> bool \<Rightarrow> ('k, 'l, 'w) ring \<Rightarrow> ('k, 'l, 'w, int \<times> int \<times> int) fn option
    \<Rightarrow> ('k, 'l, 'w, int \<times> int \<times> int) fn \<Rightarrow> int \<Rightarrow> int \<Rightarrow> int \<Rightarrow> ('k, 'l, 'w, int) call" where
  "sys_socket E io R fn_ptr libc_fn domain ty protocol =
     syscall_chain E io Sn_socket (uring E (rg_submit R) (rg_result R)) (raw_call fn_ptr libc_fn (domain, ty, protocol))"

definition sys_fsync ::
  "('k, 'l, 'w) sys_env \<Rightarrow> bool \<Rightarrow> ('k, 'l, 'w) ring \<Rightarrow> ('k, 'l, 'w, int) fn option \<Rightarrow> ('k, 'l, 'w, int) fn \<Rightarrow> int
    \<Rightarrow> ('k, 'l, 'w, int) call" where
  "sys_fsync E io R fn_ptr libc_fn fd =
     syscall_chain E io Sn_fsync (uring E (rg_submit R) (rg_result R)) (raw_call fn_ptr libc_fn fd)"

definition sys_mkdirat ::
  "('k, 'l, 'w) sys_env \<Rightarrow> bool \<Rightarrow> ('k, 'l, 'w) ring \<Rightarrow> ('k, 'l, 'w, int \<times> nat \<times> nat) fn option
    \<Rightarrow> ('k, 'l, 'w, int \<times> nat \<times> nat) fn \<Rightarrow> int \<Rightarrow> nat \<Rightarrow> nat \<Rightarrow> ('k, 'l, 'w, int) call" where
  "sys_mkdirat E io R fn_ptr libc_fn dirfd pathname mode =
     syscall_chain E io Sn_mkdirat (uring E (rg_submit R) (rg_result R)) (raw_call fn_ptr libc_fn (dirfd, pathname, mode))"

definition sys_renameat ::
  "('k, 'l, 'w) sys_env \<Rightarrow> bool \<Rightarrow> ('k, 'l, 'w) ring \<Rightarrow> ('k, 'l, 'w, int \<times> nat \<times> int \<times> nat) fn option
    \<Rightarrow> ('k, 'l, 'w, int \<times> nat \<times> int \<times> nat) fn \<Rightarrow> int \<Rightarrow> nat \<Rightarrow> int \<Rightarrow> nat \<Rightarrow> ('k, 'l, 'w, int) call" where
  "sys_renameat E io R fn_ptr libc_fn olddirfd oldpath newdirfd newpath =
     syscall_chain E io Sn_renameat (uring E (rg_submit R) (rg_result R))
       (raw_call fn_ptr libc_fn (olddirfd, oldpath, newdirfd, newpath))"

definition sys_renameat2 ::
  "('k, 'l, 'w) sys_env \<Rightarrow> bool \<Rightarrow> ('k, 'l, 'w) ring \<Rightarrow> ('k, 'l, 'w, int \<times> nat \<times> int \<times> nat \<times> nat) fn option
    \<Rightarrow> ('k, 'l, 'w, int \<times> nat \<times> int \<times> nat \<times> nat) fn \<Rightarrow> int \<Rightarrow> nat \<Rightarrow> int \<Rightarrow> nat \<Rightarrow> nat \<Rightarrow> ('k, 'l, 'w, int) call" where
  "sys_renameat2 E io R fn_ptr libc_fn olddirfd oldpath newdirfd newpath flags =
     syscall_chain E io Sn_renameat2 (uring E (rg_submit R) (rg_result R))
       (raw_call fn_ptr libc_fn (olddirfd, oldpath, newdirfd, newpath, flags))"

text \<open>Facade and raw only.\<close>

definition sys_listen ::
  "('k, 'l, 'w) sys_env \<Rightarrow> ('k, 'l, 'w, int \<times> int) fn option \<Rightarrow> ('k, 'l, 'w, int \<times> int) fn \<Rightarrow> int \<Rightarrow> int
    \<Rightarrow> ('k, 'l, 'w, int) call" where
  "sys_listen E fn_ptr libc_fn fd backlog = facade E Sn_listen (raw_call fn_ptr libc_fn (fd, backlog))"

definition sys_lseek ::
  "('k, 'l, 'w) sys_env \<Rightarrow> ('k, 'l, 'w, int \<times> int \<times> int) fn option \<Rightarrow> ('k, 'l, 'w, int \<times> int \<times> int) fn \<Rightarrow> int \<Rightarrow> int \<Rightarrow> int
    \<Rightarrow> ('k, 'l, 'w, int) call" where
  "sys_lseek E fn_ptr libc_fn fd offset whence = facade E Sn_lseek (raw_call fn_ptr libc_fn (fd, offset, whence))"

definition sys_mkdir ::
  "('k, 'l, 'w) sys_env \<Rightarrow> ('k, 'l, 'w, nat \<times> nat) fn option \<Rightarrow> ('k, 'l, 'w, nat \<times> nat) fn \<Rightarrow> nat \<Rightarrow> nat
    \<Rightarrow> ('k, 'l, 'w, int) call" where
  "sys_mkdir E fn_ptr libc_fn path mode = facade E Sn_mkdir (raw_call fn_ptr libc_fn (path, mode))"

definition sys_rmdir ::
  "('k, 'l, 'w) sys_env \<Rightarrow> ('k, 'l, 'w, nat) fn option \<Rightarrow> ('k, 'l, 'w, nat) fn \<Rightarrow> nat \<Rightarrow> ('k, 'l, 'w, int) call" where
  "sys_rmdir E fn_ptr libc_fn path = facade E Sn_rmdir (raw_call fn_ptr libc_fn path)"

definition sys_link ::
  "('k, 'l, 'w) sys_env \<Rightarrow> ('k, 'l, 'w, nat \<times> nat) fn option \<Rightarrow> ('k, 'l, 'w, nat \<times> nat) fn \<Rightarrow> nat \<Rightarrow> nat
    \<Rightarrow> ('k, 'l, 'w, int) call" where
  "sys_link E fn_ptr libc_fn src dst = facade E Sn_link (raw_call fn_ptr libc_fn (src, dst))"

definition sys_unlink ::
  "('k, 'l, 'w) sys_env \<Rightarrow> ('k, 'l, 'w, nat) fn option \<Rightarrow> ('k, 'l, 'w, nat) fn \<Rightarrow> nat \<Rightarrow> ('k, 'l, 'w, int) call" where
  "sys_unlink E fn_ptr libc_fn src = facade E Sn_unlink (raw_call fn_ptr libc_fn src)"

definition sys_pthread_mutex_trylock ::
  "('k, 'l, 'w) sys_env \<Rightarrow> ('k, 'l, 'w, nat) fn option \<Rightarrow> ('k, 'l, 'w, nat) fn \<Rightarrow> nat \<Rightarrow> ('k, 'l, 'w, int) call" where
  "sys_pthread_mutex_trylock E fn_ptr libc_fn lock = facade E Sn_pthread_mutex_trylock (raw_call fn_ptr libc_fn lock)"

definition sys_pthread_mutex_unlock ::
  "('k, 'l, 'w) sys_env \<Rightarrow> ('k, 'l, 'w, nat) fn option \<Rightarrow> ('k, 'l, 'w, nat) fn \<Rightarrow> nat \<Rightarrow> ('k, 'l, 'w, int) call" where
  "sys_pthread_mutex_unlock E fn_ptr libc_fn lock = facade E Sn_pthread_mutex_unlock (raw_call fn_ptr libc_fn lock)"

text \<open>\<open>write\<close> to the standard output and the standard error bypasses every layer.\<close>

definition sys_write ::
  "('k, 'l, 'w) sys_env \<Rightarrow> bool \<Rightarrow> ('k, 'l, 'w) ring \<Rightarrow> nat \<Rightarrow> ('k, 'l, 'w, int \<times> nat \<times> nat) fn option
    \<Rightarrow> ('k, 'l, 'w, int \<times> nat \<times> nat) fn \<Rightarrow> int \<Rightarrow> nat \<Rightarrow> nat \<Rightarrow> ('k, 'l, 'w, int) call" where
  "sys_write E io R fuel fn_ptr libc_fn fd buf len =
     (if fd = 1 \<or> fd = 2 then raw_call fn_ptr libc_fn (fd, buf, len)
      else syscall_chain E io Sn_write (uring_write E fd (rg_submit R) (rg_result R))
        (nio_write_buf E fuel fd (\<lambda>b l. raw_call fn_ptr libc_fn (fd, b, l)) buf len))"

section \<open>Sleeping\<close>

text \<open>
  The current coroutine is put into the suspended state of the call by hand, then the event loop
  is asked to wait; what it answers is ignored.
\<close>

definition sleep_for :: "('k, 'l, 'w) sys_env \<Rightarrow> syscall_name \<Rightarrow> nat \<Rightarrow> ('k, 'l, 'w, int) call" where
  "sleep_for E n time =
     call_bind
       (\<lambda>s. if sy_co s = None then (Ok (), s)
            else call_bind (sys_now E) (\<lambda>t s. (Ok (), cur_syscall E n (Ss_Suspend (get_timeout_time t time)) s)) s)
       (\<lambda>u s. case en_wait_event E time s of
                (Ok v, s') \<Rightarrow> (Ok 0, reset_errno s')
              | (Err e, s') \<Rightarrow> (Ok 0, reset_errno s')
              | (Panic m, s') \<Rightarrow> (Panic m, s')
              | (Hang, s') \<Rightarrow> (Hang, s'))"

definition sys_sleep :: "('k, 'l, 'w) sys_env \<Rightarrow> u32 \<Rightarrow> ('k, 'l, 'w, int) call" where
  "sys_sleep E secs = facade E Sn_sleep (sleep_for E Sn_sleep (unat secs * 10 ^ 9))"

text \<open>\<open>checked_mul\<close> of a 32-bit number by a thousand never fails at 64 bits.\<close>

definition duration_max :: nat where
  "duration_max = (2 ^ 64 - 1) * 10 ^ 9 + 999999999"

definition sys_usleep :: "('k, 'l, 'w) sys_env \<Rightarrow> u32 \<Rightarrow> ('k, 'l, 'w, int) call" where
  "sys_usleep E microseconds =
     facade E Sn_usleep (sleep_for E Sn_usleep
       (if unat microseconds * 1000 < 2 ^ 64 then unat microseconds * 1000 else duration_max))"

definition EINVAL :: int where "EINVAL = 22"

text \<open>The remaining time, where the caller asked for it, is always reported as zero: \<open>zero_rmtp\<close> writes it.\<close>

definition sys_nanosleep ::
  "('k, 'l, 'w) sys_env \<Rightarrow> int \<Rightarrow> int \<Rightarrow> (('k, 'l, 'w) sys \<Rightarrow> ('k, 'l, 'w) sys) option
    \<Rightarrow> ('k, 'l, 'w, int) call" where
  "sys_nanosleep E tv_sec tv_nsec zero_rmtp =
     facade E Sn_nanosleep (\<lambda>s.
       if tv_sec < 0 \<or> tv_nsec < 0 \<or> tv_nsec > 999999999 then (Ok (- 1), set_errno EINVAL s)
       else call_bind (sleep_for E Sn_nanosleep (nat tv_sec * 10 ^ 9 + nat tv_nsec))
         (\<lambda>r s. (Ok r, case zero_rmtp of None \<Rightarrow> s | Some f \<Rightarrow> f s)) s)"

section \<open>poll and select\<close>

text \<open>
  Both ask the kernel without waiting, then wait in the event loop for one, two, four, \<dots> up to
  sixteen units, until something is ready or the time is used up; the largest value means for ever.
  \<open>before\<close> is what is done between the wait and the next question.
\<close>

definition int_max :: nat where "int_max = 2 ^ 31 - 1"
definition uint_max :: nat where "uint_max = 2 ^ 32 - 1"

definition wait_millis :: "('k, 'l, 'w) sys_env \<Rightarrow> nat \<Rightarrow> ('k, 'l, 'w, unit) call" where
  "wait_millis E ms s =
     (case en_wait_event E (ms * 1000000) s of
        (Ok u, s') \<Rightarrow> (Ok (), s') | (Err e, s') \<Rightarrow> (Ok (), s') | (Panic m, s') \<Rightarrow> (Panic m, s') | (Hang, s') \<Rightarrow> (Hang, s'))"

fun ask_loop ::
  "('k, 'l, 'w) sys_env \<Rightarrow> nat \<Rightarrow> ('k, 'l, 'w, int) call \<Rightarrow> (('k, 'l, 'w) sys \<Rightarrow> ('k, 'l, 'w) sys) \<Rightarrow> nat \<Rightarrow> nat \<Rightarrow> nat
    \<Rightarrow> ('k, 'l, 'w, int) call" where
  "ask_loop E for_ever ask before 0 t x s = (Hang, s)"
| "ask_loop E for_ever ask before (Suc fuel) t x s =
     call_bind ask (\<lambda>r s.
       if r \<noteq> 0 \<or> t = 0 then (Ok r, s)
       else call_bind (wait_millis E (min t x)) (\<lambda>u s.
         ask_loop E for_ever ask before fuel
           (if t \<noteq> for_ever then t - x else t) (if x < 16 then 2 * x else x) (before s)) s) s"

definition sys_poll ::
  "('k, 'l, 'w) sys_env \<Rightarrow> nat \<Rightarrow> ('k, 'l, 'w, nat \<times> nat \<times> int) fn option \<Rightarrow> ('k, 'l, 'w, nat \<times> nat \<times> int) fn
    \<Rightarrow> nat \<Rightarrow> nat \<Rightarrow> int \<Rightarrow> ('k, 'l, 'w, int) call" where
  "sys_poll E fuel fn_ptr libc_fn fds nfds timeout =
     facade E Sn_poll (ask_loop E int_max (raw_call fn_ptr libc_fn (fds, nfds, 0)) (\<lambda>s. s) fuel
       (if timeout < 0 then int_max else nat timeout) 1)"

text \<open>
  The timeout of \<open>select\<close> is a number of microseconds, at 32 bits and saturating; \<open>save\<close> and \<open>restore\<close> are the
  copies of the descriptor sets taken at the start and written back after each wait.
\<close>

definition select_units :: "(int \<times> int) option \<Rightarrow> (error_kind, nat) rust" where
  "select_units timeout =
     (case timeout of
        None \<Rightarrow> Ok uint_max
      | Some (sec, usec) \<Rightarrow>
          (if sec < 0 \<or> sec > int uint_max \<or> usec < 0 \<or> usec > int uint_max then Panic ''overflow''
           else Ok (min (min (nat sec * 1000000) uint_max + nat usec) uint_max)))"

definition sys_select ::
  "('k, 'l, 'w) sys_env \<Rightarrow> nat \<Rightarrow> (('k, 'l, 'w) sys \<Rightarrow> 'sets) \<Rightarrow> ('sets \<Rightarrow> ('k, 'l, 'w) sys \<Rightarrow> ('k, 'l, 'w) sys)
    \<Rightarrow> ('k, 'l, 'w, int \<times> nat \<times> nat \<times> nat \<times> int \<times> int) fn option \<Rightarrow> ('k, 'l, 'w, int \<times> nat \<times> nat \<times> nat \<times> int \<times> int) fn
    \<Rightarrow> int \<Rightarrow> nat \<Rightarrow> nat \<Rightarrow> nat \<Rightarrow> (int \<times> int) option \<Rightarrow> ('k, 'l, 'w, int) call" where
  "sys_select E fuel save restore fn_ptr libc_fn nfds readfds writefds errorfds timeout =
     facade E Sn_select (\<lambda>s.
       case select_units timeout of
         Ok t \<Rightarrow> ask_loop E uint_max (raw_call fn_ptr libc_fn (nfds, readfds, writefds, errorfds, 0, 0))
                   (restore (save s)) fuel t 1 s
       | Err e \<Rightarrow> (Err e, s) | Panic m \<Rightarrow> (Panic m, s) | Hang \<Rightarrow> (Hang, s))"

section \<open>Sockets\<close>

text \<open>\<open>getpeername\<close> and \<open>getsockopt(SO_ERROR)\<close> as \<open>connect\<close> uses them: the answer, and the pending error.\<close>

record ('k, 'l, 'w) conn_ops =
  cn_getpeername :: "int \<Rightarrow> ('k, 'l, 'w) sys \<Rightarrow> int \<times> ('k, 'l, 'w) sys"
  cn_so_error :: "int \<Rightarrow> ('k, 'l, 'w) sys \<Rightarrow> (int \<times> int) \<times> ('k, 'l, 'w) sys"

definition EINPROGRESS :: int where "EINPROGRESS = 115"
definition EALREADY :: int where "EALREADY = 114"

fun connect_loop ::
  "('k, 'l, 'w) sys_env \<Rightarrow> ('k, 'l, 'w) conn_ops \<Rightarrow> int \<Rightarrow> u64 \<Rightarrow> nat \<Rightarrow> u64 \<Rightarrow> int \<Rightarrow> ('k, 'l, 'w, int) call" where
  "connect_loop E C fd start_time 0 left_time r s = (Hang, s)"
| "connect_loop E C fd start_time (Suc fuel) left_time r s =
     (if left_time = 0 then (Ok r, s)
      else if r = 0 then (Ok r, reset_errno s)
      else if sy_errno s = EINPROGRESS \<or> sy_errno s = EALREADY \<or> sy_errno s = EAGAIN then
        call_bind (await_io E D_write fd start_time) (\<lambda>(left_time, ok) s.
          if \<not> ok then (Ok r, s)
          else
            (let (peer, s1) = cn_getpeername C fd s;
                 ((r, err), s2) = cn_so_error C fd s1
             in if r \<noteq> 0 then (Ok (- 1), s2)
                else if err \<noteq> 0 then (Ok (- 1), set_errno err s2)
                else if peer \<noteq> 0 then connect_loop E C fd start_time fuel left_time (- 1) (set_errno EINPROGRESS s2)
                else connect_loop E C fd start_time fuel left_time r s2)) s
      else if sy_errno s \<noteq> EINTR then (Ok r, s)
      else connect_loop E C fd start_time fuel left_time r s)"

definition nio_connect ::
  "('k, 'l, 'w) sys_env \<Rightarrow> ('k, 'l, 'w) conn_ops \<Rightarrow> nat \<Rightarrow> int \<Rightarrow> ('k, 'l, 'w, int) call \<Rightarrow> ('k, 'l, 'w, int) call" where
  "nio_connect E C fuel fd inner s =
     (let blocking = is_blocking E fd s
      in call_bind (if blocking then set_non_blocking E fd else Pair (Ok ())) (\<lambda>_.
         call_bind (sys_now E) (\<lambda>start_time.
         call_bind (send_time_limit E fd) (\<lambda>left_time.
         call_bind inner (\<lambda>r.
         call_bind (connect_loop E C fd start_time fuel left_time r) (\<lambda>r s.
           call_bind (if blocking then set_blocking E fd else Pair (Ok ())) (\<lambda>_. Pair (Ok r))
             (if r = - 1 \<and> sy_errno s = ETIMEDOUT then set_errno EINPROGRESS s else s)))))) s)"

definition sys_connect ::
  "('k, 'l, 'w) sys_env \<Rightarrow> bool \<Rightarrow> ('k, 'l, 'w) ring \<Rightarrow> ('k, 'l, 'w) conn_ops \<Rightarrow> nat \<Rightarrow> ('k, 'l, 'w, int \<times> nat \<times> nat) fn option
    \<Rightarrow> ('k, 'l, 'w, int \<times> nat \<times> nat) fn \<Rightarrow> int \<Rightarrow> nat \<Rightarrow> nat \<Rightarrow> ('k, 'l, 'w, int) call" where
  "sys_connect E io R C fuel fn_ptr libc_fn fd address len =
     syscall_chain E io Sn_connect (uring_write E fd (rg_submit R) (rg_result R))
       (nio_connect E C fuel fd (raw_call fn_ptr libc_fn (fd, address, len)))"

text \<open>The answer of the event loop to a removal is ignored.\<close>

definition forget_events :: "('k, 'l, 'w) sys_env \<Rightarrow> del_kind \<Rightarrow> int \<Rightarrow> ('k, 'l, 'w, unit) call" where
  "forget_events E k fd s =
     (case en_del_event E k fd s of
        (Ok u, s') \<Rightarrow> (Ok (), s') | (Err e, s') \<Rightarrow> (Ok (), s') | (Panic m, s') \<Rightarrow> (Panic m, s') | (Hang, s') \<Rightarrow> (Hang, s'))"

definition sys_close ::
  "('k, 'l, 'w) sys_env \<Rightarrow> bool \<Rightarrow> ('k, 'l, 'w) ring \<Rightarrow> ('k, 'l, 'w, int) fn option \<Rightarrow> ('k, 'l, 'w, int) fn \<Rightarrow> int
    \<Rightarrow> ('k, 'l, 'w, int) call" where
  "sys_close E io R fn_ptr libc_fn fd =
     syscall_chain E io Sn_close (uring E (rg_submit R) (rg_result R))
       (call_bind (forget_events E Del_both fd) (\<lambda>_. raw_call fn_ptr libc_fn fd))"

definition nio_shutdown ::
  "('k, 'l, 'w) sys_env \<Rightarrow> ('k, 'l, 'w, int) call \<Rightarrow> int \<Rightarrow> int \<Rightarrow> ('k, 'l, 'w, int) call" where
  "nio_shutdown E inner fd how s =
     (if how = 0 then call_bind (forget_events E Del_read fd) (\<lambda>_. inner) s
      else if how = 1 then call_bind (forget_events E Del_write fd) (\<lambda>_. inner) s
      else if how = 2 then call_bind (forget_events E Del_both fd) (\<lambda>_. inner) s
      else (Ok (- 1), set_errno EINVAL s))"

definition sys_shutdown ::
  "('k, 'l, 'w) sys_env \<Rightarrow> bool \<Rightarrow> ('k, 'l, 'w) ring \<Rightarrow> ('k, 'l, 'w, int \<times> int) fn option \<Rightarrow> ('k, 'l, 'w, int \<times> int) fn
    \<Rightarrow> int \<Rightarrow> int \<Rightarrow> ('k, 'l, 'w, int) call" where
  "sys_shutdown E io R fn_ptr libc_fn fd how =
     syscall_chain E io Sn_shutdown (uring E (rg_submit R) (rg_result R))
       (nio_shutdown E (raw_call fn_ptr libc_fn (fd, how)) fd how)"

definition SOL_SOCKET :: int where "SOL_SOCKET = 1"
definition SO_RCVTIMEO :: int where "SO_RCVTIMEO = 20"
definition SO_SNDTIMEO :: int where "SO_SNDTIMEO = 21"

text \<open>\<open>value\<close> is the \<open>timeval\<close> behind the pointer. \<open>DashMap::insert\<close> has replaced the entry when the assertion looks.\<close>

definition nio_setsockopt ::
  "('k, 'l, 'w, int) call \<Rightarrow> int \<Rightarrow> int \<Rightarrow> int \<Rightarrow> int \<times> int \<Rightarrow> ('k, 'l, 'w, int) call" where
  "nio_setsockopt inner socket level name val =
     call_bind inner (\<lambda>r s.
       if r = 0 \<and> level = SOL_SOCKET \<and> (name = SO_SNDTIMEO \<or> name = SO_RCVTIMEO) then
         (case get_time_limit val of
            Ok l \<Rightarrow>
              (if name = SO_SNDTIMEO
               then (if map_of (sy_send_limit s) socket = None then Ok r else Panic ''assertion failed'',
                     s\<lparr>sy_send_limit := AList.update socket l (sy_send_limit s)\<rparr>)
               else (if map_of (sy_recv_limit s) socket = None then Ok r else Panic ''assertion failed'',
                     s\<lparr>sy_recv_limit := AList.update socket l (sy_recv_limit s)\<rparr>))
          | Err e \<Rightarrow> (Err e, s) | Panic m \<Rightarrow> (Panic m, s) | Hang \<Rightarrow> (Hang, s))
       else (Ok r, s))"

definition sys_setsockopt ::
  "('k, 'l, 'w) sys_env \<Rightarrow> ('k, 'l, 'w, int \<times> int \<times> int \<times> (int \<times> int) \<times> nat) fn option
    \<Rightarrow> ('k, 'l, 'w, int \<times> int \<times> int \<times> (int \<times> int) \<times> nat) fn \<Rightarrow> int \<Rightarrow> int \<Rightarrow> int \<Rightarrow> int \<times> int \<Rightarrow> nat \<Rightarrow> ('k, 'l, 'w, int) call" where
  "sys_setsockopt E fn_ptr libc_fn socket level name val option_len =
     facade E Sn_setsockopt
       (nio_setsockopt (raw_call fn_ptr libc_fn (socket, level, name, val, option_len)) socket level name val)"

section \<open>Messages\<close>

text \<open>
  The scatter-gather part of a message header: the array of iovecs and the count \<open>msg_iovlen\<close> that goes with it.
  The count is that of the caller's array, whatever part of the array is passed. Two more differences to the
  loops over plain vectors: the offset is computed from the end of the current iovec, and a failed wait answers
  the last result.
\<close>

type_synonym msg_iov = "iovec list \<times> nat"

fun msg_while ::
  "('k, 'l, 'w) sys_env \<Rightarrow> io_dir \<Rightarrow> int \<Rightarrow> (msg_iov \<Rightarrow> ('k, 'l, 'w, int) call) \<Rightarrow> u64 \<Rightarrow> nat \<Rightarrow> nat \<Rightarrow> nat
    \<Rightarrow> iovec list \<Rightarrow> nat \<Rightarrow> nat \<Rightarrow> u64 \<Rightarrow> int \<Rightarrow> ('k, 'l, 'w, int + nat \<times> u64 \<times> int) call" where
  "msg_while E dir fd inner start_time msg_iovlen len 0 iov offset sofar left_time r s = (Hang, s)"
| "msg_while E dir fd inner start_time msg_iovlen len (Suc fuel) iov offset sofar left_time r s =
     (if \<not> (sofar < len \<and> left_time > 0) then (Ok (Inr (sofar, left_time, r)), s)
      else (let iov = (if offset \<noteq> 0 then iov_shift offset iov else iov)
            in call_bind (inner (iov, msg_iovlen)) (\<lambda>r s.
              let retry = (\<lambda>sofar offset. io_retry E dir fd start_time
                    (\<lambda>left_time. msg_while E dir fd inner start_time msg_iovlen len fuel iov offset sofar left_time r)
                    left_time (Inl r) (Inl r))
              in if dir = D_read \<and> r = 0 then (Ok (Inl r), s)
                 else if r = -1 then retry sofar offset s
                 else if r < 0 then (Panic ''r overflow'', reset_errno s)
                 else if sofar + nat r \<ge> len
                 then (Ok (Inr (sofar + nat r, left_time, int (sofar + nat r))), reset_errno s)
                 else retry (sofar + nat r) (sofar + nat r - len) (reset_errno s)) s))"

fun msg_for ::
  "('k, 'l, 'w) sys_env \<Rightarrow> io_dir \<Rightarrow> int \<Rightarrow> (msg_iov \<Rightarrow> ('k, 'l, 'w, int) call) \<Rightarrow> u64 \<Rightarrow> nat \<Rightarrow> iovec list
    \<Rightarrow> iovec list \<Rightarrow> nat \<Rightarrow> nat \<Rightarrow> nat \<Rightarrow> u64 \<Rightarrow> int \<Rightarrow> ('k, 'l, 'w, int) call" where
  "msg_for E dir fd inner start_time fuel vec [] len sofar index left_time r s = (Ok r, s)"
| "msg_for E dir fd inner start_time fuel vec (iov # rest) len sofar index left_time r s =
     (let offset = sofar - len;
          len = len + snd iov
      in if sofar > len then msg_for E dir fd inner start_time fuel vec rest len sofar (index + 1) left_time r s
         else call_bind
           (msg_while E dir fd inner start_time (length vec) len fuel (drop index vec) offset sofar left_time r)
           (\<lambda>res. case res of
              Inl r \<Rightarrow> Pair (Ok r)
            | Inr (sofar, left_time, r) \<Rightarrow>
                msg_for E dir fd inner start_time fuel vec rest len sofar
                  (if sofar \<ge> len then index + 1 else index) left_time r) s)"

definition nio_msg ::
  "('k, 'l, 'w) sys_env \<Rightarrow> io_dir \<Rightarrow> nat \<Rightarrow> int \<Rightarrow> (msg_iov \<Rightarrow> ('k, 'l, 'w, int) call) \<Rightarrow> iovec list
    \<Rightarrow> ('k, 'l, 'w, int) call" where
  "nio_msg E dir fuel fd inner vec s =
     (let blocking = is_blocking E fd s
      in call_bind (if blocking then set_non_blocking E fd else Pair (Ok ())) (\<lambda>_.
         call_bind (sys_now E) (\<lambda>start_time.
         call_bind (time_limit E dir fd) (\<lambda>left_time.
         call_bind (msg_for E dir fd inner start_time fuel vec vec 0 0 0 left_time 0) (\<lambda>r.
         call_bind (if blocking then set_blocking E fd else Pair (Ok ())) (\<lambda>_. Pair (Ok r)))))) s)"

definition sys_sendmsg ::
  "('k, 'l, 'w) sys_env \<Rightarrow> bool \<Rightarrow> ('k, 'l, 'w) ring \<Rightarrow> nat \<Rightarrow> ('k, 'l, 'w, int \<times> msg_iov \<times> int) fn option
    \<Rightarrow> ('k, 'l, 'w, int \<times> msg_iov \<times> int) fn \<Rightarrow> int \<Rightarrow> iovec list \<Rightarrow> int \<Rightarrow> ('k, 'l, 'w, int) call" where
  "sys_sendmsg E io R fuel fn_ptr libc_fn fd iov flags =
     syscall_chain E io Sn_sendmsg (uring_write E fd (rg_submit R) (rg_result R))
       (nio_msg E D_write fuel fd (\<lambda>m. raw_call fn_ptr libc_fn (fd, m, flags)) iov)"

definition sys_recvmsg ::
  "('k, 'l, 'w) sys_env \<Rightarrow> bool \<Rightarrow> ('k, 'l, 'w) ring \<Rightarrow> nat \<Rightarrow> ('k, 'l, 'w, int \<times> msg_iov \<times> int) fn option
    \<Rightarrow> ('k, 'l, 'w, int \<times> msg_iov \<times> int) fn \<Rightarrow> int \<Rightarrow> iovec list \<Rightarrow> int \<Rightarrow> ('k, 'l, 'w, int) call" where
  "sys_recvmsg E io R fuel fn_ptr libc_fn fd iov flags =
     syscall_chain E io Sn_recvmsg (uring_read E fd (rg_submit R) (rg_result R))
       (nio_msg E D_read fuel fd (\<lambda>m. raw_call fn_ptr libc_fn (fd, m, flags)) iov)"

section \<open>Mutexes and condition variables\<close>

definition EBUSY :: int where "EBUSY = 16"

fun mutex_lock_loop :: "('k, 'l, 'w) sys_env \<Rightarrow> ('k, 'l, 'w, int) call \<Rightarrow> nat \<Rightarrow> ('k, 'l, 'w, int) call" where
  "mutex_lock_loop E trylock 0 s = (Hang, s)"
| "mutex_lock_loop E trylock (Suc fuel) s =
     call_bind trylock (\<lambda>r s.
       if r = 0 \<or> r \<noteq> EBUSY then (Ok r, s)
       else case en_wait_event E SLICE s of
         (Ok u, s') \<Rightarrow> mutex_lock_loop E trylock fuel s'
       | (Err e, s') \<Rightarrow> (Ok r, s')
       | (Panic m, s') \<Rightarrow> (Panic m, s')
       | (Hang, s') \<Rightarrow> (Hang, s')) s"

definition sys_pthread_mutex_lock ::
  "('k, 'l, 'w) sys_env \<Rightarrow> nat \<Rightarrow> ('k, 'l, 'w, nat) fn \<Rightarrow> ('k, 'l, 'w, nat) fn option \<Rightarrow> ('k, 'l, 'w, nat) fn \<Rightarrow> nat
    \<Rightarrow> ('k, 'l, 'w, int) call" where
  "sys_pthread_mutex_lock E fuel trylock fn_ptr libc_fn lock =
     facade E Sn_pthread_mutex_lock (\<lambda>s.
       if sy_co s = None then raw_call fn_ptr libc_fn lock s else mutex_lock_loop E (trylock lock) fuel s)"

text \<open>The raw wait gets an absolute time, here in nanoseconds; \<open>monitor\<close> tells whether the caller is the monitor thread.\<close>

definition cond_slice :: "u64 \<Rightarrow> u64" where
  "cond_slice left_time = (if left_time > 10000000 then 10000000 else left_time)"

fun cond_wait_loop ::
  "('k, 'l, 'w) sys_env \<Rightarrow> (u64 \<Rightarrow> ('k, 'l, 'w, int) call) \<Rightarrow> u64 \<Rightarrow> nat \<Rightarrow> ('k, 'l, 'w, int) call" where
  "cond_wait_loop E inner abstimeout 0 s = (Hang, s)"
| "cond_wait_loop E inner abstimeout (Suc fuel) s =
     call_bind (sys_now E) (\<lambda>t0.
       let left_time = sat_sub abstimeout t0
       in if left_time = 0 then Pair (Ok ETIMEDOUT)
          else call_bind (sys_now E) (\<lambda>t1.
            call_bind (inner (sat_add t1 (cond_slice left_time))) (\<lambda>r.
              if r \<noteq> ETIMEDOUT then Pair (Ok r)
              else call_bind (sys_now E) (\<lambda>t2.
                let left_time = sat_sub abstimeout t2
                in if left_time = 0 then Pair (Ok ETIMEDOUT)
                   else (\<lambda>s. case en_wait_event E (unat (cond_slice left_time)) s of
                      (Ok u, s') \<Rightarrow> cond_wait_loop E inner abstimeout fuel s'
                    | (Err e, s') \<Rightarrow> (Ok r, s')
                    | (Panic m, s') \<Rightarrow> (Panic m, s')
                    | (Hang, s') \<Rightarrow> (Hang, s')))))) s"

definition abs_timeout :: "(int \<times> int) option \<Rightarrow> u64 option" where
  "abs_timeout abstime =
     (case abstime of
        None \<Rightarrow> Some u64_max
      | Some (sec, nsec) \<Rightarrow>
          (if sec < 0 \<or> nsec < 0 \<or> nsec > 999999999 then None
           else Some (case u64_try_from (nat sec * 10 ^ 9 + nat nsec) of None \<Rightarrow> u64_max | Some v \<Rightarrow> v)))"

definition sys_pthread_cond_timedwait ::
  "('k, 'l, 'w) sys_env \<Rightarrow> bool \<Rightarrow> nat \<Rightarrow> ('k, 'l, 'w, nat \<times> nat \<times> (int \<times> int) option) fn option
    \<Rightarrow> ('k, 'l, 'w, nat \<times> nat \<times> (int \<times> int) option) fn \<Rightarrow> nat \<Rightarrow> nat \<Rightarrow> (int \<times> int) option \<Rightarrow> ('k, 'l, 'w, int) call" where
  "sys_pthread_cond_timedwait E monitor fuel fn_ptr libc_fn cond lock abstime =
     facade E Sn_pthread_cond_timedwait (\<lambda>s.
       if monitor then raw_call fn_ptr libc_fn (cond, lock, abstime) s
       else case abs_timeout abstime of
         None \<Rightarrow> (Ok EINVAL, s)
       | Some t \<Rightarrow>
           cond_wait_loop E (\<lambda>next_timeout. raw_call fn_ptr libc_fn (cond, lock,
             Some (uint next_timeout div 10 ^ 9, uint next_timeout mod 10 ^ 9))) t fuel s)"

section \<open>Facts\<close>

text \<open>The slices of \<open>poll\<close> and \<open>select\<close> add up to the time they were given, and the loop ends with it.\<close>

lemma ask_loop_waits:
  assumes ask: "\<And>s. ask s = (Ok 0, s)" and before: "\<And>s. waited (before s) = (waited s :: nat)"
    and wait: "\<And>d s. \<exists>s'. en_wait_event E d s = (Ok (), s') \<and> waited s' = waited s + d"
  shows "t < fuel \<Longrightarrow> 0 < x \<Longrightarrow> t < for_ever \<Longrightarrow>
    \<exists>s'. ask_loop E for_ever ask before fuel t x s = (Ok 0, s') \<and> waited s' = waited s + t * 1000000"
proof (induction fuel arbitrary: t x s)
  case (Suc fuel)
  show ?case
  proof (cases "t = 0")
    case True
    then show ?thesis by (simp add: call_bind_def ask)
  next
    case False
    obtain s1 where w: "en_wait_event E (min t x * 1000000) s = (Ok (), s1)" "waited s1 = waited s + min t x * 1000000"
      using wait by blast
    have "t - x < fuel" "t - x < for_ever" "0 < (if x < 16 then 2 * x else x)" using Suc.prems False by auto
    from Suc.IH [OF this(1,3,2), of "before s1"] obtain s' where
      s': "ask_loop E for_ever ask before fuel (t - x) (if x < 16 then 2 * x else x) (before s1) = (Ok 0, s')"
        "waited s' = waited s1 + (t - x) * 1000000" using before by auto
    have "ask_loop E for_ever ask before (Suc fuel) t x s = (Ok 0, s')"
      using s'(1) w(1) False Suc.prems(3) by (simp add: call_bind_def ask wait_millis_def)
    moreover have "min t x + (t - x) = t" by simp
    then have "waited s' = waited s + t * 1000000"
      using s'(2) w(2) by (simp flip: distrib_right)
    ultimately show ?thesis by blast
  qed
qed simp

lemma facade_Ok: "inner (cur_syscall E n Ss_Executing s) = (Ok r, s1) \<Longrightarrow> facade E n inner s = (Ok r, cur_running E s1)"
  by (simp add: facade_def)

text \<open>What \<open>connect\<close> knows when it answers zero.\<close>

lemma connect_loop_sound:
  "connect_loop E C fd t fuel l r s = (Ok 0, s') \<Longrightarrow> r = 0 \<or>
     (\<exists>s1. fst (cn_getpeername C fd s1) = 0 \<and> fst (cn_so_error C fd (snd (cn_getpeername C fd s1))) = (0, 0))"
proof (induction fuel arbitrary: l r s)
  case (Suc fuel)
  let ?P = "\<exists>s1. fst (cn_getpeername C fd s1) = 0 \<and> fst (cn_so_error C fd (snd (cn_getpeername C fd s1))) = (0, 0)"
  show ?case
  proof (cases "r = 0 \<or> l = 0")
    case True
    with Suc.prems show ?thesis by auto
  next
    case False
    show ?thesis
    proof (cases "sy_errno s = EINPROGRESS \<or> sy_errno s = EALREADY \<or> sy_errno s = EAGAIN")
      case True
      then obtain l' ok s1 where aw: "await_io E D_write fd t s = (Ok (l', ok), s1)"
        and k: "(if \<not> ok then (Ok r, s1)
          else let (peer, s2) = cn_getpeername C fd s1; ((r, err), s3) = cn_so_error C fd s2
             in if r \<noteq> 0 then (Ok (- 1), s3)
                else if err \<noteq> 0 then (Ok (- 1), set_errno err s3)
                else if peer \<noteq> 0 then connect_loop E C fd t fuel l' (- 1) (set_errno EINPROGRESS s3)
                else connect_loop E C fd t fuel l' r s3) = (Ok 0, s')"
        using Suc.prems False by (auto simp: call_bind_Ok)
      obtain peer s2 where p: "cn_getpeername C fd s1 = (peer, s2)" by fastforce
      obtain r' err s3 where e: "cn_so_error C fd s2 = ((r', err), s3)" by (metis prod_cases3 prod.collapse)
      show ?thesis
      proof (cases "ok \<and> r' = 0 \<and> err = 0 \<and> peer = 0")
        case True
        then have ?P using p e by (intro exI [of _ s1]) simp
        then show ?thesis ..
      next
        case False2: False
        with k p e False have "connect_loop E C fd t fuel l' (- 1) (set_errno EINPROGRESS s3) = (Ok 0, s')"
          by (auto split: if_splits)
        from Suc.IH [OF this] show ?thesis by simp
      qed
    next
      case errno: False
      with Suc.prems False have "connect_loop E C fd t fuel l r s = (Ok 0, s')"
        by (auto split: if_splits)
      then show ?thesis by (rule Suc.IH)
    qed
  qed
qed simp

section \<open>A kernel that is never ready\<close>

text \<open>It answers zero to every question, and every wait takes the time it is given.\<close>

definition idle_env :: "(unit, unit, kern) sys_env" where
  "idle_env = kern_env\<lparr>en_wait_event := (\<lambda>d s. (Ok (), s\<lparr>sy_reads := sy_reads s + d\<rparr>))\<rparr>"

lemma idle_env_laws:
  "\<exists>s'. en_wait_event idle_env d s = (Ok (), s') \<and> sy_reads s' = sy_reads s + d"
  "sy_reads (cur_syscall idle_env n st s) = sy_reads s" "sy_reads (cur_running idle_env s) = sy_reads s"
  by (auto simp: idle_env_def cur_syscall_def cur_running_def split: option.splits prod.splits)

text \<open>Scripted raw calls that log their arguments, for the messages.\<close>

definition kern_sendmsg :: "int \<times> msg_iov \<times> int \<Rightarrow> (unit, unit, kern, int) call" where
  "kern_sendmsg arg s =
     (case kern_next (sy_world s) of (r, w) \<Rightarrow>
        (Ok r, on_world (\<lambda>_. w\<lparr>kn_calls := kn_calls w @ [fst (fst (snd arg)) @ [(0, snd (fst (snd arg)))]]\<rparr>) s))"

section \<open>Properties\<close>

text \<open>
  C25. \<open>poll\<close> on descriptors that never become ready returns, answers zero, and has waited exactly its
  timeout: the slices of 1, 2, 4, 8, 16, 16, \<dots> milliseconds add up to it, for every non-negative timeout
  below the largest \<open>c_int\<close>.
\<close>

theorem poll_waits_exactly:
  assumes "\<And>s. raw_call fn_ptr libc_fn (fds, nfds, 0) s = (Ok 0, s)"
    and "\<And>d s. \<exists>s'. en_wait_event E d s = (Ok (), s') \<and> waited s' = waited s + (d :: nat)"
    and "\<And>n st s. waited (cur_syscall E n st s) = waited s" and "\<And>s. waited (cur_running E s) = waited s"
    and "0 \<le> timeout" and "nat timeout < int_max" and "nat timeout < fuel"
  shows "\<exists>s'. sys_poll E fuel fn_ptr libc_fn fds nfds timeout s = (Ok 0, s')
    \<and> waited s' = waited s + nat timeout * 1000000"
proof -
  obtain s1 where loop: "ask_loop E int_max (raw_call fn_ptr libc_fn (fds, nfds, 0)) (\<lambda>s. s) fuel (nat timeout) 1
      (cur_syscall E Sn_poll Ss_Executing s) = (Ok 0, s1)"
    and w: "waited s1 = waited (cur_syscall E Sn_poll Ss_Executing s) + nat timeout * 1000000"
    using ask_loop_waits [of "raw_call fn_ptr libc_fn (fds, nfds, 0)" waited "\<lambda>s. s" E "nat timeout" fuel 1 int_max
        "cur_syscall E Sn_poll Ss_Executing s", OF assms(1) refl assms(2) assms(7) _ assms(6)]
    by auto
  have "sys_poll E fuel fn_ptr libc_fn fds nfds timeout s = (Ok 0, cur_running E s1)"
    unfolding sys_poll_def by (rule facade_Ok) (use loop assms(5) in simp)
  moreover have "waited (cur_running E s1) = waited s + nat timeout * 1000000" using w assms(3,4) by simp
  ultimately show ?thesis by blast
qed

theorem poll_waits_exactly_witness:
  "\<exists>s'. sys_poll idle_env 100 None (\<lambda>arg s. (Ok 0, s)) 0 1 30 (kern_sys []) = (Ok 0, s') \<and> sy_reads s' = 30000000"
  using poll_waits_exactly [of None "\<lambda>arg s. (Ok 0, s)" 0 1 idle_env sy_reads 30 100 "kern_sys []"] idle_env_laws
  by (simp add: raw_call_def int_max_def kern_sys_def)

text \<open>
  \<open>select\<close> waits a thousand times too long: it counts its timeout in microseconds and waits
  as many milliseconds, so that with descriptors that never become ready it returns only after a
  thousand times the time it was given.
\<close>

lemma select_waits_thousandfold:
  assumes "\<And>s. raw_call fn_ptr libc_fn (nfds, rd, wr, er, 0, 0) s = (Ok 0, s)"
    and "\<And>d s. \<exists>s'. en_wait_event E d s = (Ok (), s') \<and> waited s' = waited s + (d :: nat)"
    and "\<And>n st s. waited (cur_syscall E n st s) = waited s" and "\<And>s. waited (cur_running E s) = waited s"
    and "\<And>v s. waited (restore v s) = waited s"
    and "0 \<le> sec" and "0 \<le> usec" and "nat sec * 1000000 + nat usec < uint_max" and "nat sec * 1000000 + nat usec < fuel"
  shows "\<exists>s'. sys_select E fuel save restore fn_ptr libc_fn nfds rd wr er (Some (sec, usec)) s = (Ok 0, s')
    \<and> waited s' = waited s + 1000 * (nat sec * 1000000000 + nat usec * 1000)"
proof -
  let ?s = "cur_syscall E Sn_select Ss_Executing s" and ?t = "nat sec * 1000000 + nat usec"
  have units: "select_units (Some (sec, usec)) = Ok ?t"
    using assms(6-8) by (auto simp: select_units_def uint_max_def)
  obtain s1 where loop: "ask_loop E uint_max (raw_call fn_ptr libc_fn (nfds, rd, wr, er, 0, 0)) (restore (save ?s)) fuel ?t 1 ?s
      = (Ok 0, s1)" and w: "waited s1 = waited ?s + ?t * 1000000"
    using ask_loop_waits [of "raw_call fn_ptr libc_fn (nfds, rd, wr, er, 0, 0)" waited "restore (save ?s)" E ?t fuel 1 uint_max
        ?s, OF assms(1,5,2,9) _ assms(8)] by auto
  have "sys_select E fuel save restore fn_ptr libc_fn nfds rd wr er (Some (sec, usec)) s = (Ok 0, cur_running E s1)"
    unfolding sys_select_def by (rule facade_Ok) (use loop units in simp)
  moreover have "waited (cur_running E s1) = waited s + 1000 * (nat sec * 1000000000 + nat usec * 1000)"
    using w assms(3,4) by simp
  ultimately show ?thesis by blast
qed

lemma select_waits_thousandfold_witness:
  "\<exists>s'. sys_select idle_env 100 (\<lambda>s. ()) (\<lambda>u s. s) None (\<lambda>arg s. (Ok 0, s)) 1 0 0 0 (Some (0, 20)) (kern_sys []) = (Ok 0, s')
     \<and> sy_reads s' = 1000 * 20000"
  using select_waits_thousandfold [of None "\<lambda>arg s. (Ok 0, s)" 1 0 0 0 idle_env sy_reads "\<lambda>u s. s" 0 20 100 "\<lambda>s. ()" "kern_sys []"]
    idle_env_laws
  by (simp add: raw_call_def uint_max_def kern_sys_def)


definition kern_conn :: "(unit, unit, kern) conn_ops" where
  "kern_conn = \<lparr>cn_getpeername = (\<lambda>fd s. (if kn_script (sy_world s) = [] then 0 else - 1, s)),
     cn_so_error = (\<lambda>fd s. ((0, 0), on_world (\<lambda>w. w\<lparr>kn_script := tl (kn_script w)\<rparr>) s))\<rparr>"


text \<open>
  Setting the receive timeout of a socket a second time panics, even though the kernel accepted it: the table
  of limits already has an entry, which the first call made. The first limit is the one later reads use.
\<close>

lemma setsockopt_twice_panics:
  assumes "\<And>s. \<exists>s'. inner s = (Ok 0, s') \<and> sy_recv_limit s' = sy_recv_limit s"
    and "map_of (sy_recv_limit s) fd = None" and "get_time_limit val = Ok l" and "get_time_limit val' = Ok l'"
  shows "\<exists>s1 s2. nio_setsockopt inner fd SOL_SOCKET SO_RCVTIMEO val s = (Ok 0, s1) \<and> recv_time_limit E fd s1 = (Ok l, s1)
    \<and> nio_setsockopt inner fd SOL_SOCKET SO_RCVTIMEO val' s1 = (Panic ''assertion failed'', s2)"
proof -
  obtain s0 where s0: "inner s = (Ok 0, s0)" "sy_recv_limit s0 = sy_recv_limit s" using assms(1) by blast
  define s1 where "s1 = s0\<lparr>sy_recv_limit := AList.update fd l (sy_recv_limit s0)\<rparr>"
  obtain s2 where s2: "inner s1 = (Ok 0, s2)" "sy_recv_limit s2 = sy_recv_limit s1" using assms(1) by blast
  have "nio_setsockopt inner fd SOL_SOCKET SO_RCVTIMEO val s = (Ok 0, s1)"
    using s0 assms(2,3) by (simp add: nio_setsockopt_def call_bind_def SO_RCVTIMEO_def SO_SNDTIMEO_def s1_def)
  moreover have lim: "map_of (sy_recv_limit s1) fd = Some l" by (simp add: s1_def AList.update_conv')
  moreover from lim have "recv_time_limit E fd s1 = (Ok l, s1)" by (simp add: recv_time_limit_def)
  ultimately show ?thesis
    using s2 assms(4) by (simp add: nio_setsockopt_def call_bind_def SO_RCVTIMEO_def SO_SNDTIMEO_def)
qed

lemma setsockopt_twice_panics_witness:
  "\<exists>s1 s2. nio_setsockopt (Pair (Ok 0)) 3 SOL_SOCKET SO_RCVTIMEO (1, 0) (kern_sys []) = (Ok 0, s1)
     \<and> nio_setsockopt (Pair (Ok 0)) 3 SOL_SOCKET SO_RCVTIMEO (2, 0) s1 = (Panic ''assertion failed'', s2)"
proof -
  have "get_time_limit (1, 0) = Ok 1000000000" "get_time_limit (2, 0) = Ok 2000000000" by code_simp+
  with setsockopt_twice_panics [of "Pair (Ok 0)" "kern_sys []" 3 "(1, 0)" _ "(2, 0)" _ kern_env] show ?thesis
    by (fastforce simp: kern_sys_def)
qed

text \<open>
  A message of two buffers, of which the first was sent: the second round passes one buffer and says
  that there are two (the last entry of each logged call is the count).
\<close>

lemma sendmsg_overclaims:
  "kn_calls (sy_world (snd (nio_msg kern_env D_write 5 3 (\<lambda>m. kern_sendmsg (3, m, 0)) [(1000, 4), (2000, 4)] (kern_sys [4, 4]))))
     = [[(1000, 4), (2000, 4), (0, 2)], [(2000, 4), (0, 2)]]"
  by code_simp

end
