(* ===== verification/OC_Win.thy ===== *)
theory OC_Win
  imports OC_Unix_Calls
begin

text \<open>
  \<^verbatim>\<open>core/src/syscall/windows/mod.rs\<close>: the layers of the hooked calls on Windows. They differ from those of \<open>OC_Nio\<close>:
  WinSock has no way to ask whether a socket blocks, so the library keeps a table of the sockets it made non-blocking;
  time limits are milliseconds; the facade saves the last error, because what it does after the call overwrites it; vector
  calls report the count behind a pointer. The calls run on the state \<open>sys\<close>, whose world carries the table.
\<close>

section \<open>State and environment\<close>

record 'v win_world =
  ww_os :: 'v
  ww_non_blocking :: "int set"

type_synonym ('k, 'l, 'v, 'a) wcall = "('k, 'l, 'v win_world, 'a) call"

text \<open>
  \<open>wn_env\<close> has the clock, the listeners and the event loop; \<open>wn_fionbio\<close> is \<open>ioctlsocket(FIONBIO)\<close>
  with its success and the last error it leaves, \<open>wn_timeo\<close> asks for the
  timeout of a direction and answers an error number or milliseconds; \<open>wn_log\<close> is the last error that logging and the
  coroutine's bookkeeping leave behind.
\<close>

record ('k, 'l, 'v) win_env =
  wn_env :: "('k, 'l, 'v win_world) sys_env"
  wn_fionbio :: "int \<Rightarrow> bool \<Rightarrow> 'v \<Rightarrow> bool \<times> int \<times> 'v"
  wn_timeo :: "io_dir \<Rightarrow> int \<Rightarrow> 'v \<Rightarrow> int + int"
  wn_log :: "('k, 'l, 'v win_world) sys \<Rightarrow> int"

definition WSAEINTR :: int where "WSAEINTR = 10004"
definition WSAEINVAL :: int where "WSAEINVAL = 10022"
definition WSAEWOULDBLOCK :: int where "WSAEWOULDBLOCK = 10035"
definition WSAEINPROGRESS :: int where "WSAEINPROGRESS = 10036"
definition WSAEALREADY :: int where "WSAEALREADY = 10037"
definition WSAENOTSOCK :: int where "WSAENOTSOCK = 10038"
definition WSAETIMEDOUT :: int where "WSAETIMEDOUT = 10060"
definition ERROR_TIMEOUT :: int where "ERROR_TIMEOUT = 1460"
definition SOCKET_ERROR :: int where "SOCKET_ERROR = - 1"
definition INVALID_SOCKET :: int where "INVALID_SOCKET = 2 ^ 64 - 1"

text \<open>The kinds the loops distinguish; the standard library reports no error of Windows as an interruption.\<close>

definition win_kind_of :: "int \<Rightarrow> error_kind" where
  "win_kind_of e = (if e = WSAEWOULDBLOCK then EK_WouldBlock else EK_Other)"

section \<open>The table of non-blocking sockets\<close>

definition win_is_non_blocking :: "int \<Rightarrow> ('k, 'l, 'v win_world) sys \<Rightarrow> bool" where
  "win_is_non_blocking fd s \<longleftrightarrow> fd \<in> ww_non_blocking (sy_world s)"

definition win_is_blocking :: "int \<Rightarrow> ('k, 'l, 'v win_world) sys \<Rightarrow> bool" where
  "win_is_blocking fd s \<longleftrightarrow> \<not> win_is_non_blocking fd s"

definition win_set_non_blocking_flag ::
  "('k, 'l, 'v) win_env \<Rightarrow> int \<Rightarrow> bool \<Rightarrow> ('k, 'l, 'v win_world) sys \<Rightarrow> bool \<times> ('k, 'l, 'v win_world) sys" where
  "win_set_non_blocking_flag W fd on s =
     (if win_is_non_blocking fd s = on then (True, s)
      else case wn_fionbio W fd on (ww_os (sy_world s)) of
        (ok, e, v) \<Rightarrow>
          (ok, on_world (\<lambda>w. w\<lparr>ww_os := v, ww_non_blocking :=
             (if ok then (if on then insert fd (ww_non_blocking w) else ww_non_blocking w - {fd})
              else ww_non_blocking w)\<rparr>) (set_errno e s)))"

definition win_set_non_blocking :: "('k, 'l, 'v) win_env \<Rightarrow> int \<Rightarrow> ('k, 'l, 'v, unit) wcall" where
  "win_set_non_blocking W fd s =
     (case win_set_non_blocking_flag W fd True s of
        (ok, s') \<Rightarrow> (if ok then Ok () else Panic ''set_non_blocking failed !'', s'))"

definition win_set_blocking :: "('k, 'l, 'v) win_env \<Rightarrow> int \<Rightarrow> ('k, 'l, 'v, unit) wcall" where
  "win_set_blocking W fd s =
     (case win_set_non_blocking_flag W fd False s of
        (ok, s') \<Rightarrow> (if ok then Ok () else Panic ''set_blocking failed !'', s'))"

section \<open>Time limits\<close>

definition millis_limit :: "int \<Rightarrow> (error_kind, u64) rust" where
  "millis_limit ms =
     (if ms < 0 then Panic ''overflow''
      else (let time_limit = sat_mul (of_int ms) 1000000 in Ok (if time_limit = 0 then u64_max else time_limit)))"

text \<open>The limit of a descriptor that is no socket is remembered for sending only.\<close>

definition win_send_time_limit :: "('k, 'l, 'v) win_env \<Rightarrow> int \<Rightarrow> ('k, 'l, 'v, u64) wcall" where
  "win_send_time_limit W fd s =
     (case map_of (sy_send_limit s) fd of
        Some v \<Rightarrow> (Ok v, s)
      | None \<Rightarrow>
          (case wn_timeo W D_write fd (ww_os (sy_world s)) of
             Inl e \<Rightarrow>
               (if e = WSAENOTSOCK
                then (Ok u64_max, (set_errno e s)\<lparr>sy_send_limit := AList.update fd u64_max (sy_send_limit s)\<rparr>)
                else (Panic ''getsockopt failed'', set_errno e s))
           | Inr ms \<Rightarrow>
               (case millis_limit ms of
                  Ok l \<Rightarrow> (Ok l, s\<lparr>sy_send_limit := AList.update fd l (sy_send_limit s)\<rparr>)
                | r \<Rightarrow> (r, s))))"

definition win_recv_time_limit :: "('k, 'l, 'v) win_env \<Rightarrow> int \<Rightarrow> ('k, 'l, 'v, u64) wcall" where
  "win_recv_time_limit W fd s =
     (case map_of (sy_recv_limit s) fd of
        Some v \<Rightarrow> (Ok v, s)
      | None \<Rightarrow>
          (case wn_timeo W D_read fd (ww_os (sy_world s)) of
             Inl e \<Rightarrow> (if e = WSAENOTSOCK then Ok u64_max else Panic ''getsockopt failed'', set_errno e s)
           | Inr ms \<Rightarrow>
               (case millis_limit ms of
                  Ok l \<Rightarrow> (Ok l, s\<lparr>sy_recv_limit := AList.update fd l (sy_recv_limit s)\<rparr>)
                | r \<Rightarrow> (r, s))))"

definition win_time_limit :: "('k, 'l, 'v) win_env \<Rightarrow> io_dir \<Rightarrow> int \<Rightarrow> ('k, 'l, 'v, u64) wcall" where
  "win_time_limit W dir = (case dir of D_read \<Rightarrow> win_recv_time_limit W | D_write \<Rightarrow> win_send_time_limit W)"

section \<open>raw and facade\<close>

definition win_raw :: "('a \<Rightarrow> ('k, 'l, 'v, 'b) wcall) option \<Rightarrow> ('a \<Rightarrow> ('k, 'l, 'v, 'b) wcall) \<Rightarrow> 'a \<Rightarrow> ('k, 'l, 'v, 'b) wcall" where
  "win_raw fn_ptr win_fn arg = (case fn_ptr of Some f \<Rightarrow> f arg | None \<Rightarrow> win_fn arg)"

text \<open>\<open>last_os_error\<close> reads the error as an \<^verbatim>\<open>i32\<close>; it is written back as a \<^verbatim>\<open>u32\<close>, a negative one as zero.\<close>

definition saved_errno :: "int \<Rightarrow> int" where
  "saved_errno e = (if 0 \<le> e \<and> e < 2 ^ 31 then e else 0)"

definition win_log :: "('k, 'l, 'v) win_env \<Rightarrow> ('k, 'l, 'v win_world) sys \<Rightarrow> ('k, 'l, 'v win_world) sys" where
  "win_log W s = set_errno (wn_log W s) s"

definition win_facade :: "('k, 'l, 'v) win_env \<Rightarrow> syscall_name \<Rightarrow> ('k, 'l, 'v, 'a) wcall \<Rightarrow> ('k, 'l, 'v, 'a) wcall" where
  "win_facade W n inner s =
     (case inner (cur_syscall (wn_env W) n Ss_Executing (win_log W s)) of
        (Ok r, s1) \<Rightarrow> (Ok r, set_errno (saved_errno (sy_errno s1)) (win_log W (cur_running (wn_env W) s1)))
      | rs \<Rightarrow> rs)"

section \<open>nio\<close>

text \<open>The event loop takes descriptors of 32 bits.\<close>

definition win_wait :: "('k, 'l, 'v) win_env \<Rightarrow> io_dir \<Rightarrow> int \<Rightarrow> nat \<Rightarrow> ('k, 'l, 'v, unit) wcall" where
  "win_wait W dir fd d s = (if fd < 2 ^ 31 then wait_io (wn_env W) dir fd d s else (Panic ''overflow'', s))"

definition win_await :: "('k, 'l, 'v) win_env \<Rightarrow> io_dir \<Rightarrow> int \<Rightarrow> u64 \<Rightarrow> ('k, 'l, 'v, u64 \<times> bool) wcall" where
  "win_await W dir fd start_time =
     call_bind (win_time_limit W dir fd) (\<lambda>limit. call_bind (sys_now (wn_env W)) (\<lambda>t s.
       (let left_time = sat_sub (sat_add start_time limit) t
        in case win_wait W dir fd (min (unat left_time) SLICE) s of
             (Ok u, s') \<Rightarrow> (Ok (left_time, True), s')
           | (Err e, s') \<Rightarrow> (Ok (left_time, False), s')
           | (Panic m, s') \<Rightarrow> (Panic m, s')
           | (Hang, s') \<Rightarrow> (Hang, s'))))"

definition win_retry ::
  "('k, 'l, 'v) win_env \<Rightarrow> io_dir \<Rightarrow> int \<Rightarrow> u64 \<Rightarrow> (u64 \<Rightarrow> ('k, 'l, 'v, 'a) wcall) \<Rightarrow> u64 \<Rightarrow> (error_kind, 'a) rust \<Rightarrow> 'a
    \<Rightarrow> ('k, 'l, 'v, 'a) wcall" where
  "win_retry W dir fd start_time loop left_time gave_up r s =
     (case win_kind_of (sy_errno s) of
        EK_WouldBlock \<Rightarrow> call_bind (win_await W dir fd start_time)
          (\<lambda>(left_time, ok). if ok then loop left_time else Pair gave_up) s
      | EK_Interrupted \<Rightarrow> loop left_time s
      | _ \<Rightarrow> (Ok r, s))"

text \<open>
  What surrounds each loop. The error of a failed call is kept across \<open>set_blocking\<close>; \<open>failed\<close> recognises one. The exits in
  the middle of the vector loops do the same as the one at the end.
\<close>

definition win_unblock :: "('k, 'l, 'v) win_env \<Rightarrow> bool \<Rightarrow> int \<Rightarrow> bool \<Rightarrow> 'a \<Rightarrow> ('k, 'l, 'v, 'a) wcall" where
  "win_unblock W blocking fd failed r s =
     (if \<not> blocking then (Ok r, s)
      else call_bind (win_set_blocking W fd)
        (\<lambda>u s1. (Ok r, if failed then set_errno (saved_errno (sy_errno s)) s1 else s1)) s)"

definition win_around ::
  "('k, 'l, 'v) win_env \<Rightarrow> io_dir \<Rightarrow> int \<Rightarrow> ('a \<Rightarrow> bool) \<Rightarrow> (u64 \<Rightarrow> u64 \<Rightarrow> ('k, 'l, 'v, 'a) wcall) \<Rightarrow> ('k, 'l, 'v, 'a) wcall" where
  "win_around W dir fd failed loop s =
     (let blocking = win_is_blocking fd s
      in call_bind (if blocking then win_set_non_blocking W fd else Pair (Ok ())) (\<lambda>_.
         call_bind (sys_now (wn_env W)) (\<lambda>start_time.
         call_bind (win_time_limit W dir fd) (\<lambda>left_time.
         call_bind (loop start_time left_time) (\<lambda>r. win_unblock W blocking fd (failed r) r)))) s)"

subsection \<open>\<open>impl_nio_read\<close>\<close>

fun win_read_loop ::
  "('k, 'l, 'v) win_env \<Rightarrow> int \<Rightarrow> ('k, 'l, 'v, int) wcall \<Rightarrow> u64 \<Rightarrow> nat \<Rightarrow> u64 \<Rightarrow> int \<Rightarrow> ('k, 'l, 'v, int) wcall" where
  "win_read_loop W fd inner start_time 0 left_time r s = (Hang, s)"
| "win_read_loop W fd inner start_time (Suc fuel) left_time r s =
     (if left_time = 0 then (Ok r, s)
      else call_bind inner (\<lambda>r s.
        if r \<noteq> INVALID_SOCKET then (Ok r, reset_errno s)
        else win_retry W D_read fd start_time
          (\<lambda>left_time. win_read_loop W fd inner start_time fuel left_time r) left_time (Ok r) r s) s)"

definition win_nio_read :: "('k, 'l, 'v) win_env \<Rightarrow> nat \<Rightarrow> int \<Rightarrow> ('k, 'l, 'v, int) wcall \<Rightarrow> ('k, 'l, 'v, int) wcall" where
  "win_nio_read W fuel fd inner =
     win_around W D_read fd (\<lambda>r. r = INVALID_SOCKET)
       (\<lambda>start_time left_time. win_read_loop W fd inner start_time fuel left_time INVALID_SOCKET)"

subsection \<open>\<open>impl_nio_read_buf\<close> and \<open>impl_nio_write_buf\<close>\<close>

text \<open>Lengths and counts are \<^verbatim>\<open>c_int\<close>; the sum wraps in a release build.\<close>

definition wrap_int :: "int \<Rightarrow> int" where
  "wrap_int n = sint (word_of_int n :: 32 word)"

fun win_buf_loop ::
  "('k, 'l, 'v) win_env \<Rightarrow> io_dir \<Rightarrow> int \<Rightarrow> (nat \<Rightarrow> int \<Rightarrow> ('k, 'l, 'v, int) wcall) \<Rightarrow> nat \<Rightarrow> int \<Rightarrow> u64 \<Rightarrow> nat
    \<Rightarrow> int \<Rightarrow> u64 \<Rightarrow> int \<Rightarrow> ('k, 'l, 'v, int) wcall" where
  "win_buf_loop W dir fd inner buf len start_time 0 sofar left_time r s = (Hang, s)"
| "win_buf_loop W dir fd inner buf len start_time (Suc fuel) sofar left_time r s =
     (if \<not> (sofar < len \<and> left_time > 0) then (Ok r, s)
      else if sofar < 0 then (Panic ''overflow'', s)
      else call_bind (inner (buf + nat sofar) (len - sofar)) (\<lambda>r s.
        let retry = (\<lambda>sofar. win_retry W dir fd start_time
              (\<lambda>left_time. win_buf_loop W dir fd inner buf len start_time fuel sofar left_time r)
              left_time (Ok sofar) r)
        in if r = SOCKET_ERROR then retry sofar s
           else (let sofar = wrap_int (sofar + r)
                 in if sofar \<ge> len \<or> dir = D_read \<and> r = 0 then (Ok sofar, reset_errno s)
                    else retry sofar (reset_errno s))) s)"

definition win_nio_read_buf ::
  "('k, 'l, 'v) win_env \<Rightarrow> nat \<Rightarrow> int \<Rightarrow> (nat \<Rightarrow> int \<Rightarrow> ('k, 'l, 'v, int) wcall) \<Rightarrow> nat \<Rightarrow> int \<Rightarrow> ('k, 'l, 'v, int) wcall" where
  "win_nio_read_buf W fuel fd inner buf len =
     win_around W D_read fd (\<lambda>r. r = SOCKET_ERROR)
       (\<lambda>start_time left_time. win_buf_loop W D_read fd inner buf len start_time fuel 0 left_time SOCKET_ERROR)"

definition win_nio_write_buf ::
  "('k, 'l, 'v) win_env \<Rightarrow> nat \<Rightarrow> int \<Rightarrow> (nat \<Rightarrow> int \<Rightarrow> ('k, 'l, 'v, int) wcall) \<Rightarrow> nat \<Rightarrow> int \<Rightarrow> ('k, 'l, 'v, int) wcall" where
  "win_nio_write_buf W fuel fd inner buf len =
     win_around W D_write fd (\<lambda>r. r = SOCKET_ERROR)
       (\<lambda>start_time left_time. win_buf_loop W D_write fd inner buf len start_time fuel 0 left_time SOCKET_ERROR)"

subsection \<open>\<open>impl_nio_read_iovec\<close> and \<open>impl_nio_write_iovec\<close>\<close>

text \<open>
  A buffer is its address and its length at 32 bits. A raw call answers its result and what the count pointer holds then;
  so do the loops. \<open>put_count\<close> writes the count, which has to fit.
\<close>

type_synonym wbuf = "nat \<times> nat"

definition wbuf_shift :: "nat \<Rightarrow> wbuf list \<Rightarrow> (error_kind, wbuf list) rust" where
  "wbuf_shift offset arg =
     (if offset = 0 then Ok arg
      else case arg of
        [] \<Rightarrow> Panic ''index out of bounds''
      | (base, len) # rest \<Rightarrow>
          (if offset < 2 ^ 32 then Ok (((base + offset) mod 2 ^ 64, (len + 2 ^ 32 - offset) mod 2 ^ 32) # rest)
           else Panic ''overflow''))"

definition put_count :: "nat \<Rightarrow> (nat \<Rightarrow> 'a) \<Rightarrow> (error_kind, 'a) rust" where
  "put_count n f = (if n < 2 ^ 32 then Ok (f n) else Panic ''overflow'')"

fun win_iov_while ::
  "('k, 'l, 'v) win_env \<Rightarrow> io_dir \<Rightarrow> int \<Rightarrow> (wbuf list \<Rightarrow> ('k, 'l, 'v, int \<times> nat) wcall) \<Rightarrow> u64 \<Rightarrow> nat \<Rightarrow> nat \<Rightarrow> nat
    \<Rightarrow> wbuf list \<Rightarrow> nat \<Rightarrow> nat \<Rightarrow> u64 \<Rightarrow> int \<times> nat
    \<Rightarrow> ('k, 'l, 'v, (int \<times> nat) + nat \<times> u64 \<times> (int \<times> nat)) wcall" where
  "win_iov_while W dir fd inner start_time stage len 0 arg offset sofar left_time rc s = (Hang, s)"
| "win_iov_while W dir fd inner start_time stage len (Suc fuel) arg offset sofar left_time rc s =
     (if \<not> (sofar < len \<and> left_time > 0) then (Ok (Inr (sofar, left_time, rc)), s)
      else call_bind (Pair (wbuf_shift offset arg)) (\<lambda>arg. call_bind (inner arg) (\<lambda>rc s.
        let retry = (\<lambda>sofar offset. win_retry W dir fd start_time
              (\<lambda>left_time. win_iov_while W dir fd inner start_time stage len fuel arg offset sofar left_time rc)
              left_time (put_count sofar (\<lambda>n. Inl (0, n))) (Inl rc))
        in if fst rc = SOCKET_ERROR then retry sofar offset s
           else (let sofar = sofar + snd rc
                 in if sofar \<ge> len
                    then (put_count sofar (\<lambda>n. Inr (sofar, left_time, (0, n))), reset_errno s)
                    else retry sofar (sofar - stage) (reset_errno s)))) s)"

fun win_iov_for ::
  "('k, 'l, 'v) win_env \<Rightarrow> io_dir \<Rightarrow> int \<Rightarrow> (wbuf list \<Rightarrow> ('k, 'l, 'v, int \<times> nat) wcall) \<Rightarrow> u64 \<Rightarrow> nat \<Rightarrow> wbuf list
    \<Rightarrow> wbuf list \<Rightarrow> nat \<Rightarrow> nat \<Rightarrow> nat \<Rightarrow> u64 \<Rightarrow> int \<times> nat \<Rightarrow> ('k, 'l, 'v, int \<times> nat) wcall" where
  "win_iov_for W dir fd inner start_time fuel vec [] len sofar index left_time rc s = (Ok rc, s)"
| "win_iov_for W dir fd inner start_time fuel vec (iov # rest) len sofar index left_time rc s =
     (let stage = len;
          offset = sofar - stage;
          len = len + snd iov
      in if sofar > len then win_iov_for W dir fd inner start_time fuel vec rest len sofar (index + 1) left_time rc s
         else call_bind
           (win_iov_while W dir fd inner start_time stage len fuel (drop index vec) offset sofar left_time rc)
           (\<lambda>res. case res of
              Inl rc \<Rightarrow> Pair (Ok rc)
            | Inr (sofar, left_time, rc) \<Rightarrow>
                win_iov_for W dir fd inner start_time fuel vec rest len sofar
                  (if sofar \<ge> len then index + 1 else index) left_time rc) s)"

definition win_nio_iovec ::
  "('k, 'l, 'v) win_env \<Rightarrow> io_dir \<Rightarrow> nat \<Rightarrow> int \<Rightarrow> (wbuf list \<Rightarrow> ('k, 'l, 'v, int \<times> nat) wcall) \<Rightarrow> wbuf list \<Rightarrow> nat
    \<Rightarrow> ('k, 'l, 'v, int \<times> nat) wcall" where
  "win_nio_iovec W dir fuel fd inner vec cnt =
     win_around W dir fd (\<lambda>rc. fst rc = SOCKET_ERROR)
       (\<lambda>start_time left_time. win_iov_for W dir fd inner start_time fuel vec vec 0 0 0 left_time (SOCKET_ERROR, cnt))"

definition win_nio_read_iovec ::
  "('k, 'l, 'v) win_env \<Rightarrow> nat \<Rightarrow> int \<Rightarrow> (wbuf list \<Rightarrow> ('k, 'l, 'v, int \<times> nat) wcall) \<Rightarrow> wbuf list \<Rightarrow> nat
    \<Rightarrow> ('k, 'l, 'v, int \<times> nat) wcall" where
  "win_nio_read_iovec W = win_nio_iovec W D_read"

definition win_nio_write_iovec ::
  "('k, 'l, 'v) win_env \<Rightarrow> nat \<Rightarrow> int \<Rightarrow> (wbuf list \<Rightarrow> ('k, 'l, 'v, int \<times> nat) wcall) \<Rightarrow> wbuf list \<Rightarrow> nat
    \<Rightarrow> ('k, 'l, 'v, int \<times> nat) wcall" where
  "win_nio_write_iovec W = win_nio_iovec W D_write"

section \<open>iocp\<close>

text \<open>
  The completion layers: the call is submitted, the coroutine suspended, and the result waited for. The variants differ in the
  time the suspension carries: none for \<open>impl_iocp\<close>, the time limit of the socket for reads and writes. \<open>fits\<close> is
  the range of the result type.
\<close>

definition iocp_result ::
  "(nat \<Rightarrow> ('k, 'l, 'v win_world) sys \<Rightarrow> int option \<times> ('k, 'l, 'v win_world) sys) \<Rightarrow> (int \<Rightarrow> bool) \<Rightarrow> nat
    \<Rightarrow> ('k, 'l, 'v, int) wcall" where
  "iocp_result result fits arc s =
     (case result arc s of
        (None, s1) \<Rightarrow> (Hang, s1)
      | (Some r, s1) \<Rightarrow>
          (if r < 0 \<and> \<not> - r < 2 ^ 32 then (Panic ''errno overflow'', s1)
           else (let (r2, s2) = (if r < 0 then (- 1, set_errno (- r) s1) else (r, s1))
                 in (if fits r2 then Ok r2 else Panic ''overflow'', s2))))"

definition iocp_layer ::
  "('k, 'l, 'v) win_env \<Rightarrow> ('k, 'l, 'v, u64) wcall \<Rightarrow> (('k, 'l, 'v win_world) sys \<Rightarrow> nat option \<times> ('k, 'l, 'v win_world) sys)
    \<Rightarrow> (nat \<Rightarrow> ('k, 'l, 'v, int) wcall) \<Rightarrow> ('k, 'l, 'v, int) wcall \<Rightarrow> ('k, 'l, 'v, int) wcall" where
  "iocp_layer W until submit finish inner s =
     (case submit s of
        (None, s1) \<Rightarrow> inner s1
      | (Some arc, s1) \<Rightarrow>
          call_bind
            (case cur_state s1 of
               Some (Cs_Syscall u n Ss_Executing) \<Rightarrow>
                 call_bind until (\<lambda>t s. (Ok (), cur_syscall (wn_env W) n (Ss_Suspend t) s))
             | _ \<Rightarrow> Pair (Ok ()))
            (\<lambda>u s. finish arc (cur_to (wn_env W) [Ss_Callback] Ss_Executing (cur_suspend (wn_env W) s))) s1)"

definition iocp ::
  "('k, 'l, 'v) win_env \<Rightarrow> (int \<Rightarrow> bool) \<Rightarrow> (('k, 'l, 'v win_world) sys \<Rightarrow> nat option \<times> ('k, 'l, 'v win_world) sys)
    \<Rightarrow> (nat \<Rightarrow> ('k, 'l, 'v win_world) sys \<Rightarrow> int option \<times> ('k, 'l, 'v win_world) sys)
    \<Rightarrow> ('k, 'l, 'v, int) wcall \<Rightarrow> ('k, 'l, 'v, int) wcall" where
  "iocp W fits submit result = iocp_layer W (Pair (Ok u64_max)) submit (iocp_result result fits)"

definition iocp_read ::
  "('k, 'l, 'v) win_env \<Rightarrow> (int \<Rightarrow> bool) \<Rightarrow> int \<Rightarrow> (('k, 'l, 'v win_world) sys \<Rightarrow> nat option \<times> ('k, 'l, 'v win_world) sys)
    \<Rightarrow> (nat \<Rightarrow> ('k, 'l, 'v win_world) sys \<Rightarrow> int option \<times> ('k, 'l, 'v win_world) sys)
    \<Rightarrow> ('k, 'l, 'v, int) wcall \<Rightarrow> ('k, 'l, 'v, int) wcall" where
  "iocp_read W fits fd submit result = iocp_layer W (win_recv_time_limit W fd) submit (iocp_result result fits)"

definition iocp_write ::
  "('k, 'l, 'v) win_env \<Rightarrow> (int \<Rightarrow> bool) \<Rightarrow> int \<Rightarrow> (('k, 'l, 'v win_world) sys \<Rightarrow> nat option \<times> ('k, 'l, 'v win_world) sys)
    \<Rightarrow> (nat \<Rightarrow> ('k, 'l, 'v win_world) sys \<Rightarrow> int option \<times> ('k, 'l, 'v win_world) sys)
    \<Rightarrow> ('k, 'l, 'v, int) wcall \<Rightarrow> ('k, 'l, 'v, int) wcall" where
  "iocp_write W fits fd submit result = iocp_layer W (win_send_time_limit W fd) submit (iocp_result result fits)"

text \<open>The chains of \<open>impl_syscall\<close>: facade, iocp where there is such a layer and the feature is on, nio, raw.\<close>

definition win_chain ::
  "('k, 'l, 'v) win_env \<Rightarrow> bool \<Rightarrow> syscall_name \<Rightarrow> (('k, 'l, 'v, 'a) wcall \<Rightarrow> ('k, 'l, 'v, 'a) wcall)
    \<Rightarrow> ('k, 'l, 'v, 'a) wcall \<Rightarrow> ('k, 'l, 'v, 'a) wcall" where
  "win_chain W iocp_on n port nio_call = win_facade W n (if iocp_on then port nio_call else nio_call)"


section \<open>What the loops leave alone\<close>

lemma wrap_int_small: "0 \<le> n \<Longrightarrow> n < 2 ^ 31 \<Longrightarrow> wrap_int n = n"
  by (simp add: wrap_int_def sint_sbintrunc' signed_take_bit_int_eq_self)

text \<open>The preorders of \<open>OC_Nio\<close> carry over: a relation that the fields of the call's own respect and the waits keep is kept.\<close>

locale win_frame = io_frame "wn_env W" R
  for W :: "('k, 'l, 'v) win_env" and R :: "('k, 'l, 'v win_world) sys \<Rightarrow> ('k, 'l, 'v win_world) sys \<Rightarrow> bool"
begin

lemma keeps_win_time_limit: "keeps R (win_time_limit W dir fd)"
proof -
  have "R s ((set_errno e s)\<lparr>sy_send_limit := l\<rparr>)" for s e l
    by (rule frame_trans [OF frame_reset(2) frame_own(4)])
  then show ?thesis
    by (auto simp: keeps_def win_time_limit_def win_recv_time_limit_def win_send_time_limit_def frame_own
        split: io_dir.splits option.splits sum.splits rust.splits if_splits)
qed

lemma keeps_win_await:
  assumes "\<And>d. keeps R (win_wait W dir fd d)"
  shows "keeps R (win_await W dir fd start_time)"
  unfolding win_await_def
proof (intro keeps_bind keeps_win_time_limit keeps_now)
  fix limit t
  show "keeps R (\<lambda>s. let left_time = sat_sub (sat_add start_time limit) t
        in case win_wait W dir fd (min (unat left_time) SLICE) s of
             (Ok u, s') \<Rightarrow> (Ok (left_time, True), s')
           | (Err e, s') \<Rightarrow> (Ok (left_time, False), s')
           | (Panic m, s') \<Rightarrow> (Panic m, s')
           | (Hang, s') \<Rightarrow> (Hang, s'))"
    using assms unfolding keeps_def Let_def by (auto split: prod.splits rust.splits)
qed

lemma keeps_win_retry:
  assumes "\<And>d. keeps R (win_wait W dir fd d)" and "\<And>l. keeps R (loop l)"
  shows "keeps R (win_retry W dir fd start_time loop left_time gave_up r)"
proof -
  have "keeps R (call_bind (win_await W dir fd start_time)
      (\<lambda>(left_time, ok). if ok then loop left_time else Pair gave_up))"
    by (rule keeps_bind [OF keeps_win_await [OF assms(1)]]) (auto simp: assms(2))
  with assms(2) show ?thesis unfolding keeps_def win_retry_def by (auto split: error_kind.splits)
qed

lemmas win_intros = keeps_if keeps_bind keeps_win_retry keeps_after_reset keeps_reset keeps_Pair

lemma keeps_win_read_loop:
  assumes "keeps R inner" and "\<And>d. keeps R (win_wait W D_read fd d)"
  shows "keeps R (win_read_loop W fd inner start_time fuel left_time r)"
proof (induction fuel arbitrary: left_time r)
  case (Suc fuel)
  show ?case unfolding win_read_loop.simps [abs_def] by (intro win_intros assms Suc.IH)
qed (simp add: keeps_def)

lemma keeps_win_buf_loop:
  assumes "\<And>a l. keeps R (inner a l)" and "\<And>d. keeps R (win_wait W dir fd d)"
  shows "keeps R (win_buf_loop W dir fd inner buf len start_time fuel sofar left_time r)"
proof (induction fuel arbitrary: sofar left_time r)
  case (Suc fuel)
  show ?case unfolding win_buf_loop.simps [abs_def] Let_def by (intro win_intros assms Suc.IH)
qed (simp add: keeps_def)

lemma keeps_win_iov_while:
  assumes "\<And>a. keeps R (inner a)" and "\<And>d. keeps R (win_wait W dir fd d)"
  shows "keeps R (win_iov_while W dir fd inner start_time stage len fuel arg offset sofar left_time rc)"
proof (induction fuel arbitrary: arg offset sofar left_time rc)
  case (Suc fuel)
  show ?case unfolding win_iov_while.simps [abs_def] Let_def by (intro win_intros assms Suc.IH)
qed (simp add: keeps_def)

lemma keeps_win_iov_for:
  assumes "\<And>a. keeps R (inner a)" and "\<And>d. keeps R (win_wait W dir fd d)"
  shows "keeps R (win_iov_for W dir fd inner start_time fuel vec rest len sofar index left_time rc)"
proof (induction rest arbitrary: len sofar index left_time rc)
  case Nil
  show ?case by (simp add: keeps_def)
next
  case (Cons iov rest)
  have "keeps R (case res of Inl rc \<Rightarrow> Pair (Ok rc)
      | Inr (sofar, left_time, rc) \<Rightarrow>
          win_iov_for W dir fd inner start_time fuel vec rest l sofar
            (if sofar \<ge> l then index + 1 else index) left_time rc)" for res :: "(int \<times> nat) + nat \<times> u64 \<times> (int \<times> nat)" and l
    by (auto simp: Cons.IH split: sum.splits)
  from keeps_bind [OF keeps_win_iov_while [OF assms] this] Cons.IH show ?case
    unfolding keeps_def by (auto simp: Let_def)
qed

end

definition same_table :: "('k, 'l, 'v win_world) sys \<Rightarrow> ('k, 'l, 'v win_world) sys \<Rightarrow> bool" where
  "same_table s s' \<longleftrightarrow> ww_non_blocking (sy_world s') = ww_non_blocking (sy_world s)"

interpretation table: win_frame W same_table for W
  by unfold_locales (auto simp: same_table_def)

text \<open>Switching the flag on, when it was off, and off again restores the table.\<close>

lemma set_flag_table:
  assumes "win_set_non_blocking_flag W fd on s = (True, s')"
  shows "ww_non_blocking (sy_world s') = (if on then insert fd (ww_non_blocking (sy_world s)) else ww_non_blocking (sy_world s) - {fd})"
  using assms
  by (auto simp: win_set_non_blocking_flag_def win_is_non_blocking_def set_errno_def split: if_splits prod.splits)

lemma win_around_table:
  assumes "\<And>t l. keeps same_table (loop t l)" and "win_around W dir fd failed loop s = (Ok r, s')"
  shows "same_table s s'"
proof -
  let ?b = "win_is_blocking fd s"
  obtain s1 t s2 l s3 s4 where ex: "(if ?b then win_set_non_blocking W fd else Pair (Ok ())) s = (Ok (), s1)"
    "sys_now (wn_env W) s1 = (Ok t, s2)" "win_time_limit W dir fd s2 = (Ok l, s3)" "loop t l s3 = (Ok r, s4)"
    "win_unblock W ?b fd (failed r) r s4 = (Ok r, s')"
    using assms(2) by (auto simp: win_around_def Let_def call_bind_Ok win_unblock_def split: if_splits)
  have "same_table s1 s2" "same_table s2 s3" "same_table s3 s4"
    using table.keeps_now ex(2) table.keeps_win_time_limit ex(3) assms(1) ex(4) unfolding keeps_def by blast+
  then have mid: "same_table s1 s4" by (simp add: same_table_def)
  show ?thesis
  proof (cases ?b)
    case False
    with ex(1,5) mid show ?thesis by (simp add: win_unblock_def)
  next
    case True
    obtain s5 where f: "win_set_non_blocking_flag W fd True s = (True, s1)" "win_set_non_blocking_flag W fd False s4 = (True, s5)"
      "sy_thread s' = sy_thread s5"
      using ex(1,5) True
      by (auto simp: win_unblock_def win_set_blocking_def win_set_non_blocking_def call_bind_Ok set_errno_def
          split: prod.splits if_splits)
    have "fd \<notin> ww_non_blocking (sy_world s)" using True by (simp add: win_is_blocking_def win_is_non_blocking_def)
    with set_flag_table [OF f(1)] set_flag_table [OF f(2)] mid f(3) show ?thesis by (simp add: same_table_def)
  qed
qed


section \<open>What the loops move\<close>

text \<open>
  The contract of \<open>transfer\<close> for WinSock: \<open>M a n v v'\<close> says that \<open>n\<close> bytes were moved at address \<open>a\<close>. A raw call moves as many
  bytes as it answers and none if it fails; waiting and switching the flag move none; and neither the raw call nor the wait
  touches the table.
\<close>

locale win_transfer =
  fixes W :: "('k, 'l, 'v) win_env" and dir :: io_dir and fd :: int
    and inner :: "nat \<Rightarrow> int \<Rightarrow> ('k, 'l, 'v, int) wcall" and M :: "nat \<Rightarrow> nat \<Rightarrow> 'v \<Rightarrow> 'v \<Rightarrow> bool"
  assumes none: "M a 0 v v"
    and before: "\<forall>a. M a 0 v v1 \<Longrightarrow> M a n v1 v2 \<Longrightarrow> M a n v v2"
    and after: "M a n v v1 \<Longrightarrow> \<forall>a. M a 0 v1 v2 \<Longrightarrow> M a n v v2"
    and raw_law: "inner a l s = (Ok r, s') \<Longrightarrow>
      r = SOCKET_ERROR \<and> (\<forall>a. M a 0 (ww_os (sy_world s)) (ww_os (sy_world s')))
      \<or> (\<exists>n\<le>nat l. r = int n \<and> M a n (ww_os (sy_world s)) (ww_os (sy_world s')))"
    and wait_law: "win_wait W dir fd d s = (r', s') \<Longrightarrow> M a 0 (ww_os (sy_world s)) (ww_os (sy_world s'))"
    and fionbio_law: "wn_fionbio W fd on v = (ok, e, v') \<Longrightarrow> M a 0 v v'"
    and raw_table: "keeps same_table (inner a l)"
    and wait_table: "keeps same_table (win_wait W dir fd d)"
begin

definition quiet :: "('k, 'l, 'v win_world) sys \<Rightarrow> ('k, 'l, 'v win_world) sys \<Rightarrow> bool" where
  "quiet s s' \<longleftrightarrow> (\<forall>a. M a 0 (ww_os (sy_world s)) (ww_os (sy_world s')))"

text \<open>What an answer \<open>v\<close> of a call on a buffer says.\<close>

definition exact :: "nat \<Rightarrow> int \<Rightarrow> int \<Rightarrow> ('k, 'l, 'v win_world) sys \<Rightarrow> ('k, 'l, 'v win_world) sys \<Rightarrow> bool" where
  "exact buf len v s s' \<longleftrightarrow> v = SOCKET_ERROR \<and> quiet s s'
     \<or> (\<exists>n\<le>nat len. v = int n \<and> M buf n (ww_os (sy_world s)) (ww_os (sy_world s')))"

end

sublocale win_transfer \<subseteq> quiet: win_frame W quiet
  by unfold_locales (simp_all add: quiet_def none, use after in blast)

context win_transfer
begin

lemma exact_before: "quiet s s1 \<Longrightarrow> exact buf len v s1 s2 \<Longrightarrow> exact buf len v s s2"
proof (unfold exact_def, elim disjE conjE exE)
  assume q: "quiet s s1"
  show "v = SOCKET_ERROR \<and> quiet s s2 \<or> (\<exists>n\<le>nat len. v = int n \<and> M buf n (ww_os (sy_world s)) (ww_os (sy_world s2)))"
    if "v = SOCKET_ERROR" "quiet s1 s2" using that quiet.frame_trans [OF q] by blast
  show "v = SOCKET_ERROR \<and> quiet s s2 \<or> (\<exists>n\<le>nat len. v = int n \<and> M buf n (ww_os (sy_world s)) (ww_os (sy_world s2)))"
    if "n \<le> nat len" "v = int n" "M buf n (ww_os (sy_world s1)) (ww_os (sy_world s2))" for n
    using that before [OF q [unfolded quiet_def] that(3)] by blast
qed

lemma exact_after: "exact buf len v s s1 \<Longrightarrow> quiet s1 s2 \<Longrightarrow> exact buf len v s s2"
proof (unfold exact_def, elim disjE conjE exE)
  assume q: "quiet s1 s2"
  show "v = SOCKET_ERROR \<and> quiet s s2 \<or> (\<exists>n\<le>nat len. v = int n \<and> M buf n (ww_os (sy_world s)) (ww_os (sy_world s2)))"
    if "v = SOCKET_ERROR" "quiet s s1" using that quiet.frame_trans [OF that(2) q] by blast
  show "v = SOCKET_ERROR \<and> quiet s s2 \<or> (\<exists>n\<le>nat len. v = int n \<and> M buf n (ww_os (sy_world s)) (ww_os (sy_world s2)))"
    if "n \<le> nat len" "v = int n" "M buf n (ww_os (sy_world s)) (ww_os (sy_world s1))" for n
    using that after [OF that(3) q [unfolded quiet_def]] by blast
qed

lemma exact_zero: "quiet s s' \<Longrightarrow> exact buf len 0 s s'"
  unfolding exact_def quiet_def by (intro disjI2 exI [of _ 0]) simp

lemma win_await_quiet: "win_await W dir fd t s = (r, s') \<Longrightarrow> quiet s s'"
  using quiet.keeps_win_await [of dir fd t] wait_law unfolding keeps_def quiet_def by blast

lemma win_retry_exact:
  assumes "win_retry W dir fd t loop l (Ok 0) SOCKET_ERROR s = (Ok v, s')"
    and "\<And>l s s'. loop l s = (Ok v, s') \<Longrightarrow> exact buf len v s s'"
  shows "exact buf len v s s'"
proof (cases "sy_errno s = WSAEWOULDBLOCK")
  case True
  then obtain l' ok s1 where aw: "win_await W dir fd t s = (Ok (l', ok), s1)"
    and k: "(if ok then loop l' else Pair (Ok 0)) s1 = (Ok v, s')"
    using assms(1) by (auto simp: win_retry_def win_kind_of_def call_bind_Ok)
  note q = win_await_quiet [OF aw]
  show ?thesis
  proof (cases ok)
    case True
    with k assms(2) exact_before [OF q] show ?thesis by simp
  next
    case False
    with k q exact_zero show ?thesis by auto
  qed
next
  case False
  with assms(1) show ?thesis by (auto simp: win_retry_def win_kind_of_def exact_def)
qed

lemma win_buf_loop_exact:
  assumes "len < 2 ^ 31"
  shows "win_buf_loop W dir fd inner buf len t fuel 0 l SOCKET_ERROR s = (Ok v, s') \<Longrightarrow> exact buf len v s s'"
proof (induction fuel arbitrary: l s s')
  case (Suc fuel)
  show ?case
  proof (cases "0 < len \<and> 0 < l")
    case False
    with Suc.prems show ?thesis by (auto simp: exact_def)
  next
    case True
    then obtain r1 s1 where raw: "inner buf len s = (Ok r1, s1)"
      and k: "(if r1 = SOCKET_ERROR
        then win_retry W dir fd t (\<lambda>l. win_buf_loop W dir fd inner buf len t fuel 0 l r1) l (Ok 0) r1 s1
        else if len \<le> wrap_int r1 \<or> dir = D_read \<and> r1 = 0 then (Ok (wrap_int r1), reset_errno s1)
        else win_retry W dir fd t (\<lambda>l. win_buf_loop W dir fd inner buf len t fuel (wrap_int r1) l r1) l (Ok (wrap_int r1)) r1
          (reset_errno s1)) = (Ok v, s')"
      using Suc.prems by (auto simp: call_bind_Ok Let_def cong: if_cong)
    from raw_law [OF raw] show ?thesis
    proof
      assume a: "r1 = SOCKET_ERROR \<and> (\<forall>a. M a 0 (ww_os (sy_world s)) (ww_os (sy_world s1)))"
      with k have "win_retry W dir fd t (\<lambda>l. win_buf_loop W dir fd inner buf len t fuel 0 l SOCKET_ERROR) l (Ok 0) SOCKET_ERROR s1
          = (Ok v, s')" by simp
      from win_retry_exact [OF this Suc.IH] a show ?thesis by (auto simp: quiet_def intro: exact_before)
    next
      assume "\<exists>n\<le>nat len. r1 = int n \<and> M buf n (ww_os (sy_world s)) (ww_os (sy_world s1))"
      then obtain n where n: "n \<le> nat len" "r1 = int n" "M buf n (ww_os (sy_world s)) (ww_os (sy_world s1))" by blast
      have "wrap_int r1 = r1" using n(1,2) assms True wrap_int_small by simp
      with k n(2) have "v = int n \<and> s' = reset_errno s1"
        by (auto simp: win_retry_def win_kind_of_def reset_errno_def set_errno_def SOCKET_ERROR_def WSAEWOULDBLOCK_def split: if_splits)
      with n show ?thesis by (auto simp: exact_def reset_errno_def set_errno_def)
    qed
  qed
qed simp

lemma win_flag_quiet: "win_set_non_blocking_flag W fd on s = (r, s') \<Longrightarrow> quiet s s'"
  using fionbio_law none
  by (auto simp: win_set_non_blocking_flag_def quiet_def set_errno_def split: if_splits prod.splits)

lemma win_around_exact:
  assumes "win_around W dir fd failed (\<lambda>t l. win_buf_loop W dir fd inner buf len t fuel 0 l SOCKET_ERROR) s = (Ok v, s')"
    and "len < 2 ^ 31"
  shows "exact buf len v s s' \<and> same_table s s'"
proof
  let ?b = "win_is_blocking fd s"
  obtain s1 t s2 l s3 s4 where ex: "(if ?b then win_set_non_blocking W fd else Pair (Ok ())) s = (Ok (), s1)"
    "sys_now (wn_env W) s1 = (Ok t, s2)" "win_time_limit W dir fd s2 = (Ok l, s3)"
    "win_buf_loop W dir fd inner buf len t fuel 0 l SOCKET_ERROR s3 = (Ok v, s4)"
    "win_unblock W ?b fd (failed v) v s4 = (Ok v, s')"
    using assms(1) by (auto simp: win_around_def Let_def call_bind_Ok win_unblock_def split: if_splits)
  have "quiet s s1" using ex(1) win_flag_quiet by (auto simp: win_set_non_blocking_def split: if_splits prod.splits)
  moreover have "quiet s1 s2" "quiet s2 s3"
    using quiet.keeps_now quiet.keeps_win_time_limit ex(2,3) unfolding keeps_def by blast+
  ultimately have q: "quiet s s3" by (meson quiet.frame_trans)
  have q': "quiet s4 s'"
  proof (cases ?b)
    case True
    then obtain s5 where "win_set_non_blocking_flag W fd False s4 = (True, s5)" "sy_thread s' = sy_thread s5"
      using ex(5)
      by (auto simp: win_unblock_def win_set_blocking_def call_bind_Ok set_errno_def split: prod.splits if_splits)
    with win_flag_quiet show ?thesis by (auto simp: quiet_def)
  qed (use ex(5) in \<open>simp add: win_unblock_def\<close>)
  show "exact buf len v s s'" by (rule exact_after [OF exact_before [OF q win_buf_loop_exact [OF assms(2) ex(4)]] q'])
  show "same_table s s'" by (rule win_around_table [OF table.keeps_win_buf_loop [OF raw_table wait_table] assms(1)])
qed

end


section \<open>A system to run\<close>

text \<open>The scripted socket of \<open>OC_Nio\<close> behind WinSock; switching the flag and logging leave a last error of their own.\<close>

definition win_kern_env :: "(unit, unit, kern) win_env" where
  "win_kern_env =
     \<lparr>wn_env =
        \<lparr>en_lsn = (\<lambda>l ev w. (w, False)), en_clock = (\<lambda>n. 1000), en_getfl = (\<lambda>fd w. 0),
         en_setfl = (\<lambda>fd fl w. (0, w)), en_fstat = (\<lambda>fd w. None),
         en_rcvtimeo = (\<lambda>fd w. Inr (0, 0)), en_sndtimeo = (\<lambda>fd w. Inr (0, 0)),
         en_wait_read = (\<lambda>fd d s. (Ok (), s)), en_wait_write = (\<lambda>fd d s. (Ok (), s)),
         en_wait_event = (\<lambda>d s. (Ok (), s)), en_del_event = (\<lambda>k fd s. (Ok (), s)), en_suspend = (\<lambda>s. s)\<rparr>,
      wn_fionbio = (\<lambda>fd on v. (True, 5, v)), wn_timeo = (\<lambda>dir fd v. Inr 0), wn_log = (\<lambda>s. 6)\<rparr>"

definition win_kern_recv :: "nat \<Rightarrow> int \<Rightarrow> (unit, unit, kern, int) wcall" where
  "win_kern_recv a l s =
     (case kern_next (ww_os (sy_world s)) of (r, v) \<Rightarrow>
        if r < 0 then (Ok SOCKET_ERROR, set_errno WSAEWOULDBLOCK (on_world (\<lambda>w. w\<lparr>ww_os := v\<rparr>) s))
        else (let n = min (nat r) (nat l); bs = [length (kn_got v)..<length (kn_got v) + n]
              in (Ok (int n), on_world (\<lambda>w. w\<lparr>ww_os := v\<lparr>kn_got := kn_got v @ bs, kn_mem := put_bytes a bs (kn_mem v)\<rparr>\<rparr>) s)))"

definition win_kern_readv :: "wbuf list \<Rightarrow> (unit, unit, kern, int \<times> nat) wcall" where
  "win_kern_readv bufs s =
     (case kern_next (ww_os (sy_world s)) of (r, v) \<Rightarrow>
        let v = v\<lparr>kn_calls := kn_calls v @ [bufs]\<rparr>
        in if r < 0 then (Ok (SOCKET_ERROR, 0), set_errno WSAEWOULDBLOCK (on_world (\<lambda>w. w\<lparr>ww_os := v\<rparr>) s))
           else (Ok (0, nat r), on_world (\<lambda>w. w\<lparr>ww_os := v\<lparr>kn_got := kn_got v @ [length (kn_got v)..<length (kn_got v) + nat r]\<rparr>\<rparr>) s))"

definition win_kern_sys :: "int list \<Rightarrow> (unit, unit, kern win_world) sys" where
  "win_kern_sys script =
     \<lparr>sy_thread = \<lparr>th_coroutine = [], th_suspender = [], th_timestamp = [], th_cancel = [],
        th_world = \<lparr>ww_os = \<lparr>kn_script = script, kn_mem = (\<lambda>a. a), kn_got = [], kn_sent = [], kn_calls = [], kn_flags = 2\<rparr>,
          ww_non_blocking = {}\<rparr>\<rparr>,
      sy_co = None, sy_errno = 0, sy_recv_limit = [], sy_send_limit = [], sy_reads = 0\<rparr>"

lemma win_kern_wait [simp]: "wait_io (wn_env win_kern_env) dir fd d s = (Ok (), s)"
  by (cases dir) (simp_all add: wait_io_def win_kern_env_def)

lemma win_kern_fionbio [simp]: "wn_fionbio win_kern_env fd on v = (True, 5, v)"
  by (simp add: win_kern_env_def)

interpretation win_kern: win_transfer win_kern_env D_read fd win_kern_recv "reads_at kn_mem kn_got"
proof (unfold_locales, goal_cases)
  case (4 a l s r s')
  then show ?case
    by (auto simp: win_kern_recv_def kern_next_def Let_def reads_at_def set_errno_def
        split: list.splits if_splits intro!: exI [of _ "min _ _"])
next
  case (7 a l)
  then show ?case
    by (auto simp: win_kern_recv_def keeps_def same_table_def set_errno_def Let_def split: prod.splits if_splits)
qed (auto simp: win_wait_def reads_at_def keeps_def same_table_def split: if_splits)

section \<open>Properties\<close>

text \<open>
  C39. A hooked \<open>recv\<close> or \<open>send\<close> of Windows reports exactly what it did, and leaves the table of non-blocking sockets as it found
  it: the bytes moved are as many as it answers, at the start of the buffer, or none if it answers \<open>SOCKET_ERROR\<close>.
\<close>

theorem win_buf_exact:
  assumes "win_transfer W dir fd inner M" and "len < 2 ^ 31"
    and "c = (case dir of D_read \<Rightarrow> win_nio_read_buf W fuel fd inner buf len | D_write \<Rightarrow> win_nio_write_buf W fuel fd inner buf len)"
    and "c s = (Ok r, s')"
  shows "(r = SOCKET_ERROR \<and> (\<forall>a. M a 0 (ww_os (sy_world s)) (ww_os (sy_world s')))
      \<or> (\<exists>n\<le>nat len. r = int n \<and> M buf n (ww_os (sy_world s)) (ww_os (sy_world s'))))
    \<and> ww_non_blocking (sy_world s') = ww_non_blocking (sy_world s)"
proof -
  have "win_around W dir fd (\<lambda>r. r = SOCKET_ERROR) (\<lambda>t l. win_buf_loop W dir fd inner buf len t fuel 0 l SOCKET_ERROR) s = (Ok r, s')"
    using assms(3,4) by (cases dir) (simp_all add: win_nio_read_buf_def win_nio_write_buf_def)
  from win_transfer.win_around_exact [OF assms(1) this assms(2)] show ?thesis
    by (simp add: win_transfer.exact_def [OF assms(1)] win_transfer.quiet_def [OF assms(1)] same_table_def)
qed

lemma win_demo:
  "\<exists>s'. win_nio_read_buf win_kern_env 5 3 win_kern_recv 500 8 (win_kern_sys [-1, 3, 4]) = (Ok 3, s')"
proof -
  have "fst (win_nio_read_buf win_kern_env 5 3 win_kern_recv 500 8 (win_kern_sys [-1, 3, 4])) = Ok 3" by code_simp
  then show ?thesis by (metis prod.collapse)
qed

theorem win_buf_exact_witness:
  "\<exists>s'. win_nio_read_buf win_kern_env 5 3 win_kern_recv 500 8 (win_kern_sys [-1, 3, 4]) = (Ok 3, s')
     \<and> length (kn_got (ww_os (sy_world s'))) = 3 \<and> ww_non_blocking (sy_world s') = {}"
proof -
  obtain s' where run: "win_nio_read_buf win_kern_env 5 3 win_kern_recv 500 8 (win_kern_sys [-1, 3, 4]) = (Ok 3, s')"
    using win_demo by blast
  have c: "win_nio_read_buf win_kern_env 5 3 win_kern_recv 500 8
      = (case D_read of D_read \<Rightarrow> win_nio_read_buf win_kern_env 5 3 win_kern_recv 500 8
         | D_write \<Rightarrow> win_nio_write_buf win_kern_env 5 3 win_kern_recv 500 8)" by simp
  have "(8::int) < 2 ^ 31" by simp
  from win_buf_exact [OF win_kern.win_transfer_axioms this c run] run show ?thesis
    by (auto simp: reads_at_def win_kern_sys_def SOCKET_ERROR_def)
qed

text \<open>The other loops leave the table as they found it, too.\<close>

lemma win_iovec_table:
  assumes "\<And>v. keeps same_table (inner v)" and "\<And>d. keeps same_table (win_wait W dir fd d)"
    and "win_nio_iovec W dir fuel fd inner vec cnt s = (Ok rc, s')"
  shows "same_table s s'"
  using assms(3) unfolding win_nio_iovec_def by (rule win_around_table [rotated]) (intro table.keeps_win_iov_for assms)

lemma win_read_table:
  assumes "keeps same_table inner" and "\<And>d. keeps same_table (win_wait W D_read fd d)"
    and "win_nio_read W fuel fd inner s = (Ok r, s')"
  shows "same_table s s'"
  using assms(3) unfolding win_nio_read_def by (rule win_around_table [rotated]) (intro table.keeps_win_read_loop assms)

text \<open>
  \<open>WSARecv\<close> has the fault of \<open>readv\<close>: a receive into two buffers of four bytes that takes six bytes, then one more,
  has consumed seven and reports one.
\<close>

lemma wsarecv_underreports:
  "fst (win_nio_read_iovec win_kern_env 5 3 win_kern_readv [(1000, 4), (2000, 4)] 0 (win_kern_sys [6, 1])) = Ok (0, 1)
   \<and> length (kn_got (ww_os (sy_world
       (snd (win_nio_read_iovec win_kern_env 5 3 win_kern_readv [(1000, 4), (2000, 4)] 0 (win_kern_sys [6, 1])))))) = 7"
  by code_simp

end
