(* ===== verification/OC_Win_Calls.thy ===== *)
theory OC_Win_Calls
  imports OC_Win
begin

text \<open>
  \<^verbatim>\<open>core/src/syscall/windows/\<close>: the hooked calls of Windows, one file each, on the layers of \<open>OC_Win\<close>. \<open>accept\<close> has a layer of its
  own for completion ports; \<open>Sleep\<close>, \<open>WSAPoll\<close>, \<open>select\<close>, \<open>connect\<close>, \<open>ioctlsocket\<close>, \<open>setsockopt\<close>, \<open>shutdown\<close> and
  \<open>WaitOnAddress\<close> have code of their own.
\<close>

type_synonym ('k, 'l, 'v, 'a, 'b) wfn = "'a \<Rightarrow> ('k, 'l, 'v, 'b) wcall"

section \<open>Calls that are made of the layers\<close>

definition win_WSAAccept ::
  "('k, 'l, 'v) win_env \<Rightarrow> nat \<Rightarrow> ('k, 'l, 'v, int \<times> nat \<times> nat \<times> nat \<times> nat, int) wfn option
    \<Rightarrow> ('k, 'l, 'v, int \<times> nat \<times> nat \<times> nat \<times> nat, int) wfn \<Rightarrow> int \<Rightarrow> nat \<Rightarrow> nat \<Rightarrow> nat \<Rightarrow> nat \<Rightarrow> ('k, 'l, 'v, int) wcall" where
  "win_WSAAccept W fuel fn_ptr win_fn fd address address_len condition data =
     win_facade W Sn_WSAAccept (win_nio_read W fuel fd (win_raw fn_ptr win_fn (fd, address, address_len, condition, data)))"

definition win_recv ::
  "('k, 'l, 'v) win_env \<Rightarrow> nat \<Rightarrow> ('k, 'l, 'v, int \<times> nat \<times> int \<times> int, int) wfn option
    \<Rightarrow> ('k, 'l, 'v, int \<times> nat \<times> int \<times> int, int) wfn \<Rightarrow> int \<Rightarrow> nat \<Rightarrow> int \<Rightarrow> int \<Rightarrow> ('k, 'l, 'v, int) wcall" where
  "win_recv W fuel fn_ptr win_fn fd buf len flags =
     win_facade W Sn_recv (win_nio_read_buf W fuel fd (\<lambda>b l. win_raw fn_ptr win_fn (fd, b, l, flags)) buf len)"

definition win_send ::
  "('k, 'l, 'v) win_env \<Rightarrow> nat \<Rightarrow> ('k, 'l, 'v, int \<times> nat \<times> int \<times> int, int) wfn option
    \<Rightarrow> ('k, 'l, 'v, int \<times> nat \<times> int \<times> int, int) wfn \<Rightarrow> int \<Rightarrow> nat \<Rightarrow> int \<Rightarrow> int \<Rightarrow> ('k, 'l, 'v, int) wcall" where
  "win_send W fuel fn_ptr win_fn fd buf len flags =
     win_facade W Sn_send (win_nio_write_buf W fuel fd (\<lambda>b l. win_raw fn_ptr win_fn (fd, b, l, flags)) buf len)"

text \<open>\<open>rest\<close> stands for the flags, the overlapped structure and the completion routine, which are handed on.\<close>

definition win_WSARecv ::
  "('k, 'l, 'v) win_env \<Rightarrow> nat \<Rightarrow> ('k, 'l, 'v, int \<times> wbuf list \<times> 'r, int \<times> nat) wfn option
    \<Rightarrow> ('k, 'l, 'v, int \<times> wbuf list \<times> 'r, int \<times> nat) wfn \<Rightarrow> int \<Rightarrow> wbuf list \<Rightarrow> nat \<Rightarrow> 'r \<Rightarrow> ('k, 'l, 'v, int \<times> nat) wcall" where
  "win_WSARecv W fuel fn_ptr win_fn fd bufs cnt rest =
     win_facade W Sn_WSARecv (win_nio_read_iovec W fuel fd (\<lambda>v. win_raw fn_ptr win_fn (fd, v, rest)) bufs cnt)"

definition win_WSASend ::
  "('k, 'l, 'v) win_env \<Rightarrow> nat \<Rightarrow> ('k, 'l, 'v, int \<times> wbuf list \<times> 'r, int \<times> nat) wfn option
    \<Rightarrow> ('k, 'l, 'v, int \<times> wbuf list \<times> 'r, int \<times> nat) wfn \<Rightarrow> int \<Rightarrow> wbuf list \<Rightarrow> nat \<Rightarrow> 'r \<Rightarrow> ('k, 'l, 'v, int \<times> nat) wcall" where
  "win_WSASend W fuel fn_ptr win_fn fd bufs cnt rest =
     win_facade W Sn_WSASend (win_nio_write_iovec W fuel fd (\<lambda>v. win_raw fn_ptr win_fn (fd, v, rest)) bufs cnt)"

text \<open>Facade and raw only.\<close>

definition win_listen ::
  "('k, 'l, 'v) win_env \<Rightarrow> ('k, 'l, 'v, int \<times> int, int) wfn option \<Rightarrow> ('k, 'l, 'v, int \<times> int, int) wfn \<Rightarrow> int \<Rightarrow> int
    \<Rightarrow> ('k, 'l, 'v, int) wcall" where
  "win_listen W fn_ptr win_fn fd backlog = win_facade W Sn_listen (win_raw fn_ptr win_fn (fd, backlog))"

definition win_socket ::
  "('k, 'l, 'v) win_env \<Rightarrow> ('k, 'l, 'v, int \<times> int \<times> int, int) wfn option \<Rightarrow> ('k, 'l, 'v, int \<times> int \<times> int, int) wfn
    \<Rightarrow> int \<Rightarrow> int \<Rightarrow> int \<Rightarrow> ('k, 'l, 'v, int) wcall" where
  "win_socket W fn_ptr win_fn domain ty protocol = win_facade W Sn_socket (win_raw fn_ptr win_fn (domain, ty, protocol))"

definition win_WSASocketW ::
  "('k, 'l, 'v) win_env \<Rightarrow> ('k, 'l, 'v, int \<times> int \<times> int \<times> nat \<times> nat \<times> nat, int) wfn option
    \<Rightarrow> ('k, 'l, 'v, int \<times> int \<times> int \<times> nat \<times> nat \<times> nat, int) wfn \<Rightarrow> int \<Rightarrow> int \<Rightarrow> int \<Rightarrow> nat \<Rightarrow> nat \<Rightarrow> nat
    \<Rightarrow> ('k, 'l, 'v, int) wcall" where
  "win_WSASocketW W fn_ptr win_fn domain ty protocol info g flags =
     win_facade W Sn_WSASocketW (win_raw fn_ptr win_fn (domain, ty, protocol, info, g, flags))"

definition win_CreateFileW ::
  "('k, 'l, 'v) win_env \<Rightarrow> ('k, 'l, 'v, nat \<times> nat \<times> nat \<times> nat \<times> nat \<times> nat \<times> nat, int) wfn option
    \<Rightarrow> ('k, 'l, 'v, nat \<times> nat \<times> nat \<times> nat \<times> nat \<times> nat \<times> nat, int) wfn \<Rightarrow> nat \<Rightarrow> nat \<Rightarrow> nat \<Rightarrow> nat \<Rightarrow> nat \<Rightarrow> nat \<Rightarrow> nat
    \<Rightarrow> ('k, 'l, 'v, int) wcall" where
  "win_CreateFileW W fn_ptr win_fn filename access share security disposition attributes template =
     win_facade W Sn_CreateFileW (win_raw fn_ptr win_fn (filename, access, share, security, disposition, attributes, template))"

definition win_SetFilePointerEx ::
  "('k, 'l, 'v) win_env \<Rightarrow> ('k, 'l, 'v, nat \<times> int \<times> nat \<times> nat, int) wfn option
    \<Rightarrow> ('k, 'l, 'v, nat \<times> int \<times> nat \<times> nat, int) wfn \<Rightarrow> nat \<Rightarrow> int \<Rightarrow> nat \<Rightarrow> nat \<Rightarrow> ('k, 'l, 'v, int) wcall" where
  "win_SetFilePointerEx W fn_ptr win_fn hfile distance new_pointer move =
     win_facade W Sn_SetFilePointerEx (win_raw fn_ptr win_fn (hfile, distance, new_pointer, move))"

section \<open>accept\<close>

text \<open>
  The layer for completion ports. \<open>family\<close> asks for the address family of the listening socket, \<open>put_family\<close> writes it to the
  caller's address; writing through a null pointer ends the process.
\<close>

record ('k, 'l, 'v) port_ops =
  po_submit :: "('k, 'l, 'v win_world) sys \<Rightarrow> nat option \<times> ('k, 'l, 'v win_world) sys"
  po_result :: "nat \<Rightarrow> ('k, 'l, 'v win_world) sys \<Rightarrow> int option \<times> ('k, 'l, 'v win_world) sys"
  po_family :: "int \<Rightarrow> ('k, 'l, 'v win_world) sys \<Rightarrow> int option"
  po_put_family :: "nat \<Rightarrow> int \<Rightarrow> ('k, 'l, 'v win_world) sys \<Rightarrow> ('k, 'l, 'v win_world) sys"

definition accept_finish :: "('k, 'l, 'v) port_ops \<Rightarrow> int \<Rightarrow> nat \<Rightarrow> nat \<Rightarrow> ('k, 'l, 'v, int) wcall" where
  "accept_finish P fd address arc s =
     (case po_result P arc s of
        (None, s1) \<Rightarrow> (Hang, s1)
      | (Some r, s1) \<Rightarrow>
          (if r < 0 then (if - r < 2 ^ 32 then (Ok INVALID_SOCKET, set_errno (- r) s1) else (Panic ''errno overflow'', s1))
           else case po_family P fd s1 of
             None \<Rightarrow> (Ok INVALID_SOCKET, s1)
           | Some f \<Rightarrow>
               (if address = 0 then (Panic ''segmentation fault'', s1)
                else if f < 0 \<or> f \<ge> 2 ^ 16 then (Panic ''iAddressFamily overflow'', s1)
                else (Ok r, po_put_family P address f s1))))"

definition win_accept ::
  "('k, 'l, 'v) win_env \<Rightarrow> bool \<Rightarrow> ('k, 'l, 'v) port_ops \<Rightarrow> nat \<Rightarrow> ('k, 'l, 'v, int \<times> nat \<times> nat, int) wfn option
    \<Rightarrow> ('k, 'l, 'v, int \<times> nat \<times> nat, int) wfn \<Rightarrow> int \<Rightarrow> nat \<Rightarrow> nat \<Rightarrow> ('k, 'l, 'v, int) wcall" where
  "win_accept W iocp_on P fuel fn_ptr win_fn fd address address_len =
     win_chain W iocp_on Sn_accept
       (iocp_layer W (win_recv_time_limit W fd) (po_submit P) (accept_finish P fd address))
       (win_nio_read W fuel fd (win_raw fn_ptr win_fn (fd, address, address_len)))"

section \<open>Waiting\<close>

definition win_Sleep :: "('k, 'l, 'v) win_env \<Rightarrow> u32 \<Rightarrow> ('k, 'l, 'v, unit) wcall" where
  "win_Sleep W dw_milliseconds =
     win_facade W Sn_Sleep
       (call_bind
          (\<lambda>s. if sy_co s = None then (Ok (), s)
               else call_bind (sys_now (wn_env W))
                 (\<lambda>t s. (Ok (), cur_syscall (wn_env W) Sn_Sleep (Ss_Suspend (get_timeout_time t (unat dw_milliseconds * 1000000))) s)) s)
          (\<lambda>u. wait_millis (wn_env W) (unat dw_milliseconds)))"

definition win_WSAPoll ::
  "('k, 'l, 'v) win_env \<Rightarrow> nat \<Rightarrow> ('k, 'l, 'v, nat \<times> nat \<times> int, int) wfn option \<Rightarrow> ('k, 'l, 'v, nat \<times> nat \<times> int, int) wfn
    \<Rightarrow> nat \<Rightarrow> nat \<Rightarrow> int \<Rightarrow> ('k, 'l, 'v, int) wcall" where
  "win_WSAPoll W fuel fn_ptr win_fn fds nfds timeout =
     win_facade W Sn_WSAPoll (ask_loop (wn_env W) int_max (win_raw fn_ptr win_fn (fds, nfds, 0)) (\<lambda>s. s) fuel
       (if timeout < 0 then int_max else nat timeout) 1)"

text \<open>\<open>save\<close> and \<open>restore\<close> are the copies of the descriptor sets, as in \<open>sys_select\<close>.\<close>

definition win_select ::
  "('k, 'l, 'v) win_env \<Rightarrow> nat \<Rightarrow> (('k, 'l, 'v win_world) sys \<Rightarrow> 'sets)
    \<Rightarrow> ('sets \<Rightarrow> ('k, 'l, 'v win_world) sys \<Rightarrow> ('k, 'l, 'v win_world) sys)
    \<Rightarrow> ('k, 'l, 'v, int \<times> nat \<times> nat \<times> nat \<times> int \<times> int, int) wfn option
    \<Rightarrow> ('k, 'l, 'v, int \<times> nat \<times> nat \<times> nat \<times> int \<times> int, int) wfn
    \<Rightarrow> int \<Rightarrow> nat \<Rightarrow> nat \<Rightarrow> nat \<Rightarrow> (int \<times> int) option \<Rightarrow> ('k, 'l, 'v, int) wcall" where
  "win_select W fuel save restore fn_ptr win_fn nfds readfds writefds errorfds timeout =
     win_facade W Sn_select (\<lambda>s.
       case select_units timeout of
         Ok t \<Rightarrow> ask_loop (wn_env W) uint_max (win_raw fn_ptr win_fn (nfds, readfds, writefds, errorfds, 0, 0))
                   (restore (save s)) fuel t 1 s
       | Err e \<Rightarrow> (Err e, s) | Panic m \<Rightarrow> (Panic m, s) | Hang \<Rightarrow> (Hang, s))"

text \<open>\<open>WaitOnAddress\<close> asks for at most a millisecond, then lets other coroutines run for at most ten.\<close>

fun wait_on_address_loop ::
  "('k, 'l, 'v) win_env \<Rightarrow> (nat \<Rightarrow> ('k, 'l, 'v, int) wcall) \<Rightarrow> u64 \<Rightarrow> nat \<Rightarrow> ('k, 'l, 'v, int) wcall" where
  "wait_on_address_loop W inner timeout 0 s = (Hang, s)"
| "wait_on_address_loop W inner timeout (Suc fuel) s =
     call_bind (sys_now (wn_env W)) (\<lambda>t s.
       let left_time = sat_sub timeout t
       in if left_time = 0 then (Ok 0, set_errno ERROR_TIMEOUT s)
          else call_bind (inner (min (unat left_time div 1000000) 1)) (\<lambda>r s.
            if r = 1 then (Ok r, reset_errno s)
            else call_bind (sys_now (wn_env W)) (\<lambda>t s.
              let left_time = sat_sub timeout t
              in if left_time = 0 then (Ok 0, set_errno ERROR_TIMEOUT s)
                 else (case en_wait_event (wn_env W) (min (unat left_time) 10000000) s of
                         (Ok u, s1) \<Rightarrow> wait_on_address_loop W inner timeout fuel s1
                       | (Err e, s1) \<Rightarrow> (Ok r, s1)
                       | (Panic m, s1) \<Rightarrow> (Panic m, s1)
                       | (Hang, s1) \<Rightarrow> (Hang, s1))) s) s) s"

definition nio_wait_on_address ::
  "('k, 'l, 'v) win_env \<Rightarrow> nat \<Rightarrow> (nat \<Rightarrow> ('k, 'l, 'v, int) wcall) \<Rightarrow> u32 \<Rightarrow> ('k, 'l, 'v, int) wcall" where
  "nio_wait_on_address W fuel inner dwmilliseconds =
     call_bind (sys_now (wn_env W)) (\<lambda>t.
       wait_on_address_loop W inner (get_timeout_time t (unat dwmilliseconds * 1000000)) fuel)"

definition win_WaitOnAddress ::
  "('k, 'l, 'v) win_env \<Rightarrow> nat \<Rightarrow> ('k, 'l, 'v, nat \<times> nat \<times> nat \<times> nat, int) wfn option
    \<Rightarrow> ('k, 'l, 'v, nat \<times> nat \<times> nat \<times> nat, int) wfn \<Rightarrow> nat \<Rightarrow> nat \<Rightarrow> nat \<Rightarrow> u32 \<Rightarrow> ('k, 'l, 'v, int) wcall" where
  "win_WaitOnAddress W fuel fn_ptr win_fn address compareaddress addresssize dwmilliseconds =
     win_facade W Sn_WaitOnAddress
       (nio_wait_on_address W fuel (\<lambda>ms. win_raw fn_ptr win_fn (address, compareaddress, addresssize, ms)) dwmilliseconds)"

section \<open>Sockets\<close>

fun win_connect_loop ::
  "('k, 'l, 'v) win_env \<Rightarrow> ('k, 'l, 'v win_world) conn_ops \<Rightarrow> int \<Rightarrow> u64 \<Rightarrow> nat \<Rightarrow> u64 \<Rightarrow> int \<Rightarrow> ('k, 'l, 'v, int) wcall" where
  "win_connect_loop W C fd start_time 0 left_time r s = (Hang, s)"
| "win_connect_loop W C fd start_time (Suc fuel) left_time r s =
     (if left_time = 0 then (Ok r, s)
      else if r = 0 then (Ok r, reset_errno s)
      else if sy_errno s = WSAEINPROGRESS \<or> sy_errno s = WSAEALREADY \<or> sy_errno s = WSAEWOULDBLOCK then
        call_bind (win_await W D_write fd start_time) (\<lambda>(left_time, ok) s.
          if \<not> ok then (Ok r, s)
          else
            (let (peer, s1) = cn_getpeername C fd s;
                 ((r, err), s2) = cn_so_error C fd s1
             in if r \<noteq> 0 then (Ok (- 1), s2)
                else if err \<noteq> 0 then (Ok (- 1), set_errno err s2)
                else if peer \<noteq> 0 then win_connect_loop W C fd start_time fuel left_time (- 1) (set_errno WSAEINPROGRESS s2)
                else win_connect_loop W C fd start_time fuel left_time r s2)) s
      else if sy_errno s \<noteq> WSAEINTR then (Ok r, s)
      else win_connect_loop W C fd start_time fuel left_time r s)"

definition win_nio_connect ::
  "('k, 'l, 'v) win_env \<Rightarrow> ('k, 'l, 'v win_world) conn_ops \<Rightarrow> nat \<Rightarrow> int \<Rightarrow> ('k, 'l, 'v, int) wcall \<Rightarrow> ('k, 'l, 'v, int) wcall" where
  "win_nio_connect W C fuel fd inner s =
     (let blocking = win_is_blocking fd s
      in call_bind (if blocking then win_set_non_blocking W fd else Pair (Ok ())) (\<lambda>_.
         call_bind (sys_now (wn_env W)) (\<lambda>start_time.
         call_bind (win_send_time_limit W fd) (\<lambda>left_time.
         call_bind inner (\<lambda>r.
         call_bind (win_connect_loop W C fd start_time fuel left_time r) (\<lambda>r s.
           call_bind (if blocking then win_set_blocking W fd else Pair (Ok ())) (\<lambda>_. Pair (Ok r))
             (if r = - 1 \<and> sy_errno s = WSAETIMEDOUT then set_errno WSAEINPROGRESS s else s)))))) s)"

definition win_connect ::
  "('k, 'l, 'v) win_env \<Rightarrow> ('k, 'l, 'v win_world) conn_ops \<Rightarrow> nat \<Rightarrow> ('k, 'l, 'v, int \<times> nat \<times> int, int) wfn option
    \<Rightarrow> ('k, 'l, 'v, int \<times> nat \<times> int, int) wfn \<Rightarrow> int \<Rightarrow> nat \<Rightarrow> int \<Rightarrow> ('k, 'l, 'v, int) wcall" where
  "win_connect W C fuel fn_ptr win_fn fd address len =
     win_facade W Sn_connect (win_nio_connect W C fuel fd (win_raw fn_ptr win_fn (fd, address, len)))"

text \<open>
  \<open>ioctlsocket\<close>: the raw call answers its result and what \<open>argp\<close> points to afterwards. The facade is the only one that
  looks at the state before it leaves the call and that does not keep the last error.
\<close>

definition nio_ioctlsocket :: "('k, 'l, 'v, int \<times> nat) wcall \<Rightarrow> int \<Rightarrow> ('k, 'l, 'v, int \<times> nat) wcall" where
  "nio_ioctlsocket inner fd =
     call_bind inner (\<lambda>(r, argp) s.
       (Ok (r, argp),
        if r = 0
        then on_world (\<lambda>w. w\<lparr>ww_non_blocking := (if argp = 0 then ww_non_blocking w - {fd} else insert fd (ww_non_blocking w))\<rparr>) s
        else s))"

definition ioctlsocket_facade :: "('k, 'l, 'v) win_env \<Rightarrow> ('k, 'l, 'v, int \<times> nat) wcall \<Rightarrow> ('k, 'l, 'v, int \<times> nat) wcall" where
  "ioctlsocket_facade W inner s =
     (case inner (cur_syscall (wn_env W) Sn_ioctlsocket Ss_Executing (win_log W s)) of
        (Ok r, s1) \<Rightarrow>
          (Ok r, win_log W (if cur_state s1 = Some (Cs_Syscall () Sn_ioctlsocket Ss_Executing) then cur_running (wn_env W) s1 else s1))
      | rs \<Rightarrow> rs)"

definition win_ioctlsocket ::
  "('k, 'l, 'v) win_env \<Rightarrow> ('k, 'l, 'v, int \<times> int \<times> nat, int \<times> nat) wfn option
    \<Rightarrow> ('k, 'l, 'v, int \<times> int \<times> nat, int \<times> nat) wfn \<Rightarrow> int \<Rightarrow> int \<Rightarrow> nat \<Rightarrow> ('k, 'l, 'v, int \<times> nat) wcall" where
  "win_ioctlsocket W fn_ptr win_fn fd cmd argp =
     ioctlsocket_facade W (nio_ioctlsocket (win_raw fn_ptr win_fn (fd, cmd, argp)) fd)"

definition WIN_SOL_SOCKET :: int where "WIN_SOL_SOCKET = 0xFFFF"
definition WIN_SO_SNDTIMEO :: int where "WIN_SO_SNDTIMEO = 0x1005"
definition WIN_SO_RCVTIMEO :: int where "WIN_SO_RCVTIMEO = 0x1006"

text \<open>\<open>val\<close> is the number of milliseconds behind the pointer.\<close>

definition win_nio_setsockopt ::
  "('k, 'l, 'v, int) wcall \<Rightarrow> int \<Rightarrow> int \<Rightarrow> int \<Rightarrow> int \<Rightarrow> ('k, 'l, 'v, int) wcall" where
  "win_nio_setsockopt inner socket level name val =
     call_bind inner (\<lambda>r s.
       if r = 0 \<and> level = WIN_SOL_SOCKET \<and> (name = WIN_SO_SNDTIMEO \<or> name = WIN_SO_RCVTIMEO) then
         (case millis_limit val of
            Ok l \<Rightarrow>
              (if name = WIN_SO_SNDTIMEO
               then (if map_of (sy_send_limit s) socket = None then Ok r else Panic ''assertion failed'',
                     s\<lparr>sy_send_limit := AList.update socket l (sy_send_limit s)\<rparr>)
               else (if map_of (sy_recv_limit s) socket = None then Ok r else Panic ''assertion failed'',
                     s\<lparr>sy_recv_limit := AList.update socket l (sy_recv_limit s)\<rparr>))
          | Err e \<Rightarrow> (Err e, s) | Panic m \<Rightarrow> (Panic m, s) | Hang \<Rightarrow> (Hang, s))
       else (Ok r, s))"

definition win_setsockopt ::
  "('k, 'l, 'v) win_env \<Rightarrow> ('k, 'l, 'v, int \<times> int \<times> int \<times> int \<times> int, int) wfn option
    \<Rightarrow> ('k, 'l, 'v, int \<times> int \<times> int \<times> int \<times> int, int) wfn \<Rightarrow> int \<Rightarrow> int \<Rightarrow> int \<Rightarrow> int \<Rightarrow> int \<Rightarrow> ('k, 'l, 'v, int) wcall" where
  "win_setsockopt W fn_ptr win_fn socket level name val option_len =
     win_facade W Sn_setsockopt
       (win_nio_setsockopt (win_raw fn_ptr win_fn (socket, level, name, val, option_len)) socket level name val)"

definition win_nio_shutdown :: "('k, 'l, 'v) win_env \<Rightarrow> ('k, 'l, 'v, int) wcall \<Rightarrow> int \<Rightarrow> int \<Rightarrow> ('k, 'l, 'v, int) wcall" where
  "win_nio_shutdown W inner fd how s =
     (if \<not> fd < 2 ^ 31 then (Panic ''overflow'', s)
      else if how = 0 then call_bind (forget_events (wn_env W) Del_read fd) (\<lambda>_. inner) s
      else if how = 1 then call_bind (forget_events (wn_env W) Del_write fd) (\<lambda>_. inner) s
      else if how = 2 then call_bind (forget_events (wn_env W) Del_both fd) (\<lambda>_. inner) s
      else (Ok (- 1), set_errno WSAEINVAL s))"

definition win_shutdown ::
  "('k, 'l, 'v) win_env \<Rightarrow> ('k, 'l, 'v, int \<times> int, int) wfn option \<Rightarrow> ('k, 'l, 'v, int \<times> int, int) wfn \<Rightarrow> int \<Rightarrow> int
    \<Rightarrow> ('k, 'l, 'v, int) wcall" where
  "win_shutdown W fn_ptr win_fn fd how =
     win_facade W Sn_shutdown (win_nio_shutdown W (win_raw fn_ptr win_fn (fd, how)) fd how)"


section \<open>Errors\<close>

text \<open>Neither layer that wraps the loops touches the limits.\<close>

lemma cur_syscall_fields:
  "sy_recv_limit (cur_syscall E n st s) = sy_recv_limit s" "sy_errno (cur_running E s) = sy_errno s"
  by (auto simp: cur_syscall_def cur_running_def split: option.splits prod.splits)

lemma fionbio_switches:
  assumes "\<And>on v. fst (wn_fionbio W fd on v)"
  shows "\<exists>s'. win_set_non_blocking_flag W fd on s = (True, s') \<and> sy_recv_limit s' = sy_recv_limit s"
proof -
  obtain e v where "wn_fionbio W fd on (ww_os (sy_world s)) = (True, e, v)"
    using assms [of on "ww_os (sy_world s)"] by (cases "wn_fionbio W fd on (ww_os (sy_world s))") auto
  then show ?thesis
    by (cases "win_is_non_blocking fd s = on") (simp_all add: win_set_non_blocking_flag_def set_errno_def)
qed

text \<open>A loop whose first call fails for good ends there, with the error of the call.\<close>

lemma win_buf_loop_fails:
  assumes "inner buf len s = (Ok SOCKET_ERROR, s1)" and "sy_errno s1 \<noteq> WSAEWOULDBLOCK" and "0 < len" and "left_time \<noteq> 0"
  shows "win_buf_loop W dir fd inner buf len t (Suc fuel) 0 left_time r s = (Ok SOCKET_ERROR, s1)"
  using assms by (simp add: call_bind_def win_retry_def win_kind_of_def word_neq_0_conv Let_def)

lemma win_recv_fails:
  assumes "\<And>s. \<exists>s1. inner buf len s = (Ok SOCKET_ERROR, s1) \<and> sy_errno s1 = e" and "e \<noteq> WSAEWOULDBLOCK" and "0 \<le> e" and "e < 2 ^ 31"
    and "0 < len" and "map_of (sy_recv_limit s) fd = Some limit" and "limit \<noteq> 0" and "\<And>on v. fst (wn_fionbio W fd on v)"
  shows "\<exists>s'. win_nio_read_buf W (Suc fuel) fd inner buf len s = (Ok SOCKET_ERROR, s') \<and> sy_errno s' = e"
proof -
  let ?b = "win_is_blocking fd s"
  obtain s1 where s1: "(if ?b then win_set_non_blocking W fd else Pair (Ok ())) s = (Ok (), s1)" "sy_recv_limit s1 = sy_recv_limit s"
    using fionbio_switches [OF assms(8), of True s] by (cases ?b) (auto simp: win_set_non_blocking_def)
  let ?s2 = "s1\<lparr>sy_reads := Suc (sy_reads s1)\<rparr>"
  obtain s3 where s3: "inner buf len ?s2 = (Ok SOCKET_ERROR, s3)" "sy_errno s3 = e" using assms(1) by blast
  obtain s4 where s4: "win_set_non_blocking_flag W fd False s3 = (True, s4)" using fionbio_switches [OF assms(8)] by metis
  let ?s' = "if ?b then set_errno e s4 else s3"
  have "win_unblock W ?b fd True SOCKET_ERROR s3 = (Ok SOCKET_ERROR, ?s')"
    using s4 s3(2) assms(3,4) by (simp add: win_unblock_def win_set_blocking_def call_bind_def saved_errno_def)
  moreover have "win_buf_loop W D_read fd inner buf len t (Suc fuel) 0 limit SOCKET_ERROR ?s2 = (Ok SOCKET_ERROR, s3)" for t
    by (rule win_buf_loop_fails) (use s3 assms(2,5,7) in simp_all)
  ultimately have "win_nio_read_buf W (Suc fuel) fd inner buf len s = (Ok SOCKET_ERROR, ?s')"
    using s1 assms(6)
    by (simp add: win_nio_read_buf_def win_around_def call_bind_def sys_now_def win_time_limit_def win_recv_time_limit_def
        del: win_buf_loop.simps)
  moreover have "sy_errno ?s' = e" using s3(2) by (simp add: set_errno_def)
  ultimately show ?thesis by blast
qed

section \<open>Deadlines\<close>

text \<open>
  \<open>WaitOnAddress\<close> with calls that answer returns at the latest when the clock has passed its timeout: each round reads the clock
  twice.
\<close>

lemma wait_on_address_returns:
  assumes raw: "\<And>ms s. \<exists>r s'. inner ms s = (Ok r, s') \<and> sy_reads s \<le> sy_reads s'"
    and wait: "\<And>d s. \<exists>r s'. en_wait_event (wn_env W) d s = (r, s') \<and> (r = Ok () \<or> (\<exists>e. r = Err e)) \<and> sy_reads s \<le> sy_reads s'"
    and clock: "\<And>k. K \<le> k \<Longrightarrow> timeout \<le> en_clock (wn_env W) k"
  shows "K - sy_reads s < fuel \<Longrightarrow> \<exists>r s'. wait_on_address_loop W inner timeout fuel s = (Ok r, s')"
proof (induction fuel arbitrary: s)
  case (Suc fuel)
  let ?t = "en_clock (wn_env W) (sy_reads s)" and ?s1 = "s\<lparr>sy_reads := Suc (sy_reads s)\<rparr>"
  show ?case
  proof (cases "sat_sub timeout ?t = 0")
    case True
    then show ?thesis by (simp add: call_bind_def sys_now_def)
  next
    case False
    have early: "sy_reads s < K"
    proof (rule ccontr)
      assume "\<not> sy_reads s < K"
      with False clock [of "sy_reads s"] show False by (simp add: sat_sub_def)
    qed
    obtain r s2 where r: "inner (min (unat (sat_sub timeout ?t) div 1000000) 1) ?s1 = (Ok r, s2)" "sy_reads ?s1 \<le> sy_reads s2"
      using raw by blast
    let ?left = "sat_sub timeout (en_clock (wn_env W) (sy_reads s2))" and ?s3 = "s2\<lparr>sy_reads := Suc (sy_reads s2)\<rparr>"
    obtain w s4 where w: "en_wait_event (wn_env W) (min (unat ?left) 10000000) ?s3 = (w, s4)"
      "w = Ok () \<or> (\<exists>e. w = Err e)" "sy_reads ?s3 \<le> sy_reads s4" using wait by blast
    have "K - sy_reads s4 < fuel" using Suc.prems early r(2) w(3) by simp
    from Suc.IH [OF this] show ?thesis
      using False r(1) w(1,2) by (auto simp: call_bind_def sys_now_def Let_def)
  qed
qed simp

section \<open>What the calls do not mean to do\<close>

text \<open>Any successful \<open>ioctlsocket\<close> with a value other than zero behind its pointer marks the socket as non-blocking, also a question for
  the number of readable bytes; from then on the hooked calls leave the blocking socket blocking.\<close>

lemma ioctlsocket_any_command:
  assumes "inner s = (Ok (0, Suc n), s1)"
  shows "\<exists>s'. nio_ioctlsocket inner fd s = (Ok (0, Suc n), s') \<and> \<not> win_is_blocking fd s'"
  using assms by (simp add: nio_ioctlsocket_def call_bind_def win_is_blocking_def win_is_non_blocking_def)

text \<open>Setting a time limit that is already known panics, after the kernel has taken the new value.\<close>

lemma win_setsockopt_twice_panics:
  assumes "inner s = (Ok 0, s1)" and "map_of (sy_send_limit s1) socket = Some l" and "0 \<le> ms"
  shows "fst (win_nio_setsockopt inner socket WIN_SOL_SOCKET WIN_SO_SNDTIMEO ms s) = Panic ''assertion failed''"
  using assms by (simp add: win_nio_setsockopt_def call_bind_def millis_limit_def Let_def)

text \<open>
  With completion ports an \<open>accept\<close> is suspended until the time limit itself, read as a point in time: any finite limit is long past.
\<close>

lemma iocp_accept_deadline:
  assumes "po_submit P s = (Some arc, s1)" and "cur_state s1 = Some (Cs_Syscall () Sn_accept Ss_Executing)"
    and "map_of (sy_recv_limit s1) fd = Some limit"
  shows "iocp_layer W (win_recv_time_limit W fd) (po_submit P) finish inner s
    = finish arc (cur_to (wn_env W) [Ss_Callback] Ss_Executing
        (cur_suspend (wn_env W) (cur_syscall (wn_env W) Sn_accept (Ss_Suspend limit) s1)))"
  using assms by (simp add: iocp_layer_def call_bind_def win_recv_time_limit_def)

text \<open>\<open>accept\<close> with a null pointer for the address, which WinSock allows, ends the process when it has succeeded.\<close>

lemma accept_null_address:
  assumes "po_result P arc s = (Some (int n), s1)" and "po_family P fd s1 = Some f"
  shows "fst (accept_finish P fd 0 arc s) = Panic ''segmentation fault''"
  using assms by (simp add: accept_finish_def)

text \<open>A refused connection on a blocking socket: the error of \<open>connect\<close> is lost to \<open>set_blocking\<close>.\<close>

definition refused :: "(unit, unit, kern, int) wcall" where
  "refused s = (Ok (- 1), set_errno 10061 s)"

definition no_conn :: "(unit, unit, kern win_world) conn_ops" where
  "no_conn = \<lparr>cn_getpeername = (\<lambda>fd s. (- 1, s)), cn_so_error = (\<lambda>fd s. ((0, 0), s))\<rparr>"

lemma connect_loses_error:
  "fst (win_nio_connect win_kern_env no_conn 5 3 refused (win_kern_sys [])) = Ok (- 1)
   \<and> sy_errno (snd (win_nio_connect win_kern_env no_conn 5 3 refused (win_kern_sys []))) = 5"
  by code_simp

section \<open>Properties\<close>

text \<open>
  C40. The caller of a hooked \<open>recv\<close> of Windows sees the error of the call that failed: if the system call fails with an error other than
  \<open>WSAEWOULDBLOCK\<close>, the hooked call returns \<open>SOCKET_ERROR\<close> and the last error is that error, whatever logging,
  the listeners and switching the socket back to blocking have left in its place.
\<close>

theorem win_recv_error_seen:
  assumes "\<And>s. \<exists>s1. win_raw fn_ptr win_fn (fd, buf, len, flags) s = (Ok SOCKET_ERROR, s1) \<and> sy_errno s1 = e"
    and "e \<noteq> WSAEWOULDBLOCK" and "0 \<le> e" and "e < 2 ^ 31" and "0 < len"
    and "map_of (sy_recv_limit s) fd = Some limit" and "limit \<noteq> 0" and "\<And>on v. fst (wn_fionbio W fd on v)"
  shows "\<exists>s'. win_recv W (Suc fuel) fn_ptr win_fn fd buf len flags s = (Ok SOCKET_ERROR, s') \<and> sy_errno s' = e"
proof -
  let ?s = "cur_syscall (wn_env W) Sn_recv Ss_Executing (win_log W s)"
  have lim: "map_of (sy_recv_limit ?s) fd = Some limit"
    using assms(6) by (simp add: cur_syscall_fields win_log_def set_errno_def)
  obtain s1 where "win_nio_read_buf W (Suc fuel) fd (\<lambda>b l. win_raw fn_ptr win_fn (fd, b, l, flags)) buf len ?s = (Ok SOCKET_ERROR, s1)"
    "sy_errno s1 = e"
    using win_recv_fails [of "\<lambda>b l. win_raw fn_ptr win_fn (fd, b, l, flags)" buf len e ?s fd limit W fuel] assms(1-5,7,8) lim by blast
  with assms(3,4) show ?thesis by (simp add: win_recv_def win_facade_def saved_errno_def set_errno_def)
qed

theorem win_recv_error_seen_witness:
  "\<exists>s'. win_recv win_kern_env (Suc 4) None (\<lambda>a s. (Ok SOCKET_ERROR, set_errno 10054 s)) 3 500 8 0 ((win_kern_sys [])\<lparr>sy_recv_limit := [(3, 1000)]\<rparr>)
     = (Ok SOCKET_ERROR, s') \<and> sy_errno s' = 10054"
  using win_recv_error_seen [of None "\<lambda>a s. (Ok SOCKET_ERROR, set_errno 10054 s)" 3 500 8 0 10054
      "(win_kern_sys [])\<lparr>sy_recv_limit := [(3, 1000)]\<rparr>" 1000 win_kern_env 4]
  by (simp add: win_raw_def set_errno_def WSAEWOULDBLOCK_def)

end
