(* ===== verification/OC_Selector.thy ===== *)
theory OC_Selector
  imports OC_Common "HOL-Library.AList"
begin

text \<open>
  \<^verbatim>\<open>core/src/net/selector/mod.rs\<close> and, for Unix, \<^verbatim>\<open>mio_adapter.rs\<close>: which descriptors the readiness
  poller of an event loop watches, and for whom. The tables are process-wide statics, the poller
  belongs to one event loop. The crate \<^verbatim>\<open>mio\<close> is a record of operations on a registry; what its
  documentation and that of \<open>epoll_ctl\<close> promise is the locale \<open>mio_registry\<close>.
\<close>

unbundle bit_operations_syntax

section \<open>Data\<close>

datatype interest = I_read | I_write | I_read_write

fun reads :: "interest \<Rightarrow> bool" where
  "reads I_read = True" | "reads I_write = False" | "reads I_read_write = True"

fun writes :: "interest \<Rightarrow> bool" where
  "writes I_read = False" | "writes I_write = True" | "writes I_read_write = True"

record event =
  ev_token :: u64
  ev_readable :: bool
  ev_writable :: bool

record 'p mio_ops =
  mi_register :: "int \<Rightarrow> u64 \<Rightarrow> interest \<Rightarrow> 'p \<Rightarrow> (error_kind, unit) rust \<times> 'p"
  mi_reregister :: "int \<Rightarrow> u64 \<Rightarrow> interest \<Rightarrow> 'p \<Rightarrow> (error_kind, unit) rust \<times> 'p"
  mi_deregister :: "int \<Rightarrow> 'p \<Rightarrow> (error_kind, unit) rust \<times> 'p"
  mi_poll :: "nat option \<Rightarrow> 'p \<Rightarrow> (error_kind, unit) rust \<times> event list \<times> 'p"

text \<open>
  The statics \<open>TOKEN_FD\<close>, \<open>READABLE_RECORDS\<close>, \<open>READABLE_TOKEN_RECORDS\<close>, \<open>WRITABLE_RECORDS\<close>,
  \<open>WRITABLE_TOKEN_RECORDS\<close>, and the fields of the \<open>Poller\<close> that is called.
\<close>

record 'p selector =
  sl_token_fd :: "(u64 \<times> int) list"
  sl_readable :: "int set"
  sl_readable_token :: "(int \<times> u64) list"
  sl_writable :: "int set"
  sl_writable_token :: "(int \<times> u64) list"
  sl_waiting :: bool
  sl_blocker :: bool
  sl_inner :: 'p

type_synonym 'p sel_result = "(error_kind, unit) rust \<times> 'p selector"

section \<open>The adapter for mio\<close>

text \<open>A token of 64 bits is folded into the 32 bits the poller is given.\<close>

definition fold_token :: "u64 \<Rightarrow> u64" where
  "fold_token token = ucast ((ucast (drop_bit 32 token) :: u32) XOR ucast token)"

definition do_register :: "'p mio_ops \<Rightarrow> int \<Rightarrow> u64 \<Rightarrow> interest \<Rightarrow> 'p selector \<Rightarrow> 'p sel_result" where
  "do_register M fd token i s =
     (case mi_register M fd (fold_token token) i (sl_inner s) of (r, p) \<Rightarrow> (r, s\<lparr>sl_inner := p\<rparr>))"

definition do_reregister :: "'p mio_ops \<Rightarrow> int \<Rightarrow> u64 \<Rightarrow> interest \<Rightarrow> 'p selector \<Rightarrow> 'p sel_result" where
  "do_reregister M fd token i s =
     (case mi_reregister M fd (fold_token token) i (sl_inner s) of (r, p) \<Rightarrow> (r, s\<lparr>sl_inner := p\<rparr>))"

definition do_deregister :: "'p mio_ops \<Rightarrow> int \<Rightarrow> 'p selector \<Rightarrow> 'p sel_result" where
  "do_deregister M fd s = (case mi_deregister M fd (sl_inner s) of (r, p) \<Rightarrow> (r, s\<lparr>sl_inner := p\<rparr>))"

definition do_select :: "'p mio_ops \<Rightarrow> nat option \<Rightarrow> 'p selector
    \<Rightarrow> (error_kind, unit) rust \<times> event list \<times> 'p selector" where
  "do_select M timeout s =
     (case mi_poll M timeout (sl_inner s) of (r, evs, p) \<Rightarrow> (r, evs, s\<lparr>sl_inner := p\<rparr>))"

section \<open>The trait \<open>Selector\<close>\<close>

definition and_then :: "'p sel_result \<Rightarrow> ('p selector \<Rightarrow> 'p sel_result) \<Rightarrow> 'p sel_result" where
  "and_then rs f = (case rs of (Ok u, s) \<Rightarrow> f s | (r, s) \<Rightarrow> (r, s))"

definition or_else :: "'p sel_result \<Rightarrow> ('p selector \<Rightarrow> 'p sel_result) \<Rightarrow> 'p sel_result" where
  "or_else rs f = (case rs of (Err e, s) \<Rightarrow> f s | (r, s) \<Rightarrow> (r, s))"

definition sl_register :: "'p mio_ops \<Rightarrow> int \<Rightarrow> u64 \<Rightarrow> interest \<Rightarrow> 'p selector \<Rightarrow> 'p sel_result" where
  "sl_register M fd token i s =
     and_then (do_register M fd token i s) (\<lambda>s. (Ok (), s\<lparr>sl_token_fd := AList.update token fd (sl_token_fd s)\<rparr>))"

definition sl_reregister :: "'p mio_ops \<Rightarrow> int \<Rightarrow> u64 \<Rightarrow> interest \<Rightarrow> 'p selector \<Rightarrow> 'p sel_result" where
  "sl_reregister M fd token i s =
     and_then (do_reregister M fd token i s) (\<lambda>s. (Ok (), s\<lparr>sl_token_fd := AList.update token fd (sl_token_fd s)\<rparr>))"

definition sl_deregister :: "'p mio_ops \<Rightarrow> int \<Rightarrow> u64 \<Rightarrow> 'p selector \<Rightarrow> 'p sel_result" where
  "sl_deregister M fd token s =
     and_then (do_deregister M fd s) (\<lambda>s. (Ok (), s\<lparr>sl_token_fd := AList.delete token (sl_token_fd s)\<rparr>))"

text \<open>The clean-up after a poll: an event consumes the tokens of its descriptor, or of descriptor 0.\<close>

definition consume_event :: "event \<Rightarrow> 'p selector \<Rightarrow> 'p selector" where
  "consume_event ev s =
     (let fd = (case map_of (sl_token_fd s) (ev_token ev) of None \<Rightarrow> 0 | Some fd \<Rightarrow> fd);
          s1 = s\<lparr>sl_token_fd := AList.delete (ev_token ev) (sl_token_fd s)\<rparr>;
          s2 = (if ev_readable ev then s1\<lparr>sl_readable_token := AList.delete fd (sl_readable_token s1)\<rparr> else s1)
      in if ev_writable ev then s2\<lparr>sl_writable_token := AList.delete fd (sl_writable_token s2)\<rparr> else s2)"

text \<open>A second thread that finds the poller in use waits on the blocker instead and gets no events.\<close>

definition sl_select :: "'p mio_ops \<Rightarrow> bool \<Rightarrow> nat option \<Rightarrow> 'p selector
    \<Rightarrow> (error_kind, unit) rust \<times> event list \<times> 'p selector" where
  "sl_select M notified timeout s =
     (if sl_waiting s then (Ok (), [], s\<lparr>sl_blocker := snd (blocker_block notified (sl_blocker s))\<rparr>)
      else case do_select M timeout (s\<lparr>sl_waiting := True\<rparr>) of
        (r, evs, s1) \<Rightarrow> (r, evs, fold consume_event evs (s1\<lparr>sl_waiting := False\<rparr>)))"

definition sl_add_read_event :: "'p mio_ops \<Rightarrow> int \<Rightarrow> u64 \<Rightarrow> 'p selector \<Rightarrow> 'p sel_result" where
  "sl_add_read_event M fd token s =
     (if fd \<in> sl_readable s then (Ok (), s)
      else and_then
        (if fd \<in> sl_writable s
         then or_else (sl_reregister M fd token I_read_write s) (sl_register M fd token I_read_write)
         else sl_register M fd token I_read s)
        (\<lambda>s. (Ok (), s\<lparr>sl_readable := insert fd (sl_readable s),
                       sl_readable_token := AList.update fd token (sl_readable_token s)\<rparr>)))"

definition sl_add_write_event :: "'p mio_ops \<Rightarrow> int \<Rightarrow> u64 \<Rightarrow> 'p selector \<Rightarrow> 'p sel_result" where
  "sl_add_write_event M fd token s =
     (if fd \<in> sl_writable s then (Ok (), s)
      else and_then
        (if fd \<in> sl_readable s
         then or_else (sl_reregister M fd token I_read_write s) (sl_register M fd token I_read_write)
         else sl_register M fd token I_write s)
        (\<lambda>s. (Ok (), s\<lparr>sl_writable := insert fd (sl_writable s),
                       sl_writable_token := AList.update fd token (sl_writable_token s)\<rparr>)))"

text \<open>
  \<open>Option::or\<close> evaluates its argument: both tokens are removed, and the reader's is preferred.
\<close>

definition sl_del_event :: "'p mio_ops \<Rightarrow> int \<Rightarrow> 'p selector \<Rightarrow> 'p sel_result" where
  "sl_del_event M fd s =
     (if fd \<in> sl_readable s \<or> fd \<in> sl_writable s
      then (let token = (case map_of (sl_readable_token s) fd of
                    Some t \<Rightarrow> t
                  | None \<Rightarrow> (case map_of (sl_writable_token s) fd of Some t \<Rightarrow> t | None \<Rightarrow> 0));
                s1 = s\<lparr>sl_readable_token := AList.delete fd (sl_readable_token s),
                       sl_writable_token := AList.delete fd (sl_writable_token s)\<rparr>
            in and_then (sl_deregister M fd token s1)
              (\<lambda>s. (Ok (), s\<lparr>sl_readable := sl_readable s - {fd}, sl_writable := sl_writable s - {fd}\<rparr>)))
      else (Ok (), s))"

definition sl_del_read_event :: "'p mio_ops \<Rightarrow> int \<Rightarrow> 'p selector \<Rightarrow> 'p sel_result" where
  "sl_del_read_event M fd s =
     (if fd \<in> sl_readable s
      then (if fd \<in> sl_writable s
            then (let token = (case map_of (sl_writable_token s) fd of Some t \<Rightarrow> t | None \<Rightarrow> 0)
                  in and_then (sl_reregister M fd token I_write s) (\<lambda>s.
                       if fd \<in> sl_readable s
                       then (Ok (), s\<lparr>sl_readable := sl_readable s - {fd},
                                      sl_readable_token := AList.delete fd (sl_readable_token s)\<rparr>)
                       else (Panic ''Clean READABLE_RECORDS failed !'', s)))
            else sl_del_event M fd s)
      else (Ok (), s))"

definition sl_del_write_event :: "'p mio_ops \<Rightarrow> int \<Rightarrow> 'p selector \<Rightarrow> 'p sel_result" where
  "sl_del_write_event M fd s =
     (if fd \<in> sl_writable s
      then (if fd \<in> sl_readable s
            then (let token = (case map_of (sl_readable_token s) fd of Some t \<Rightarrow> t | None \<Rightarrow> 0)
                  in and_then (sl_reregister M fd token I_read s) (\<lambda>s.
                       if fd \<in> sl_writable s
                       then (Ok (), s\<lparr>sl_writable := sl_writable s - {fd},
                                      sl_writable_token := AList.delete fd (sl_writable_token s)\<rparr>)
                       else (Panic ''Clean WRITABLE_RECORDS failed !'', s)))
            else sl_del_event M fd s)
      else (Ok (), s))"

subsection \<open>Several event loops\<close>

text \<open>
  The tables are process-wide, the pollers are one per loop: \<open>ps\<close> are the pollers in the order of the loops,
  and a selector is the tables with one of them. The manager's deletions work on the loop of the current
  thread or, outside of one, on every loop until one fails.
\<close>

fun loops_each ::
  "('p selector \<Rightarrow> 'p sel_result) \<Rightarrow> 'p list \<Rightarrow> 'p selector \<Rightarrow> (error_kind, unit) rust \<times> 'p list \<times> 'p selector" where
  "loops_each f [] s = (Ok (), [], s)"
| "loops_each f (p # ps) s =
     (case f (s\<lparr>sl_inner := p\<rparr>) of
        (Ok u, s1) \<Rightarrow> (case loops_each f ps s1 of (r, ps1, s2) \<Rightarrow> (r, sl_inner s1 # ps1, s2))
      | (r, s1) \<Rightarrow> (r, sl_inner s1 # ps, s1))"

definition loops_del ::
  "('p selector \<Rightarrow> 'p sel_result) \<Rightarrow> nat option \<Rightarrow> 'p list \<Rightarrow> 'p selector
    \<Rightarrow> (error_kind, unit) rust \<times> 'p list \<times> 'p selector" where
  "loops_del f current ps s =
     (case current of
        Some i \<Rightarrow> (case f (s\<lparr>sl_inner := ps ! i\<rparr>) of (r, s1) \<Rightarrow> (r, ps[i := sl_inner s1], s1))
      | None \<Rightarrow> loops_each f ps s)"

definition loops_del_event where
  "loops_del_event M fd = loops_del (sl_del_event M fd)"

definition loops_del_read_event where
  "loops_del_read_event M fd = loops_del (sl_del_read_event M fd)"

definition loops_del_write_event where
  "loops_del_write_event M fd = loops_del (sl_del_write_event M fd)"

section \<open>What the poller promises\<close>

text \<open>
  The registry of a poller: the token and the interest of every descriptor it watches. A
  registration needs a descriptor that is not watched, a change one that is; both may fail for other
  reasons, and then nothing changes. Polling leaves the registry alone and reports only tokens
  that are in it.
\<close>

locale mio_registry =
  fixes M :: "'p mio_ops" and reg :: "'p \<Rightarrow> int \<Rightarrow> (u64 \<times> interest) option"
  assumes register_law: "mi_register M fd t i p = (r, p') \<Longrightarrow>
      r = Ok () \<and> reg p fd = None \<and> reg p' = (reg p)(fd \<mapsto> (t, i)) \<or> (\<exists>e. r = Err e) \<and> reg p' = reg p"
    and reregister_law: "mi_reregister M fd t i p = (r, p') \<Longrightarrow>
      r = Ok () \<and> reg p fd \<noteq> None \<and> reg p' = (reg p)(fd \<mapsto> (t, i)) \<or> (\<exists>e. r = Err e) \<and> reg p' = reg p"
    and deregister_law: "mi_deregister M fd p = (r, p') \<Longrightarrow>
      r = Ok () \<and> reg p' = (reg p)(fd := None) \<or> (\<exists>e. r = Err e) \<and> reg p' = reg p"
    and poll_law: "mi_poll M d p = (r, evs, p') \<Longrightarrow> (r = Ok () \<or> (\<exists>e. r = Err e)) \<and> reg p' = reg p
      \<and> (\<forall>ev\<in>set evs. \<exists>fd i. reg p fd = Some (ev_token ev, i)
           \<and> (ev_readable ev \<longrightarrow> reads i) \<and> (ev_writable ev \<longrightarrow> writes i))"

text \<open>Abstractly a selector is two sets of descriptors, watched for reading and for writing.\<close>

datatype sel_op =
    Op_add_read int u64 | Op_add_write int u64 | Op_del int | Op_del_read int | Op_del_write int
  | Op_select bool "nat option"

fun sel_apply :: "'p mio_ops \<Rightarrow> sel_op \<Rightarrow> 'p selector \<Rightarrow> 'p sel_result" where
  "sel_apply M (Op_add_read fd t) s = sl_add_read_event M fd t s"
| "sel_apply M (Op_add_write fd t) s = sl_add_write_event M fd t s"
| "sel_apply M (Op_del fd) s = sl_del_event M fd s"
| "sel_apply M (Op_del_read fd) s = sl_del_read_event M fd s"
| "sel_apply M (Op_del_write fd) s = sl_del_write_event M fd s"
| "sel_apply M (Op_select notified d) s = (case sl_select M notified d s of (r, evs, s') \<Rightarrow> (r, s'))"

fun watch_spec :: "sel_op \<Rightarrow> int set \<times> int set \<Rightarrow> int set \<times> int set" where
  "watch_spec (Op_add_read fd t) (R, W) = (insert fd R, W)"
| "watch_spec (Op_add_write fd t) (R, W) = (R, insert fd W)"
| "watch_spec (Op_del fd) (R, W) = (R - {fd}, W - {fd})"
| "watch_spec (Op_del_read fd) (R, W) = (R - {fd}, W)"
| "watch_spec (Op_del_write fd) (R, W) = (R, W - {fd})"
| "watch_spec (Op_select notified d) (R, W) = (R, W)"

definition watched :: "'p selector \<Rightarrow> int set \<times> int set" where
  "watched s = (sl_readable s, sl_writable s)"

definition mirrors :: "('p \<Rightarrow> int \<Rightarrow> (u64 \<times> interest) option) \<Rightarrow> 'p selector \<Rightarrow> bool" where
  "mirrors reg s \<longleftrightarrow> (\<forall>fd.
     (fd \<in> sl_readable s \<longleftrightarrow> (\<exists>t i. reg (sl_inner s) fd = Some (t, i) \<and> reads i)) \<and>
     (fd \<in> sl_writable s \<longleftrightarrow> (\<exists>t i. reg (sl_inner s) fd = Some (t, i) \<and> writes i)))"

text \<open>Any sequence of operations from a selector, and those of them that succeeded.\<close>

inductive sel_reach :: "'p mio_ops \<Rightarrow> 'p selector \<Rightarrow> sel_op list \<Rightarrow> 'p selector \<Rightarrow> bool"
  for M :: "'p mio_ops" and s0 :: "'p selector" where
  sel_start: "sel_reach M s0 [] s0"
| sel_done: "sel_reach M s0 ops s \<Longrightarrow> sel_apply M op s = (Ok (), s') \<Longrightarrow> sel_reach M s0 (ops @ [op]) s'"
| sel_failed: "sel_reach M s0 ops s \<Longrightarrow> sel_apply M op s = (r, s') \<Longrightarrow> r \<noteq> Ok () \<Longrightarrow> sel_reach M s0 ops s'"

section \<open>Lemmas\<close>

lemma sel_step:
  "sel_reach M s0 ops s \<Longrightarrow> fst (sel_apply M op s) = Ok () \<Longrightarrow> sel_reach M s0 (ops @ [op]) (snd (sel_apply M op s))"
  by (rule sel_done) (auto simp: prod_eq_iff)

lemma fold_token_fixed: "fold_token t = t \<longleftrightarrow> unat t < 2 ^ 32"
proof
  assume "fold_token t = t"
  then have "t = ucast ((ucast (drop_bit 32 t) :: u32) XOR ucast t)" by (simp add: fold_token_def)
  also have "unat \<dots> \<le> unat ((ucast (drop_bit 32 t) :: u32) XOR ucast t)"
    by (simp add: unsigned_ucast_eq take_bit_nat_less_eq_self)
  also have "\<dots> < 2 ^ 32"
    using unsigned_less [of "(ucast (drop_bit 32 t) :: u32) XOR ucast t", where ?'a = nat] by simp
  finally show "unat t < 2 ^ 32" .
next
  assume "unat t < 2 ^ 32"
  then have z: "drop_bit 32 t = 0" and m: "take_bit 32 t = t"
    by (auto simp: unat_eq_0 [symmetric] unat_drop_bit_eq drop_bit_eq_div word_unat_eq_iff take_bit_eq_mod
      unat_div_distrib unat_mod_distrib)
  show "fold_token t = t" using m by (simp add: fold_token_def z unsigned_ucast_eq)
qed

lemma watched_sel [simp]:
  "fst (watched s) = sl_readable s" "snd (watched s) = sl_writable s"
  by (simp_all add: watched_def)

lemma consume_event_frame [simp]:
  "sl_readable (consume_event ev s) = sl_readable s" "sl_writable (consume_event ev s) = sl_writable s"
  "sl_inner (consume_event ev s) = sl_inner s"
  by (simp_all add: consume_event_def Let_def)

lemma fold_consume_frame [simp]:
  "sl_readable (fold consume_event evs s) = sl_readable s" "sl_writable (fold consume_event evs s) = sl_writable s"
  "sl_inner (fold consume_event evs s) = sl_inner s"
  by (induction evs arbitrary: s) simp_all

lemma mirrors_cong:
  "sl_readable s' = sl_readable s \<Longrightarrow> sl_writable s' = sl_writable s \<Longrightarrow> reg (sl_inner s') = reg (sl_inner s) \<Longrightarrow>
    mirrors reg s' = mirrors reg s"
  by (simp add: mirrors_def)

definition answers :: "'p sel_result \<Rightarrow> bool" where
  "answers rs \<longleftrightarrow> fst rs = Ok () \<or> (\<exists>e. fst rs = Err e)"

lemma and_then_answers: "answers rs \<Longrightarrow> (\<And>s. answers (f s)) \<Longrightarrow> answers (and_then rs f)"
  by (cases rs; cases "fst rs") (auto simp: answers_def and_then_def)

lemma or_else_answers: "answers rs \<Longrightarrow> (\<And>s. answers (f s)) \<Longrightarrow> answers (or_else rs f)"
  by (cases rs; cases "fst rs") (auto simp: answers_def or_else_def)

context mio_registry
begin

text \<open>What an operation may do: succeed as specified, or fail and leave what is watched alone.\<close>

definition outcome :: "(int set \<times> int set \<Rightarrow> int set \<times> int set) \<Rightarrow> 'p selector \<Rightarrow> 'p sel_result \<Rightarrow> bool" where
  "outcome f s rs \<longleftrightarrow> (case rs of (r, s') \<Rightarrow> mirrors reg s' \<and>
     (r = Ok () \<and> watched s' = f (watched s) \<or> (\<exists>e. r = Err e) \<and> watched s' = watched s))"

lemma register_cases:
  obtains (ok) p where "sl_register M fd t i s = (Ok (), s\<lparr>sl_inner := p, sl_token_fd := AList.update t fd (sl_token_fd s)\<rparr>)"
      "reg (sl_inner s) fd = None" "reg p = (reg (sl_inner s))(fd \<mapsto> (fold_token t, i))"
  | (err) e p where "sl_register M fd t i s = (Err e, s\<lparr>sl_inner := p\<rparr>)" "reg p = reg (sl_inner s)"
proof -
  obtain r p where "mi_register M fd (fold_token t) i (sl_inner s) = (r, p)" by fastforce
  with register_law [OF this] that show ?thesis
    by (auto simp: sl_register_def do_register_def and_then_def)
qed

lemma reregister_cases:
  obtains (ok) p where "sl_reregister M fd t i s = (Ok (), s\<lparr>sl_inner := p, sl_token_fd := AList.update t fd (sl_token_fd s)\<rparr>)"
      "reg (sl_inner s) fd \<noteq> None" "reg p = (reg (sl_inner s))(fd \<mapsto> (fold_token t, i))"
  | (err) e p where "sl_reregister M fd t i s = (Err e, s\<lparr>sl_inner := p\<rparr>)" "reg p = reg (sl_inner s)"
proof -
  obtain r p where "mi_reregister M fd (fold_token t) i (sl_inner s) = (r, p)" by fastforce
  with reregister_law [OF this] that show ?thesis
    by (auto simp: sl_reregister_def do_reregister_def and_then_def)
qed

lemma deregister_cases:
  obtains (ok) p where "sl_deregister M fd t s = (Ok (), s\<lparr>sl_inner := p, sl_token_fd := AList.delete t (sl_token_fd s)\<rparr>)"
      "reg p = (reg (sl_inner s))(fd := None)"
  | (err) e p where "sl_deregister M fd t s = (Err e, s\<lparr>sl_inner := p\<rparr>)" "reg p = reg (sl_inner s)"
proof -
  obtain r p where "mi_deregister M fd (sl_inner s) = (r, p)" by fastforce
  with deregister_law [OF this] that show ?thesis
    by (auto simp: sl_deregister_def do_deregister_def and_then_def)
qed


lemma add_answers:
  "answers (sl_add_read_event M fd t s)" "answers (sl_add_write_event M fd t s)"
proof -
  have reg: "answers (sl_register M fd t i s)" for i s
    by (cases rule: register_cases [of fd t i s]) (auto simp: answers_def)
  have re: "answers (sl_reregister M fd t i s)" for i s
    by (cases rule: reregister_cases [of fd t i s]) (auto simp: answers_def)
  have ok: "answers (Ok (), s')" for s' :: "'p selector" by (simp add: answers_def)
  show "answers (sl_add_read_event M fd t s)" "answers (sl_add_write_event M fd t s)"
    unfolding sl_add_read_event_def sl_add_write_event_def
    using and_then_answers [OF or_else_answers [OF re reg] ok] and_then_answers [OF reg ok] ok by auto
qed

lemma add_read_registers:
  assumes "fd \<notin> sl_readable s" and "fd \<notin> sl_writable s" and "sl_add_read_event M fd t s = (Ok (), s')"
  shows "reg (sl_inner s') fd = Some (fold_token t, I_read)"
proof -
  have eq: "sl_add_read_event M fd t s = and_then (sl_register M fd t I_read s) (\<lambda>s. (Ok (),
      s\<lparr>sl_readable := insert fd (sl_readable s), sl_readable_token := AList.update fd t (sl_readable_token s)\<rparr>))"
    using assms(1,2) by (simp add: sl_add_read_event_def)
  show ?thesis
  proof (cases rule: register_cases [of fd t I_read s])
    case (ok p)
    with assms(3) show ?thesis unfolding eq by (auto simp: and_then_def)
  next
    case (err e p)
    with assms(3) show ?thesis unfolding eq by (simp add: and_then_def)
  qed
qed

lemma add_read_outcome:
  assumes "mirrors reg s"
  shows "outcome (watch_spec (Op_add_read fd t)) s (sl_add_read_event M fd t s)"
proof (cases "fd \<in> sl_readable s")
  case True
  with assms show ?thesis by (auto simp: outcome_def sl_add_read_event_def watched_def)
next
  case False
  show ?thesis
  proof (cases "fd \<in> sl_writable s")
    case W: True
    with assms obtain t' i where r: "reg (sl_inner s) fd = Some (t', i)" "writes i"
      by (auto simp: mirrors_def)
    show ?thesis
    proof (cases rule: reregister_cases [of fd t I_read_write s])
      case (ok p)
      with False W assms show ?thesis
        by (auto simp: outcome_def sl_add_read_event_def or_else_def and_then_def watched_def mirrors_def)
    next
      case (err e p)
      show ?thesis
        by (cases rule: register_cases [of fd t I_read_write "s\<lparr>sl_inner := p\<rparr>"])
          (use err r False W assms in
            \<open>auto simp: outcome_def sl_add_read_event_def or_else_def and_then_def watched_def mirrors_def\<close>)
    qed
  next
    case W: False
    show ?thesis
      by (cases rule: register_cases [of fd t I_read s])
        (use False W assms in \<open>auto simp: outcome_def sl_add_read_event_def and_then_def watched_def mirrors_def\<close>)
  qed
qed

lemma add_write_outcome:
  assumes "mirrors reg s"
  shows "outcome (watch_spec (Op_add_write fd t)) s (sl_add_write_event M fd t s)"
proof (cases "fd \<in> sl_writable s")
  case True
  with assms show ?thesis by (auto simp: outcome_def sl_add_write_event_def watched_def)
next
  case False
  show ?thesis
  proof (cases "fd \<in> sl_readable s")
    case W: True
    with assms obtain t' i where r: "reg (sl_inner s) fd = Some (t', i)" "reads i"
      by (auto simp: mirrors_def)
    show ?thesis
    proof (cases rule: reregister_cases [of fd t I_read_write s])
      case (ok p)
      with False W assms show ?thesis
        by (auto simp: outcome_def sl_add_write_event_def or_else_def and_then_def watched_def mirrors_def)
    next
      case (err e p)
      show ?thesis
        by (cases rule: register_cases [of fd t I_read_write "s\<lparr>sl_inner := p\<rparr>"])
          (use err r False W assms in
            \<open>auto simp: outcome_def sl_add_write_event_def or_else_def and_then_def watched_def mirrors_def\<close>)
    qed
  next
    case W: False
    show ?thesis
      by (cases rule: register_cases [of fd t I_write s])
        (use False W assms in \<open>auto simp: outcome_def sl_add_write_event_def and_then_def watched_def mirrors_def\<close>)
  qed
qed

lemma del_outcome:
  assumes "mirrors reg s"
  shows "outcome (watch_spec (Op_del fd)) s (sl_del_event M fd s)"
proof (cases "fd \<in> sl_readable s \<or> fd \<in> sl_writable s")
  case False
  with assms show ?thesis by (auto simp: outcome_def sl_del_event_def watched_def)
next
  case True
  define tk where "tk = (case map_of (sl_readable_token s) fd of Some t \<Rightarrow> t
    | None \<Rightarrow> (case map_of (sl_writable_token s) fd of Some t \<Rightarrow> t | None \<Rightarrow> 0))"
  define s1 where "s1 = s\<lparr>sl_readable_token := AList.delete fd (sl_readable_token s),
                       sl_writable_token := AList.delete fd (sl_writable_token s)\<rparr>"
  have eq: "sl_del_event M fd s = and_then (sl_deregister M fd tk s1)
      (\<lambda>s. (Ok (), s\<lparr>sl_readable := sl_readable s - {fd}, sl_writable := sl_writable s - {fd}\<rparr>))"
    using True by (simp add: sl_del_event_def s1_def tk_def)
  show ?thesis
    by (cases rule: deregister_cases [of fd tk s1])
      (use assms in \<open>auto simp: eq outcome_def and_then_def watched_def mirrors_def s1_def\<close>)
qed

lemma del_read_outcome:
  assumes "mirrors reg s"
  shows "outcome (watch_spec (Op_del_read fd)) s (sl_del_read_event M fd s)"
proof (cases "fd \<in> sl_readable s \<and> fd \<in> sl_writable s")
  case True
  then show ?thesis
    by (cases rule: reregister_cases [of fd "case map_of (sl_writable_token s) fd of Some t \<Rightarrow> t | None \<Rightarrow> 0" I_write s])
      (use assms in \<open>auto simp: outcome_def sl_del_read_event_def and_then_def watched_def mirrors_def\<close>)
next
  case False
  show ?thesis
  proof (cases "fd \<in> sl_readable s")
    case True
    with False have "watch_spec (Op_del_read fd) (watched s) = watch_spec (Op_del fd) (watched s)"
      by (auto simp: watched_def)
    with del_outcome [OF assms, of fd] True False show ?thesis by (simp add: outcome_def sl_del_read_event_def)
  qed (use assms in \<open>auto simp: outcome_def sl_del_read_event_def watched_def\<close>)
qed

lemma del_write_outcome:
  assumes "mirrors reg s"
  shows "outcome (watch_spec (Op_del_write fd)) s (sl_del_write_event M fd s)"
proof (cases "fd \<in> sl_readable s \<and> fd \<in> sl_writable s")
  case True
  then show ?thesis
    by (cases rule: reregister_cases [of fd "case map_of (sl_readable_token s) fd of Some t \<Rightarrow> t | None \<Rightarrow> 0" I_read s])
      (use assms in \<open>auto simp: outcome_def sl_del_write_event_def and_then_def watched_def mirrors_def\<close>)
next
  case False
  show ?thesis
  proof (cases "fd \<in> sl_writable s")
    case True
    with False have "watch_spec (Op_del_write fd) (watched s) = watch_spec (Op_del fd) (watched s)"
      by (auto simp: watched_def)
    with del_outcome [OF assms, of fd] True False show ?thesis by (simp add: outcome_def sl_del_write_event_def)
  qed (use assms in \<open>auto simp: outcome_def sl_del_write_event_def watched_def\<close>)
qed

lemma select_outcome:
  assumes "mirrors reg s"
  shows "outcome (watch_spec (Op_select notified d)) s (sel_apply M (Op_select notified d) s)"
proof (cases "sl_waiting s")
  case True
  with assms show ?thesis by (simp add: outcome_def sl_select_def watched_def mirrors_def)
next
  case False
  obtain r evs p where "mi_poll M d (sl_inner s) = (r, evs, p)" using prod_cases3 by blast
  with poll_law [OF this] False assms show ?thesis
    by (auto simp: outcome_def sl_select_def do_select_def watched_def mirrors_def)
qed

lemma apply_outcome: "mirrors reg s \<Longrightarrow> outcome (watch_spec op) s (sel_apply M op s)"
  using add_read_outcome add_write_outcome del_outcome del_read_outcome del_write_outcome select_outcome
  by (cases op) simp_all

lemma reach_watched:
  assumes "sel_reach M s0 ops s" and "mirrors reg s0"
  shows "mirrors reg s \<and> watched s = fold watch_spec ops (watched s0)"
  using assms(1)
proof induction
  case (sel_done ops s op s')
  with apply_outcome [of s op] show ?case by (auto simp: outcome_def)
next
  case (sel_failed ops s op r s')
  with apply_outcome [of s op] show ?case by (auto simp: outcome_def)
qed (use assms(2) in simp)

end

section \<open>A registry to run\<close>

text \<open>\<open>epoll\<close>: an interest list, and which descriptors are ready.\<close>

record epoll =
  ep_list :: "(int \<times> u64 \<times> interest) list"
  ep_readable :: "int list"
  ep_writable :: "int list"

definition epoll_event_of :: "epoll \<Rightarrow> int \<times> u64 \<times> interest \<Rightarrow> event" where
  "epoll_event_of p e = (case e of (fd, t, i) \<Rightarrow>
     \<lparr>ev_token = t, ev_readable = reads i \<and> fd \<in> set (ep_readable p),
      ev_writable = writes i \<and> fd \<in> set (ep_writable p)\<rparr>)"

definition epoll_mio :: "epoll mio_ops" where
  "epoll_mio =
     \<lparr>mi_register = (\<lambda>fd t i p. if map_of (ep_list p) fd = None
        then (Ok (), p\<lparr>ep_list := AList.update fd (t, i) (ep_list p)\<rparr>) else (Err EK_Other, p)),
      mi_reregister = (\<lambda>fd t i p. if map_of (ep_list p) fd = None
        then (Err EK_Other, p) else (Ok (), p\<lparr>ep_list := AList.update fd (t, i) (ep_list p)\<rparr>)),
      mi_deregister = (\<lambda>fd p. if map_of (ep_list p) fd = None
        then (Err EK_Other, p) else (Ok (), p\<lparr>ep_list := AList.delete fd (ep_list p)\<rparr>)),
      mi_poll = (\<lambda>d p. (Ok (), filter (\<lambda>ev. ev_readable ev \<or> ev_writable ev)
        (map (\<lambda>fd. epoll_event_of p (fd, the (map_of (ep_list p) fd))) (remdups (map fst (ep_list p)))), p))\<rparr>"

definition epoll_reg :: "epoll \<Rightarrow> int \<Rightarrow> (u64 \<times> interest) option" where
  "epoll_reg p = map_of (ep_list p)"

interpretation epoll: mio_registry epoll_mio epoll_reg
proof
  fix d p r evs p'
  assume "mi_poll epoll_mio d p = (r, evs, p')"
  then have eq: "r = Ok ()" "p' = p" "set evs \<subseteq> (\<lambda>fd. epoll_event_of p (fd, the (map_of (ep_list p) fd))) ` fst ` set (ep_list p)"
    by (auto simp: epoll_mio_def)
  have "\<exists>fd i. epoll_reg p fd = Some (ev_token ev, i) \<and> (ev_readable ev \<longrightarrow> reads i) \<and> (ev_writable ev \<longrightarrow> writes i)"
    if "ev \<in> set evs" for ev
  proof -
    from that eq(3) obtain fd where fd: "fd \<in> fst ` set (ep_list p)" "ev = epoll_event_of p (fd, the (map_of (ep_list p) fd))"
      by blast
    from fd(1) obtain t i where "map_of (ep_list p) fd = Some (t, i)"
      by (metis dom_map_of_conv_image_fst domD surj_pair)
    with fd(2) show ?thesis by (intro exI [of _ fd] exI [of _ i]) (simp add: epoll_event_of_def epoll_reg_def)
  qed
  with eq(1,2) show "(r = Ok () \<or> (\<exists>e. r = Err e)) \<and> epoll_reg p' = epoll_reg p
      \<and> (\<forall>ev\<in>set evs. \<exists>fd i. epoll_reg p fd = Some (ev_token ev, i)
           \<and> (ev_readable ev \<longrightarrow> reads i) \<and> (ev_writable ev \<longrightarrow> writes i))"
    by blast
qed (auto simp: epoll_mio_def epoll_reg_def AList.update_conv' AList.delete_conv' split: if_splits)

definition epoll_selector :: "int list \<Rightarrow> int list \<Rightarrow> epoll selector" where
  "epoll_selector rd wr =
     \<lparr>sl_token_fd = [], sl_readable = {}, sl_readable_token = [], sl_writable = {}, sl_writable_token = [],
      sl_waiting = False, sl_blocker = False, sl_inner = \<lparr>ep_list = [], ep_readable = rd, ep_writable = wr\<rparr>\<rparr>"

text \<open>
  With two loops the tables are no longer the truth: a descriptor watched by the second loop only is
  deregistered from the first by a deletion outside of the loops, which fails; the second keeps it, and
  its token is gone.
\<close>

lemma delete_misses_second_loop:
  "let (r, s1) = sl_add_read_event epoll_mio 5 7 (epoll_selector [] []);
       (r2, ps, s2) = loops_del_event epoll_mio 5 None [sl_inner (epoll_selector [] []), sl_inner s1] s1
   in r = Ok () \<and> r2 = Err EK_Other \<and> map (\<lambda>p. epoll_reg p 5) ps = [None, Some (7, I_read)]
      \<and> map_of (sl_readable_token s2) 5 = None"
  by code_simp

section \<open>Properties\<close>

text \<open>
  C30. The tables of the selector are the truth about its poller: after any sequence of operations,
  some of which may have failed, the descriptors recorded as readable and writable are those the
  poller watches for it, and they are the ones the successful operations ask for; no operation
  panics.
\<close>

theorem selector_refines_watch:
  assumes "mio_registry M reg" and "watched s0 = ({}, {})" and "reg (sl_inner s0) = (\<lambda>fd. None)"
    and "sel_reach M s0 ops s"
  shows "mirrors reg s \<and> watched s = fold watch_spec ops ({}, {}) \<and> answers (sel_apply M op s)"
proof -
  have "mirrors reg s0" using assms(2,3) by (simp add: mirrors_def watched_def)
  from mio_registry.reach_watched [OF assms(1,4) this]
  have m: "mirrors reg s" and w: "watched s = fold watch_spec ops ({}, {})" by (simp_all add: assms(2))
  have "answers (sel_apply M op s)"
    using mio_registry.apply_outcome [OF assms(1) m, of op]
    by (auto simp: mio_registry.outcome_def [OF assms(1)] answers_def split: prod.splits)
  with m w show ?thesis by blast
qed

theorem selector_refines_watch_witness:
  "\<exists>s. sel_reach epoll_mio (epoll_selector [5] []) [Op_add_read 5 7, Op_add_write 5 8, Op_del_read 5] s
     \<and> watched s = ({}, {5}) \<and> mirrors epoll_reg s"
proof -
  let ?a = "\<lambda>op s. snd (sel_apply epoll_mio op s)" and ?init = "epoll_selector [5] []"
  let ?one = "?a (Op_add_read 5 7) ?init" and ?last = "?a (Op_del_read 5) (?a (Op_add_write 5 8) (?a (Op_add_read 5 7) ?init))"
  have ok: "fst (sel_apply epoll_mio (Op_add_read 5 7) ?init) = Ok ()"
    "fst (sel_apply epoll_mio (Op_add_write 5 8) ?one) = Ok ()"
    "fst (sel_apply epoll_mio (Op_del_read 5) (?a (Op_add_write 5 8) ?one)) = Ok ()"
    by code_simp+
  have r: "sel_reach epoll_mio ?init [Op_add_read 5 7, Op_add_write 5 8, Op_del_read 5] ?last"
    using sel_step [OF sel_step [OF sel_step [OF sel_start ok(1)] ok(2)] ok(3)] by simp
  have "watched (epoll_selector [5] []) = ({}, {})" "epoll_reg (sl_inner (epoll_selector [5] [])) = (\<lambda>fd. None)"
    by (simp_all add: epoll_selector_def epoll_reg_def watched_def)
  from selector_refines_watch [OF epoll.mio_registry_axioms this r] r show ?thesis by auto
qed

end
