(* ===== verification/OC_Event_Loop.thy ===== *)
theory OC_Event_Loop
  imports OC_Nio OC_Selector
begin

text \<open>
  \<^verbatim>\<open>core/src/net/event_loop.rs\<close> and the waits of \<^verbatim>\<open>core/src/net/mod.rs\<close>: how a coroutine waits for a
  descriptor, a deadline or the completion of a submitted operation, and how events and
  completions lead back to it. The state is that of a system call (\<open>OC_Nio\<close>) whose world holds the
  selector, the tokens of waiting coroutines, the completion operator and the table of pending
  operations. Threads, life cycle and the pool inside the loop are in \<open>OC_Event_Loops\<close>.
\<close>

section \<open>State and environment\<close>

record ('p, 'o, 'v) net =
  nt_selector :: "'p selector"
  nt_coroutine_tokens :: "u64 set"
  nt_operator :: 'o
  nt_wait_table :: "(u64 \<times> nat) list"
  nt_arcs :: "int option list"
  nt_sched :: 'v

text \<open>
  \<open>ne_select\<close> is \<open>select\<close> of the completion operator, present if the crate is built with the feature and
  the kernel supports it: completions with their tokens, and the time that is left. \<open>ne_push\<close> prepares
  and submits one operation, its arguments fixed. \<open>ne_try_resume\<close> is \<open>try_resume\<close> of the scheduler.
\<close>

record ('p, 'o, 'v) net_env =
  ne_os :: target_os
  ne_mio :: "'p mio_ops"
  ne_notified :: bool
  ne_thread_token :: "syscall_name \<Rightarrow> u64"
  ne_select :: "(nat option \<Rightarrow> 'o \<Rightarrow> (error_kind, (u64 \<times> int) list \<times> nat option) rust \<times> 'o) option"
  ne_push :: "u64 \<Rightarrow> 'o \<Rightarrow> (error_kind, unit) rust \<times> 'o"
  ne_try_resume :: "u64 \<Rightarrow> 'v \<Rightarrow> (error_kind, 'v) rust"

type_synonym ('k, 'l, 'p, 'o, 'v, 'a) net_call = "('k, 'l, ('p, 'o, 'v) net, 'a) call"

section \<open>Tokens and interests\<close>

text \<open>A coroutine waits under its own id, a thread under a hash of itself and the call.\<close>

definition el_token :: "('p, 'o, 'v) net_env \<Rightarrow> syscall_name \<Rightarrow> ('k, 'l, 'p, 'o, 'v, u64) net_call" where
  "el_token N n s =
     (case sy_co s of
        Some co \<Rightarrow> (Ok (co_id co), on_world (\<lambda>w. w\<lparr>nt_coroutine_tokens := insert (co_id co) (nt_coroutine_tokens w)\<rparr>) s)
      | None \<Rightarrow> (Ok (ne_thread_token N n), s))"

definition on_selector :: "('p selector \<Rightarrow> 'p sel_result) \<Rightarrow> ('k, 'l, 'p, 'o, 'v, unit) net_call" where
  "on_selector f s = (case f (nt_selector (sy_world s)) of (r, sel) \<Rightarrow> (r, on_world (\<lambda>w. w\<lparr>nt_selector := sel\<rparr>) s))"

definition el_add_read_event :: "('p, 'o, 'v) net_env \<Rightarrow> int \<Rightarrow> ('k, 'l, 'p, 'o, 'v, unit) net_call" where
  "el_add_read_event N fd =
     call_bind (el_token N (nio (ne_os N))) (\<lambda>token. on_selector (sl_add_read_event (ne_mio N) fd token))"

definition el_add_write_event :: "('p, 'o, 'v) net_env \<Rightarrow> int \<Rightarrow> ('k, 'l, 'p, 'o, 'v, unit) net_call" where
  "el_add_write_event N fd =
     call_bind (el_token N (nio (ne_os N))) (\<lambda>token. on_selector (sl_add_write_event (ne_mio N) fd token))"

definition el_del_event :: "('p, 'o, 'v) net_env \<Rightarrow> int \<Rightarrow> ('k, 'l, 'p, 'o, 'v, unit) net_call" where
  "el_del_event N fd = on_selector (sl_del_event (ne_mio N) fd)"

definition el_del_read_event :: "('p, 'o, 'v) net_env \<Rightarrow> int \<Rightarrow> ('k, 'l, 'p, 'o, 'v, unit) net_call" where
  "el_del_read_event N fd = on_selector (sl_del_read_event (ne_mio N) fd)"

definition el_del_write_event :: "('p, 'o, 'v) net_env \<Rightarrow> int \<Rightarrow> ('k, 'l, 'p, 'o, 'v, unit) net_call" where
  "el_del_write_event N fd = on_selector (sl_del_write_event (ne_mio N) fd)"

section \<open>Waking up\<close>

definition el_resume :: "('p, 'o, 'v) net_env \<Rightarrow> u64 \<Rightarrow> ('k, 'l, 'p, 'o, 'v, unit) net_call" where
  "el_resume N token s =
     (if token \<notin> nt_coroutine_tokens (sy_world s) then (Ok (), s)
      else (let s1 = on_world (\<lambda>w. w\<lparr>nt_coroutine_tokens := nt_coroutine_tokens w - {token}\<rparr>) s
            in case ne_try_resume N token (nt_sched (sy_world s1)) of
                 Ok v \<Rightarrow> (Ok (), on_world (\<lambda>w. w\<lparr>nt_sched := v\<rparr>) s1)
               | Err e \<Rightarrow> (Err e, s1)
               | Panic m \<Rightarrow> (Panic m, s1)
               | Hang \<Rightarrow> (Hang, s1)))"

fun el_dispatch_events :: "('p, 'o, 'v) net_env \<Rightarrow> event list \<Rightarrow> ('k, 'l, 'p, 'o, 'v, unit) net_call" where
  "el_dispatch_events N [] = Pair (Ok ())"
| "el_dispatch_events N (ev # evs) =
     call_bind (if ev_readable ev \<or> ev_writable ev then el_resume N (ev_token ev) else Pair (Ok ()))
       (\<lambda>_. el_dispatch_events N evs)"

definition el_complete :: "u64 \<Rightarrow> int \<Rightarrow> ('p, 'o, 'v) net \<Rightarrow> ('p, 'o, 'v) net" where
  "el_complete token result w =
     (case map_of (nt_wait_table w) token of
        None \<Rightarrow> w
      | Some arc \<Rightarrow> w\<lparr>nt_wait_table := AList.delete token (nt_wait_table w), nt_arcs := (nt_arcs w)[arc := Some result]\<rparr>)"

fun el_dispatch_cqes :: "('p, 'o, 'v) net_env \<Rightarrow> (u64 \<times> int) list \<Rightarrow> ('k, 'l, 'p, 'o, 'v, unit) net_call" where
  "el_dispatch_cqes N [] = Pair (Ok ())"
| "el_dispatch_cqes N ((token, result) # cq) =
     call_bind (if token = IO_URING_TIMEOUT_USERDATA then Pair (Ok ())
                else (\<lambda>s. el_resume N token (on_world (el_complete token result) s)))
       (\<lambda>_. el_dispatch_cqes N cq)"

definition adapt_io_uring ::
  "('p, 'o, 'v) net_env \<Rightarrow> nat option \<Rightarrow> ('k, 'l, 'p, 'o, 'v, nat option) net_call" where
  "adapt_io_uring N left_time s =
     (case ne_select N of
        None \<Rightarrow> (Ok left_time, s)
      | Some sel \<Rightarrow>
          (case sel left_time (nt_operator (sy_world s)) of (r, op) \<Rightarrow>
             let s1 = on_world (\<lambda>w. w\<lparr>nt_operator := op\<rparr>) s
             in case r of
                  Ok (cq, left) \<Rightarrow>
                    call_bind (el_dispatch_cqes N cq) (\<lambda>_. Pair (Ok
                      (if left \<noteq> left_time then Some (case left of None \<Rightarrow> 0 | Some d \<Rightarrow> d) else left_time))) s1
                | Err e \<Rightarrow> (Err e, s1)
                | Panic m \<Rightarrow> (Panic m, s1)
                | Hang \<Rightarrow> (Hang, s1)))"

section \<open>Waiting\<close>

text \<open>
  The first half of \<open>wait_just\<close>, if there is a timeout: the coroutine records its deadline, gives the
  thread away, and on return is back in the call. The answer is the time that is left to wait.
\<close>

definition el_park :: "('k, 'l, ('p, 'o, 'v) net) sys_env \<Rightarrow> nat \<Rightarrow> ('k, 'l, 'p, 'o, 'v, nat) net_call" where
  "el_park E time =
     call_bind (sys_now E) (\<lambda>t s.
       let timestamp = get_timeout_time t time;
           s1 = cur_to E [Ss_Executing] (Ss_Suspend timestamp) s;
           (left, s2) = (if th_suspender (sy_thread s1) = [] then (time, s1)
             else (0, en_suspend E (s1\<lparr>sy_thread := push_timestamp timestamp (sy_thread s1)\<rparr>)))
       in (Ok left, cur_to E [Ss_Callback, Ss_Timeout] Ss_Executing s2))"

definition el_select :: "('p, 'o, 'v) net_env \<Rightarrow> nat option \<Rightarrow> ('k, 'l, 'p, 'o, 'v, unit) net_call" where
  "el_select N left_time s =
     (case sl_select (ne_mio N) (ne_notified N) left_time (nt_selector (sy_world s)) of (r, evs, sel) \<Rightarrow>
        let s1 = on_world (\<lambda>w. w\<lparr>nt_selector := sel\<rparr>) s
        in case r of
             Ok u \<Rightarrow> el_dispatch_events N evs s1
           | Err e \<Rightarrow> (if e = EK_Interrupted then el_dispatch_events N evs s1 else (Err e, s1))
           | Panic m \<Rightarrow> (Panic m, s1)
           | Hang \<Rightarrow> (Hang, s1))"

definition wait_just ::
  "('k, 'l, ('p, 'o, 'v) net) sys_env \<Rightarrow> ('p, 'o, 'v) net_env \<Rightarrow> nat option \<Rightarrow> ('k, 'l, 'p, 'o, 'v, unit) net_call" where
  "wait_just E N timeout =
     call_bind (case timeout of None \<Rightarrow> Pair (Ok None) | Some time \<Rightarrow> call_bind (el_park E time) (\<lambda>d. Pair (Ok (Some d))))
       (\<lambda>left_time. call_bind
          (\<lambda>s. case adapt_io_uring N left_time s of
             (Err e, s1) \<Rightarrow> if e = EK_Interrupted then (Ok left_time, s1) else (Err e, s1)
           | rs \<Rightarrow> rs)
          (el_select N))"

fun timed_wait_loop ::
  "('k, 'l, ('p, 'o, 'v) net) sys_env \<Rightarrow> ('p, 'o, 'v) net_env \<Rightarrow> nat \<Rightarrow> u64 \<Rightarrow> ('k, 'l, 'p, 'o, 'v, unit) net_call" where
  "timed_wait_loop E N 0 timeout_time s = (Hang, s)"
| "timed_wait_loop E N (Suc fuel) timeout_time s =
     call_bind (sys_now E) (\<lambda>t.
       let left_time = min (sat_sub timeout_time t) 10000000
       in if left_time = 0 then wait_just E N (Some 0)
          else call_bind (wait_just E N (Some (unat left_time))) (\<lambda>_. timed_wait_loop E N fuel timeout_time)) s"

definition timed_wait_just ::
  "('k, 'l, ('p, 'o, 'v) net) sys_env \<Rightarrow> ('p, 'o, 'v) net_env \<Rightarrow> nat \<Rightarrow> nat option \<Rightarrow> ('k, 'l, 'p, 'o, 'v, unit) net_call" where
  "timed_wait_just E N fuel timeout =
     call_bind (case timeout of None \<Rightarrow> Pair (Ok u64_max)
                | Some d \<Rightarrow> call_bind (sys_now E) (\<lambda>t. Pair (Ok (get_timeout_time t d))))
       (timed_wait_loop E N fuel)"

text \<open>The waits of \<open>EventLoops\<close>, on the loop that \<open>event_loop()\<close> chose.\<close>

definition wait_read_event ::
  "('k, 'l, ('p, 'o, 'v) net) sys_env \<Rightarrow> ('p, 'o, 'v) net_env \<Rightarrow> int \<Rightarrow> nat option \<Rightarrow> ('k, 'l, 'p, 'o, 'v, unit) net_call" where
  "wait_read_event E N fd timeout = call_bind (el_add_read_event N fd) (\<lambda>_. wait_just E N timeout)"

definition wait_write_event ::
  "('k, 'l, ('p, 'o, 'v) net) sys_env \<Rightarrow> ('p, 'o, 'v) net_env \<Rightarrow> int \<Rightarrow> nat option \<Rightarrow> ('k, 'l, 'p, 'o, 'v, unit) net_call" where
  "wait_write_event E N fd timeout = call_bind (el_add_write_event N fd) (\<lambda>_. wait_just E N timeout)"

section \<open>Submitting to the operator\<close>

text \<open>\<open>impl_io_uring\<close>: the handle the result will appear behind. The table is changed before the assertion on what it held.\<close>

definition el_enlist :: "u64 \<Rightarrow> ('k, 'l, 'p, 'o, 'v, nat) net_call" where
  "el_enlist token s =
     (let arc = length (nt_arcs (sy_world s));
          s1 = on_world (\<lambda>w. w\<lparr>nt_arcs := nt_arcs w @ [None],
                 nt_wait_table := AList.update token arc (nt_wait_table w)\<rparr>) s
      in if map_of (nt_wait_table (sy_world s)) token = None then (Ok arc, s1)
         else (Panic ''The previous token was not retrieved in a timely manner'', s1))"

definition on_operator :: "('o \<Rightarrow> (error_kind, 'a) rust \<times> 'o) \<Rightarrow> ('k, 'l, 'p, 'o, 'v, 'a) net_call" where
  "on_operator f s = (case f (nt_operator (sy_world s)) of (r, op) \<Rightarrow> (r, on_world (\<lambda>w. w\<lparr>nt_operator := op\<rparr>) s))"

definition el_submit ::
  "('p, 'o, 'v) net_env \<Rightarrow> syscall_name \<Rightarrow> ('k, 'l, 'p, 'o, 'v, nat) net_call" where
  "el_submit N n =
     call_bind (el_token N n) (\<lambda>token. call_bind (on_operator (ne_push N token)) (\<lambda>_. el_enlist token))"

section \<open>A coroutine that waits stays in its call\<close>

text \<open>The waits as the system call layers use them.\<close>

definition net_sys_env ::
  "('k, 'l, ('p, 'o, 'v) net) sys_env \<Rightarrow> ('p, 'o, 'v) net_env \<Rightarrow> nat \<Rightarrow> ('k, 'l, ('p, 'o, 'v) net) sys_env" where
  "net_sys_env E N fuel = E\<lparr>
     en_wait_read := (\<lambda>fd d. wait_read_event E N fd (Some d)),
     en_wait_write := (\<lambda>fd d. wait_write_event E N fd (Some d)),
     en_wait_event := (\<lambda>d. timed_wait_just E N fuel (Some d)),
     en_del_event := (\<lambda>k fd. case k of Del_read \<Rightarrow> el_del_read_event N fd
       | Del_write \<Rightarrow> el_del_write_event N fd | Del_both \<Rightarrow> el_del_event N fd)\<rparr>"

definition same_co :: "('k, 'l, 'w) sys \<Rightarrow> ('k, 'l, 'w) sys \<Rightarrow> bool" where
  "same_co s s' \<longleftrightarrow> sy_co s' = sy_co s \<and> th_suspender (sy_thread s') = th_suspender (sy_thread s)"

definition in_call :: "syscall_name \<Rightarrow> ('k, 'l, 'w) sys \<Rightarrow> bool" where
  "in_call n s \<longleftrightarrow> cur_state s = Some (Cs_Syscall () n Ss_Executing) \<and> th_suspender (sy_thread s) \<noteq> []"

definition stays :: "syscall_name \<Rightarrow> ('k, 'l, 'w) sys \<Rightarrow> ('k, 'l, 'w) sys \<Rightarrow> bool" where
  "stays n s s' \<longleftrightarrow> (in_call n s \<longrightarrow> in_call n s')"

interpretation co: io_frame E same_co for E
  by unfold_locales (simp_all add: same_co_def)

interpretation stays: io_frame E "stays n" for E n
  by unfold_locales (simp_all add: stays_def in_call_def cur_state_def)

lemma stays_if_same_co: "keeps same_co c \<Longrightarrow> keeps (stays n) c"
  by (fastforce simp: keeps_def same_co_def stays_def in_call_def cur_state_def)

lemma same_co_world [simp]: "same_co s (on_world f s)"
  by (simp add: same_co_def)

lemma keeps_co_selector: "keeps same_co (on_selector f)"
  by (auto simp: keeps_def on_selector_def split: prod.splits)

lemma keeps_co_token: "keeps same_co (el_token N n)"
  by (auto simp: keeps_def el_token_def split: option.splits)

lemma keeps_co_resume: "keeps same_co (el_resume N token)"
  by (auto simp: keeps_def el_resume_def Let_def same_co_def split: if_splits rust.splits)

lemma keeps_co_events: "keeps same_co (el_dispatch_events N evs)"
  by (induction evs) (auto intro!: co.keeps_bind keeps_co_resume)

lemma co_after_world: "keeps same_co c \<Longrightarrow> c (on_world f s) = (r, s') \<Longrightarrow> same_co s s'"
  by (fastforce simp: keeps_def same_co_def)

lemma keeps_co_after_world: "keeps same_co c \<Longrightarrow> keeps same_co (\<lambda>s. c (on_world f s))"
  using co_after_world unfolding keeps_def by blast

lemma keeps_co_cqes: "keeps same_co (el_dispatch_cqes N cq)"
proof (induction cq)
  case (Cons c cq)
  then show ?case
    by (cases c) (auto intro!: co.keeps_bind keeps_co_after_world keeps_co_resume)
qed simp

lemma keeps_co_adapt: "keeps same_co (adapt_io_uring N left_time)"
  unfolding keeps_def
proof (intro allI impI)
  fix s r s'
  assume run: "adapt_io_uring N left_time s = (r, s')"
  have "keeps same_co (call_bind (el_dispatch_cqes N cq) (\<lambda>_. Pair x))" for cq and x :: "(error_kind, nat option) rust"
    by (intro co.keeps_bind keeps_co_cqes) simp
  from co_after_world [OF this] run show "same_co s s'"
    by (auto simp: adapt_io_uring_def Let_def split: option.splits prod.splits rust.splits)
qed

lemma keeps_co_select: "keeps same_co (el_select N left_time)"
  unfolding keeps_def
proof (intro allI impI)
  fix s r s'
  assume run: "el_select N left_time s = (r, s')"
  from co_after_world [OF keeps_co_events] run show "same_co s s'"
    by (auto simp: el_select_def Let_def split: prod.splits rust.splits if_splits)
qed

text \<open>
  What the layers rely on of the rest of the system: a coroutine that gave the thread away in a call
  is resumed in that call, by an event or at its deadline, and with its suspender in place. The
  scheduler puts a coroutine of its syscall table into the ready queue in no other state.
\<close>

definition resumes_in_call :: "('k, 'l, 'w) sys_env \<Rightarrow> bool" where
  "resumes_in_call E \<longleftrightarrow> (\<forall>s n ts. cur_state s = Some (Cs_Syscall () n (Ss_Suspend ts)) \<longrightarrow>
     cur_state (en_suspend E s) \<in> {Some (Cs_Syscall () n Ss_Callback), Some (Cs_Syscall () n Ss_Timeout)}
     \<and> th_suspender (sy_thread (en_suspend E s)) \<noteq> [])"

lemma cur_to_suspender [simp]: "th_suspender (sy_thread (cur_to E froms new s)) = th_suspender (sy_thread s)"
  by (auto simp: cur_to_def split: option.splits coroutine_state.splits)

lemma cur_to_state:
  assumes "cur_state s = Some (Cs_Syscall () n st)"
  shows "cur_state (cur_to E froms new s) = (if st \<in> set froms then Some (Cs_Syscall () n new) else cur_state s)"
  using assms cur_syscall_state(2) [OF assms] by (simp add: cur_to_def)

lemma park_stays:
  assumes "resumes_in_call E"
  shows "keeps (stays n) (el_park E time)"
  unfolding keeps_def
proof (intro allI impI)
  fix s r s'
  assume run: "el_park E time s = (r, s')"
  show "stays n s s'"
    unfolding stays_def
  proof
    assume c: "in_call n s"
    define ts where "ts = get_timeout_time (en_clock E (sy_reads s)) time"
    define s0 where "s0 = s\<lparr>sy_reads := Suc (sy_reads s)\<rparr>"
    define s1 where "s1 = cur_to E [Ss_Executing] (Ss_Suspend ts) s0"
    define s2 where "s2 = s1\<lparr>sy_thread := push_timestamp ts (sy_thread s1)\<rparr>"
    have s0: "cur_state s0 = Some (Cs_Syscall () n Ss_Executing)" "th_suspender (sy_thread s0) \<noteq> []"
      using c by (simp_all add: in_call_def s0_def cur_state_def)
    have s1: "cur_state s1 = Some (Cs_Syscall () n (Ss_Suspend ts))" "th_suspender (sy_thread s1) \<noteq> []"
      using cur_to_state [OF s0(1)] s0(2) by (simp_all add: s1_def)
    then have "cur_state s2 = Some (Cs_Syscall () n (Ss_Suspend ts))" by (simp add: s2_def cur_state_def)
    with assms have resumed: "cur_state (en_suspend E s2) \<in> {Some (Cs_Syscall () n Ss_Callback), Some (Cs_Syscall () n Ss_Timeout)}"
      "th_suspender (sy_thread (en_suspend E s2)) \<noteq> []"
      unfolding resumes_in_call_def by blast+
    have "s' = cur_to E [Ss_Callback, Ss_Timeout] Ss_Executing (en_suspend E s2)"
      using run s1(2) by (simp add: el_park_def call_bind_def sys_now_def Let_def s0_def s1_def s2_def ts_def)
    with resumed show "in_call n s'"
      by (auto simp: in_call_def cur_to_state)
  qed
qed

lemma wait_just_stays:
  assumes "resumes_in_call E"
  shows "keeps (stays n) (wait_just E N timeout)"
proof -
  have a: "keeps (stays n) (\<lambda>s. case adapt_io_uring N left_time s of
             (Err e, s1) \<Rightarrow> if e = EK_Interrupted then (Ok left_time, s1) else (Err e, s1)
           | rs \<Rightarrow> rs)" for left_time
    using stays_if_same_co [OF keeps_co_adapt [of N left_time], of n]
    unfolding keeps_def by (auto split: prod.splits rust.splits if_splits)
  have p: "keeps (stays n) (case timeout of None \<Rightarrow> Pair (Ok None)
      | Some time \<Rightarrow> call_bind (el_park E time) (\<lambda>d. Pair (Ok (Some d))))"
    by (auto split: option.splits intro!: stays.keeps_bind park_stays [OF assms])
  show ?thesis
    unfolding wait_just_def
    by (rule stays.keeps_bind [OF p stays.keeps_bind [OF a stays_if_same_co [OF keeps_co_select]]])
qed

lemma wait_event_stays:
  assumes "resumes_in_call E"
  shows "keeps (stays n) (wait_read_event E N fd timeout)" "keeps (stays n) (wait_write_event E N fd timeout)"
  unfolding wait_read_event_def wait_write_event_def el_add_read_event_def el_add_write_event_def
  by (intro stays.keeps_bind wait_just_stays [OF assms] stays_if_same_co keeps_co_token keeps_co_selector)+

lemma keeps_flag_co: "keeps same_co (set_non_blocking E fd)" "keeps same_co (set_blocking E fd)"
  by (auto simp: keeps_def set_non_blocking_def set_blocking_def set_non_blocking_flag_def same_co_def
      Let_def split: if_splits prod.splits)

lemmas around_stays = stays.keeps_around [OF keeps_flag_co [THEN stays_if_same_co]]

lemma net_wait_stays:
  "resumes_in_call E \<Longrightarrow> keeps (stays n) (wait_io (net_sys_env E N fuel) dir fd d)"
  using wait_event_stays by (cases dir) (auto simp: wait_io_def net_sys_env_def)

lemma facade_runs_again:
  assumes "cur_state s = Some Cs_Running" and "th_suspender (sy_thread s) \<noteq> []"
    and "keeps (stays n) c" and "facade E n c s = (Ok r, s')"
  shows "cur_state s' = Some Cs_Running"
proof -
  obtain s1 where run: "c (cur_syscall E n Ss_Executing s) = (Ok r, s1)" and s': "s' = cur_running E s1"
    using assms(4) by (auto simp: facade_def split: prod.splits rust.splits)
  have "in_call n (cur_syscall E n Ss_Executing s)"
    using cur_syscall_state(1) [OF assms(1)] assms(2) by (simp add: in_call_def)
  with assms(3) run have "in_call n s1" unfolding keeps_def stays_def by blast
  then show ?thesis unfolding s' in_call_def using cur_running_state(1) by blast
qed

section \<open>Completions\<close>

text \<open>Every pending operation has a handle of its own that does not hold a result yet.\<close>

definition ring_ok :: "('p, 'o, 'v) net \<Rightarrow> bool" where
  "ring_ok w \<longleftrightarrow> distinct (map fst (nt_wait_table w)) \<and> distinct (map snd (nt_wait_table w))
     \<and> (\<forall>arc \<in> snd ` set (nt_wait_table w). arc < length (nt_arcs w) \<and> nt_arcs w ! arc = None)"

lemma ring_okD:
  assumes "ring_ok w" and "map_of (nt_wait_table w) token = Some arc"
  shows "arc < length (nt_arcs w)" "nt_arcs w ! arc = None"
    and "map_of (nt_wait_table w) token' = Some arc \<Longrightarrow> token' = token"
proof -
  have m: "(token, arc) \<in> set (nt_wait_table w)" using assms(2) by (rule map_of_SomeD)
  with assms(1) show "arc < length (nt_arcs w)" "nt_arcs w ! arc = None" by (force simp: ring_ok_def)+
  assume "map_of (nt_wait_table w) token' = Some arc"
  then have "(token', arc) \<in> set (nt_wait_table w)" by (rule map_of_SomeD)
  with m assms(1) show "token' = token"
    unfolding ring_ok_def distinct_map inj_on_def by (metis fst_conv snd_conv)
qed

lemma complete_cases:
  assumes "ring_ok w"
  shows "ring_ok (el_complete token v w)"
    and "map_of (nt_wait_table (el_complete token v w)) token = None"
    and "map_of (nt_wait_table w) token = Some arc \<Longrightarrow> nt_arcs (el_complete token v w) ! arc = Some v"
    and "token' \<noteq> token \<Longrightarrow> map_of (nt_wait_table (el_complete token v w)) token' = map_of (nt_wait_table w) token'"
    and "map_of (nt_wait_table w) token \<noteq> Some arc \<Longrightarrow> nt_arcs (el_complete token v w) ! arc = nt_arcs w ! arc"
    and "length (nt_arcs (el_complete token v w)) = length (nt_arcs w)"
    and "nt_coroutine_tokens (el_complete token v w) = nt_coroutine_tokens w" "nt_sched (el_complete token v w) = nt_sched w"
proof -
  note d = ring_okD [OF assms]
  show "ring_ok (el_complete token v w)"
  proof (cases "map_of (nt_wait_table w) token")
    case (Some a)
    have sub: "set (AList.delete token (nt_wait_table w)) \<subseteq> set (nt_wait_table w)"
      by (auto simp: AList.delete_eq)
    have "arc < length (nt_arcs w) \<and> (nt_arcs w)[a := Some v] ! arc = None"
      if "(t, arc) \<in> set (AList.delete token (nt_wait_table w))" for t arc
    proof -
      from that sub have m: "(t, arc) \<in> set (nt_wait_table w)" by blast
      with assms have "map_of (nt_wait_table w) t = Some arc" by (simp add: ring_ok_def)
      moreover from that have "t \<noteq> token" by (auto simp: AList.delete_eq)
      ultimately show ?thesis using d(1,2) [of t arc] d(3) [OF Some, of t] by (cases "arc = a") auto
    qed
    moreover have "distinct (map snd (AList.delete token (nt_wait_table w)))"
      using assms by (auto simp: ring_ok_def AList.delete_eq distinct_map inj_on_def)
    ultimately show ?thesis using assms Some
      by (auto simp: ring_ok_def el_complete_def AList.distinct_delete)
  qed (simp add: assms el_complete_def)
  show "map_of (nt_wait_table w) token = Some arc \<Longrightarrow> nt_arcs (el_complete token v w) ! arc = Some v"
    using d(1) by (simp add: el_complete_def)
qed (auto simp: el_complete_def AList.delete_conv' nth_list_update split: option.splits)

lemma alist_update_new: "map_of al k = None \<Longrightarrow> AList.update k v al = al @ [(k, v)]"
  by (induction al) (auto split: if_splits)

lemma submit_pending:
  assumes "ring_ok (sy_world s)" and "el_submit N n s = (Ok arc, s')"
  shows "ring_ok (sy_world s')" and "arc = length (nt_arcs (sy_world s))" and "nt_arcs (sy_world s') ! arc = None"
    and "\<exists>token. el_token N n s = (Ok token, snd (el_token N n s)) \<and> map_of (nt_wait_table (sy_world s)) token = None
      \<and> map_of (nt_wait_table (sy_world s')) token = Some arc"
proof -
  obtain token s1 where tok: "el_token N n s = (Ok token, s1)"
    by (cases "sy_co s") (simp_all add: el_token_def)
  then have w1: "nt_wait_table (sy_world s1) = nt_wait_table (sy_world s)" "nt_arcs (sy_world s1) = nt_arcs (sy_world s)"
    by (auto simp: el_token_def split: option.splits)
  obtain s2 where push: "on_operator (ne_push N token) s1 = (Ok (), s2)" and en: "el_enlist token s2 = (Ok arc, s')"
    using assms(2) tok by (auto simp: el_submit_def call_bind_Ok)
  have w2: "nt_wait_table (sy_world s2) = nt_wait_table (sy_world s)" "nt_arcs (sy_world s2) = nt_arcs (sy_world s)"
    using push w1 by (auto simp: on_operator_def split: prod.splits)
  from en have new: "map_of (nt_wait_table (sy_world s)) token = None" and arc: "arc = length (nt_arcs (sy_world s))"
    and s': "s' = on_world (\<lambda>w. w\<lparr>nt_arcs := nt_arcs w @ [None],
      nt_wait_table := AList.update token (length (nt_arcs (sy_world s))) (nt_wait_table w)\<rparr>) s2"
    by (auto simp: el_enlist_def Let_def w2 split: if_splits)
  have upd: "AList.update token arc (nt_wait_table (sy_world s)) = nt_wait_table (sy_world s) @ [(token, arc)]"
    using new by (rule alist_update_new)
  have fresh: "token \<notin> fst ` set (nt_wait_table (sy_world s))" using new by (simp add: map_of_eq_None_iff)
  show "ring_ok (sy_world s')"
    using assms(1) fresh unfolding s' ring_ok_def
    by (auto simp: w2 upd [unfolded arc] nth_append)
  show "arc = length (nt_arcs (sy_world s))" by (rule arc)
  show "nt_arcs (sy_world s') ! arc = None" by (simp add: s' w2 arc)
  show "\<exists>token. el_token N n s = (Ok token, snd (el_token N n s)) \<and> map_of (nt_wait_table (sy_world s)) token = None
      \<and> map_of (nt_wait_table (sy_world s')) token = Some arc"
    using tok new by (intro exI [of _ token]) (simp add: s' w2 arc AList.update_conv')
qed

lemma submit_table:
  assumes "el_submit N n s = (Ok arc, s')" and "el_token N n s = (Ok token, s1)"
  shows "map_of (nt_wait_table (sy_world s')) = (map_of (nt_wait_table (sy_world s)))(token \<mapsto> length (nt_arcs (sy_world s)))"
proof -
  from assms(2) have w1: "nt_wait_table (sy_world s1) = nt_wait_table (sy_world s)" "nt_arcs (sy_world s1) = nt_arcs (sy_world s)"
    by (auto simp: el_token_def split: option.splits)
  obtain s2 where push: "on_operator (ne_push N token) s1 = (Ok (), s2)" and en: "el_enlist token s2 = (Ok arc, s')"
    using assms by (auto simp: el_submit_def call_bind_Ok)
  have w2: "nt_wait_table (sy_world s2) = nt_wait_table (sy_world s)" "nt_arcs (sy_world s2) = nt_arcs (sy_world s)"
    using push w1 by (auto simp: on_operator_def split: prod.splits)
  with en show ?thesis by (auto simp: el_enlist_def Let_def AList.update_conv' split: if_splits)
qed

lemma resume_frame:
  assumes "\<And>t v. \<exists>v'. ne_try_resume N t v = Ok v'"
  obtains s' where "el_resume N token s = (Ok (), s')" "nt_wait_table (sy_world s') = nt_wait_table (sy_world s)"
    "nt_arcs (sy_world s') = nt_arcs (sy_world s)" "nt_coroutine_tokens (sy_world s') = nt_coroutine_tokens (sy_world s) - {token}"
proof (cases "token \<in> nt_coroutine_tokens (sy_world s)")
  case True
  moreover obtain v' where "ne_try_resume N token (nt_sched (sy_world s)) = Ok v'" using assms by blast
  ultimately show ?thesis using that by (simp add: el_resume_def)
next
  case False
  then show ?thesis using that by (simp add: el_resume_def)
qed

lemma dispatch_routes:
  assumes "\<And>t v. \<exists>v'. ne_try_resume N t v = Ok v'"
    and "ring_ok (sy_world s)" and "distinct (map fst cq)"
    and "map_of (nt_wait_table (sy_world s)) IO_URING_TIMEOUT_USERDATA = None"
  shows "\<exists>s'. el_dispatch_cqes N cq s = (Ok (), s') \<and> ring_ok (sy_world s')
    \<and> (\<forall>t. map_of (nt_wait_table (sy_world s')) t = (if map_of cq t = None then map_of (nt_wait_table (sy_world s)) t else None))
    \<and> (\<forall>t arc. map_of (nt_wait_table (sy_world s)) t = Some arc \<longrightarrow> nt_arcs (sy_world s') ! arc = map_of cq t)
    \<and> (\<forall>arc. arc \<notin> ran (map_of (nt_wait_table (sy_world s))) \<longrightarrow> nt_arcs (sy_world s') ! arc = nt_arcs (sy_world s) ! arc)"
  using assms(2-4)
proof (induction cq arbitrary: s)
  case Nil
  then show ?case using ring_okD(2) [OF Nil(1)] by auto
next
  case (Cons c cq)
  obtain token v where c: "c = (token, v)" by fastforce
  have nin: "map_of cq token = None" and dis: "distinct (map fst cq)"
    using Cons.prems(2) c by (simp_all add: map_of_eq_None_iff)
  show ?case
  proof (cases "token = IO_URING_TIMEOUT_USERDATA")
    case True
    from Cons.IH [OF Cons.prems(1) dis Cons.prems(3)] obtain s' where
      IH: "el_dispatch_cqes N cq s = (Ok (), s')" "ring_ok (sy_world s')"
      "\<And>t. map_of (nt_wait_table (sy_world s')) t = (if map_of cq t = None then map_of (nt_wait_table (sy_world s)) t else None)"
      "\<And>t arc. map_of (nt_wait_table (sy_world s)) t = Some arc \<Longrightarrow> nt_arcs (sy_world s') ! arc = map_of cq t"
      "\<And>arc. arc \<notin> ran (map_of (nt_wait_table (sy_world s))) \<Longrightarrow> nt_arcs (sy_world s') ! arc = nt_arcs (sy_world s) ! arc"
      by blast
    have "t \<noteq> token" if "map_of (nt_wait_table (sy_world s)) t = Some arc" for t arc
      using that True Cons.prems(3) by auto
    with IH show ?thesis using True c Cons.prems(3)
      by (intro exI [of _ s']) (auto simp: call_bind_def)
  next
    case False
    let ?w = "el_complete token v (sy_world s)"
    note k = complete_cases [OF Cons.prems(1), where token = token and v = v]
    obtain s1 where s1: "el_resume N token (on_world (el_complete token v) s) = (Ok (), s1)"
      "nt_wait_table (sy_world s1) = nt_wait_table ?w" "nt_arcs (sy_world s1) = nt_arcs ?w"
      using resume_frame [OF assms(1), of token "on_world (el_complete token v) s"] by auto
    have ok1: "ring_ok (sy_world s1)" using k(1) by (simp add: ring_ok_def s1)
    have io: "map_of (nt_wait_table (sy_world s1)) IO_URING_TIMEOUT_USERDATA = None"
      using Cons.prems(3) k(4) [of IO_URING_TIMEOUT_USERDATA] False s1(2) by simp
    from Cons.IH [OF ok1 dis io] obtain s' where
      IH: "el_dispatch_cqes N cq s1 = (Ok (), s')" "ring_ok (sy_world s')"
      "\<And>t. map_of (nt_wait_table (sy_world s')) t = (if map_of cq t = None then map_of (nt_wait_table ?w) t else None)"
      "\<And>t arc. map_of (nt_wait_table ?w) t = Some arc \<Longrightarrow> nt_arcs (sy_world s') ! arc = map_of cq t"
      "\<And>arc. arc \<notin> ran (map_of (nt_wait_table ?w)) \<Longrightarrow> nt_arcs (sy_world s') ! arc = nt_arcs ?w ! arc"
      unfolding s1(2,3) by blast
    have run: "el_dispatch_cqes N (c # cq) s = (Ok (), s')"
      using False c s1(1) IH(1) by (simp add: call_bind_def)
    have gone: "map_of (nt_wait_table (sy_world s')) t
        = (if map_of (c # cq) t = None then map_of (nt_wait_table (sy_world s)) t else None)" for t
      using IH(3) [of t] k(2) k(4) [of t] nin c by auto
    have out: "arc \<notin> ran (map_of (nt_wait_table ?w))" if "\<And>t. t \<noteq> token \<Longrightarrow> map_of (nt_wait_table (sy_world s)) t \<noteq> Some arc" for arc
    proof
      assume "arc \<in> ran (map_of (nt_wait_table ?w))"
      then obtain t where t: "map_of (nt_wait_table ?w) t = Some arc" by (auto simp: ran_def)
      with k(2) have "t \<noteq> token" by auto
      with t k(4) [OF this] that show False by simp
    qed
    have val: "nt_arcs (sy_world s') ! arc = map_of (c # cq) t" if m: "map_of (nt_wait_table (sy_world s)) t = Some arc" for t arc
    proof (cases "t = token")
      case True
      have "arc \<notin> ran (map_of (nt_wait_table ?w))"
        using m True ring_okD(3) [OF Cons.prems(1) m] by (intro out) blast
      with IH(5) [of arc] k(3) [of arc] m True c show ?thesis by simp
    next
      case False
      with k(4) [of t] m IH(4) [of t arc] c show ?thesis by simp
    qed
    have rest: "nt_arcs (sy_world s') ! arc = nt_arcs (sy_world s) ! arc" if "arc \<notin> ran (map_of (nt_wait_table (sy_world s)))" for arc
    proof -
      from that have "arc \<notin> ran (map_of (nt_wait_table ?w))" by (intro out) (auto simp: ran_def)
      with that IH(5) [of arc] k(5) [of arc] show ?thesis by (auto simp: ran_def)
    qed
    from run IH(2) gone val rest show ?thesis by blast
  qed
qed

section \<open>Waiting ends\<close>

definition moves_on :: "('k, 'l, 'w) sys \<Rightarrow> ('k, 'l, 'w) sys \<Rightarrow> bool" where
  "moves_on s s' \<longleftrightarrow> sy_reads s \<le> sy_reads s' \<and> sy_recv_limit s' = sy_recv_limit s \<and> sy_send_limit s' = sy_send_limit s"

interpretation moves: call_frame moves_on
  by unfold_locales (simp_all add: moves_on_def)

lemma moves_own [simp]:
  "moves_on s (s\<lparr>sy_thread := th\<rparr>)" "moves_on s (s\<lparr>sy_co := co\<rparr>)" "moves_on s (s\<lparr>sy_reads := Suc (sy_reads s)\<rparr>)"
  by (simp_all add: moves_on_def)

lemma cur_to_moves [simp]: "moves_on s (cur_to E froms new s)" "sy_reads (cur_to E froms new s) = sy_reads s"
  by (auto simp: cur_to_def cur_syscall_def moves_on_def split: option.splits coroutine_state.splits prod.splits)

lemma moves_limit: "moves_on s s' \<Longrightarrow> limit_of dir fd s' = limit_of dir fd s"
  by (cases dir) (simp_all add: moves_on_def limit_of_def)

lemma moves_resume: "keeps moves_on (el_resume N token)"
  by (auto simp: keeps_def el_resume_def Let_def moves_on_def split: if_splits rust.splits)

lemma moves_events: "keeps moves_on (el_dispatch_events N evs)"
  by (induction evs) (auto intro!: moves.keeps_bind moves_resume)

lemma dispatch_events_ok:
  assumes "\<And>t v. \<exists>v'. ne_try_resume N t v = Ok v'"
  shows "\<exists>s'. el_dispatch_events N evs s = (Ok (), s')"
proof (induction evs arbitrary: s)
  case (Cons ev evs)
  obtain s1 where "el_resume N (ev_token ev) s = (Ok (), s1)" by (rule resume_frame [OF assms])
  then show ?case using Cons.IH [of s] Cons.IH [of s1] by (auto simp: call_bind_def)
qed simp

text \<open>A loop without a completion operator, whose poller and scheduler answer, and whose coroutines are resumed eventually.\<close>

locale answering_loop = mio_registry "ne_mio N" reg
  for E :: "('k, 'l, ('p, 'o, 'v) net) sys_env" and N :: "('p, 'o, 'v) net_env"
    and reg :: "'p \<Rightarrow> int \<Rightarrow> (u64 \<times> interest) option" +
  assumes resume_answers: "\<exists>v'. ne_try_resume N t v = Ok v'"
    and poll_answers: "\<exists>evs p'. mi_poll (ne_mio N) d p = (Ok (), evs, p')"
    and no_operator: "ne_select N = None"
    and suspend_moves: "moves_on s (en_suspend E s)"
begin

lemma select_ok: "\<exists>s'. el_select N d s = (Ok (), s') \<and> moves_on s s'"
proof -
  obtain evs sel where sel: "sl_select (ne_mio N) (ne_notified N) d (nt_selector (sy_world s)) = (Ok (), evs, sel)"
  proof (cases "sl_waiting (nt_selector (sy_world s))")
    case True
    with that show thesis by (simp add: sl_select_def)
  next
    case False
    obtain evs p where "mi_poll (ne_mio N) d (sl_inner (nt_selector (sy_world s))) = (Ok (), evs, p)"
      using poll_answers by blast
    with False that show thesis by (simp add: sl_select_def do_select_def)
  qed
  let ?s = "on_world (\<lambda>w. w\<lparr>nt_selector := sel\<rparr>) s"
  obtain s' where d: "el_dispatch_events N evs ?s = (Ok (), s')" using dispatch_events_ok resume_answers by blast
  have "moves_on s s'" by (rule moves.frame_trans [OF _ moves.keepsD [OF moves_events d]]) simp
  with sel d show ?thesis by (simp add: el_select_def)
qed

lemma wait_just_ok: "\<exists>s'. wait_just E N (Some d) s = (Ok (), s') \<and> sy_reads s < sy_reads s' \<and> moves_on s s'"
proof -
  let ?ts = "get_timeout_time (en_clock E (sy_reads s)) d" and ?s0 = "s\<lparr>sy_reads := Suc (sy_reads s)\<rparr>"
  let ?s1 = "cur_to E [Ss_Executing] (Ss_Suspend ?ts) ?s0"
  let ?s2 = "if th_suspender (sy_thread ?s1) = [] then ?s1
    else en_suspend E (?s1\<lparr>sy_thread := push_timestamp ?ts (sy_thread ?s1)\<rparr>)"
  let ?s3 = "cur_to E [Ss_Callback, Ss_Timeout] Ss_Executing ?s2"
  have "moves_on ?s1 ?s2"
    using moves.frame_trans [OF moves_own(1) suspend_moves] by simp
  then have m: "moves_on ?s0 ?s3"
    by (rule moves.frame_trans [OF cur_to_moves(1) moves.frame_trans [OF _ cur_to_moves(1)]])
  obtain l where park: "el_park E d s = (Ok l, ?s3)"
    by (cases "th_suspender (sy_thread ?s1) = []") (simp_all add: el_park_def call_bind_def sys_now_def Let_def)
  obtain s' where sel: "el_select N (Some l) ?s3 = (Ok (), s')" "moves_on ?s3 s'" using select_ok by blast
  from m sel(2) have "moves_on ?s0 s'" by (rule moves.frame_trans)
  then have "sy_reads s < sy_reads s'" "moves_on s s'" by (auto simp: moves_on_def)
  with park sel(1) show ?thesis by (simp add: wait_just_def call_bind_def adapt_io_uring_def no_operator)
qed

lemma wait_event_answers:
  "\<exists>r s'. wait_read_event E N fd (Some d) s = (r, s') \<and> (r = Ok () \<or> (\<exists>e. r = Err e)) \<and> moves_on s s'"
  "\<exists>r s'. wait_write_event E N fd (Some d) s = (r, s') \<and> (r = Ok () \<or> (\<exists>e. r = Err e)) \<and> moves_on s s'"
proof -
  obtain token s1 where tok: "el_token N (nio (ne_os N)) s = (Ok token, s1)" "moves_on s s1"
    by (cases "sy_co s") (simp_all add: el_token_def)
  have sel: "\<exists>r s2. on_selector f s1 = (r, s2) \<and> (r = Ok () \<or> (\<exists>e. r = Err e)) \<and> moves_on s1 s2"
    if "answers (f (nt_selector (sy_world s1)))"
    for f :: "'p selector \<Rightarrow> 'p sel_result"
    using that by (auto simp: on_selector_def answers_def split: prod.splits)
  have "\<exists>r s'. call_bind (call_bind (el_token N (nio (ne_os N))) (\<lambda>token. on_selector (f token))) (\<lambda>_. wait_just E N (Some d)) s = (r, s')
      \<and> (r = Ok () \<or> (\<exists>e. r = Err e)) \<and> moves_on s s'"
    if f: "\<And>t sl. answers (f t sl)" for f :: "u64 \<Rightarrow> 'p selector \<Rightarrow> 'p sel_result"
  proof -
    obtain r s2 where s2: "on_selector (f token) s1 = (r, s2)" "r = Ok () \<or> (\<exists>e. r = Err e)" "moves_on s1 s2"
      using sel [of "f token"] f [of token "nt_selector (sy_world s1)"] by blast
    have m2: "moves_on s s2" by (rule moves.frame_trans [OF tok(2) s2(3)])
    obtain s3 where s3: "wait_just E N (Some d) s2 = (Ok (), s3)" "moves_on s2 s3" using wait_just_ok by blast
    from s2(2) show ?thesis
    proof
      assume "r = Ok ()"
      with tok(1) s2(1) s3 moves.frame_trans [OF m2 s3(2)] show ?thesis by (simp add: call_bind_def)
    next
      assume "\<exists>e. r = Err e"
      with tok(1) s2(1) m2 show ?thesis by (auto simp: call_bind_def)
    qed
  qed
  with add_answers show
    "\<exists>r s'. wait_read_event E N fd (Some d) s = (r, s') \<and> (r = Ok () \<or> (\<exists>e. r = Err e)) \<and> moves_on s s'"
    "\<exists>r s'. wait_write_event E N fd (Some d) s = (r, s') \<and> (r = Ok () \<or> (\<exists>e. r = Err e)) \<and> moves_on s s'"
    unfolding wait_read_event_def wait_write_event_def el_add_read_event_def el_add_write_event_def by blast+
qed

lemma timed_wait_loop_ends:
  assumes "\<And>k. K \<le> k \<Longrightarrow> deadline \<le> en_clock E k" and "K - sy_reads s < fuel"
  shows "\<exists>s' k. timed_wait_loop E N fuel deadline s = (Ok (), s') \<and> k < sy_reads s' \<and> sy_reads s \<le> k \<and> deadline \<le> en_clock E k"
  using assms(2)
proof (induction fuel arbitrary: s)
  case (Suc fuel)
  let ?t = "en_clock E (sy_reads s)" and ?s = "s\<lparr>sy_reads := Suc (sy_reads s)\<rparr>"
  have z: "min (sat_sub deadline ?t) 10000000 = 0 \<longleftrightarrow> deadline \<le> ?t"
    by (auto simp: min_def sat_sub_def)
  show ?case
  proof (cases "deadline \<le> ?t")
    case True
    obtain s' where "wait_just E N (Some 0) ?s = (Ok (), s')" "sy_reads ?s < sy_reads s'" using wait_just_ok by blast
    with True z show ?thesis
      by (intro exI [of _ s'] exI [of _ "sy_reads s"]) (simp add: call_bind_def sys_now_def Let_def)
  next
    case False
    with assms(1) have K: "sy_reads s < K" by (meson not_le)
    let ?d = "unat (min (sat_sub deadline ?t) 10000000)"
    obtain s1 where s1: "wait_just E N (Some ?d) ?s = (Ok (), s1)" "sy_reads ?s < sy_reads s1" using wait_just_ok by blast
    have "K - sy_reads s1 < fuel" using Suc.prems K s1(2) by simp
    from Suc.IH [OF this] obtain s' k where
      "timed_wait_loop E N fuel deadline s1 = (Ok (), s')" "k < sy_reads s'" "sy_reads s1 \<le> k" "deadline \<le> en_clock E k"
      by blast
    with s1 False z show ?thesis
      by (intro exI [of _ s'] exI [of _ k]) (simp add: call_bind_def sys_now_def Let_def)
  qed
qed simp

lemma answering_sockets:
  assumes "\<And>s a l. limit_of dir fd s = Some limit \<Longrightarrow> \<exists>r s'. inner a l s = (Ok r, s') \<and> - 1 \<le> r
      \<and> (r = - 1 \<longrightarrow> kind_of (sy_errno s') \<noteq> EK_Interrupted) \<and> goes_on dir fd limit s s'"
    and "\<And>w. 0 \<le> sint (en_getfl E fd w)" and "\<And>fl w. fst (en_setfl E fd fl w) = 0"
  shows "answering_io (net_sys_env E N k) dir fd inner limit"
proof
  fix s :: "('k, 'l, ('p, 'o, 'v) net) sys" and d
  assume l: "limit_of dir fd s = Some limit"
  have "\<exists>r s'. wait_io (net_sys_env E N k) dir fd d s = (r, s') \<and> (r = Ok () \<or> (\<exists>e. r = Err e)) \<and> moves_on s s'"
    using wait_event_answers by (cases dir) (simp_all add: wait_io_def net_sys_env_def)
  then show "\<exists>r s'. wait_io (net_sys_env E N k) dir fd d s = (r, s') \<and> (r = Ok () \<or> (\<exists>e. r = Err e)) \<and> goes_on dir fd limit s s'"
    using moves_limit l unfolding goes_on_def moves_on_def by metis
qed (use assms in \<open>simp_all add: net_sys_env_def\<close>)

end

section \<open>Properties\<close>

text \<open>
  A running coroutine that makes a hooked call on a socket is running again when the call returns,
  however often it gave the thread away in between and whether events or deadlines woke it up.
\<close>

lemma hooked_call_runs_again:
  assumes "cur_state s = Some Cs_Running" and "th_suspender (sy_thread s) \<noteq> []"
    and "resumes_in_call E" and "\<And>a l. keeps same_co (inner a l)" and "\<And>v. keeps same_co (innerv v)"
    and "c \<in> {nio_read_buf (net_sys_env E N k) fuel fd inner buf len, nio_write_buf (net_sys_env E N k) fuel fd inner buf len,
              nio_read_iovec (net_sys_env E N k) fuel fd innerv vec, nio_write_iovec (net_sys_env E N k) fuel fd innerv vec}"
    and "syscall_chain (net_sys_env E N k) False n ring c s = (Ok r, s')"
  shows "cur_state s' = Some Cs_Running"
proof -
  note w = net_wait_stays [OF assms(3)] and i = stays_if_same_co [OF assms(4)] stays_if_same_co [OF assms(5)]
  have "keeps (stays n) c"
    using assms(6) unfolding nio_read_buf_def nio_write_buf_def nio_read_iovec_def nio_write_iovec_def nio_iovec_def
    by (elim insertE emptyE) (simp_all only:, (intro around_stays stays.keeps_buf_loop stays.keeps_iov_for w i)+)
  from facade_runs_again [OF assms(1,2) this] assms(7) show ?thesis by (simp add: syscall_chain_def)
qed


text \<open>A system to run: a poller, a scheduler that records whom it is asked to resume, a scripted socket.\<close>

record demo_sched =
  ds_resumed :: "u64 list"
  ds_script :: "int list"

type_synonym demo_net = "(epoll, unit, demo_sched) net"

definition demo_net_env :: "(epoll, unit, demo_sched) net_env" where
  "demo_net_env =
     \<lparr>ne_os = Linux, ne_mio = epoll_mio, ne_notified = False, ne_thread_token = (\<lambda>n. 0), ne_select = None,
      ne_push = (\<lambda>t op. (Ok (), op)), ne_try_resume = (\<lambda>t v. Ok (v\<lparr>ds_resumed := ds_resumed v @ [t]\<rparr>))\<rparr>"

definition demo_wake :: "(unit, unit, demo_net) sys \<Rightarrow> (unit, unit, demo_net) sys" where
  "demo_wake s = s\<lparr>sy_co := map_option (\<lambda>co. case co_state co of
       Cs_Syscall u n (Ss_Suspend ts) \<Rightarrow> co\<lparr>co_state := Cs_Syscall u n Ss_Callback\<rparr> | _ \<Rightarrow> co) (sy_co s),
     sy_thread := (sy_thread s)\<lparr>th_suspender := [1]\<rparr>\<rparr>"

definition demo_sys_env :: "(unit, unit, demo_net) sys_env" where
  "demo_sys_env =
     \<lparr>en_lsn = (\<lambda>l ev w. (w, False)), en_clock = (\<lambda>n. of_nat (min n 1000)), en_getfl = (\<lambda>fd w. 2),
      en_setfl = (\<lambda>fd fl w. (0, w)), en_fstat = (\<lambda>fd w. Some S_IFSOCK),
      en_rcvtimeo = (\<lambda>fd w. Inr (0, 0)), en_sndtimeo = (\<lambda>fd w. Inr (0, 0)),
      en_wait_read = (\<lambda>fd d s. (Ok (), s)), en_wait_write = (\<lambda>fd d s. (Ok (), s)),
      en_wait_event = (\<lambda>d s. (Ok (), s)), en_del_event = (\<lambda>k fd s. (Ok (), s)), en_suspend = demo_wake\<rparr>"

definition demo_recv :: "nat \<Rightarrow> nat \<Rightarrow> (unit, unit, demo_net, int) call" where
  "demo_recv a l s =
     (case ds_script (nt_sched (sy_world s)) of
        [] \<Rightarrow> (Ok 0, s)
      | r # rs \<Rightarrow>
          (let s1 = on_world (\<lambda>w. w\<lparr>nt_sched := (nt_sched w)\<lparr>ds_script := rs\<rparr>\<rparr>) s
           in if r < 0 then (Ok (- 1), set_errno EAGAIN s1) else (Ok r, s1)))"

definition demo_sys :: "u64 \<Rightarrow> int list \<Rightarrow> (unit, unit, demo_net) sys" where
  "demo_sys cid script =
     \<lparr>sy_thread = \<lparr>th_coroutine = [cid], th_suspender = [cid], th_timestamp = [], th_cancel = [],
        th_world = \<lparr>nt_selector = epoll_selector [3] [], nt_coroutine_tokens = {}, nt_operator = (), nt_wait_table = [],
          nt_arcs = [], nt_sched = \<lparr>ds_resumed = [], ds_script = script\<rparr>\<rparr>\<rparr>,
      sy_co = Some (kern_co\<lparr>co_id := cid\<rparr>), sy_errno = 0, sy_recv_limit = [], sy_send_limit = [], sy_reads = 0\<rparr>"

lemma demo_resumes: "resumes_in_call demo_sys_env"
  by (auto simp: resumes_in_call_def demo_sys_env_def demo_wake_def cur_state_def)

lemma keeps_co_demo_recv: "keeps same_co (demo_recv a l)"
  by (auto simp: keeps_def demo_recv_def same_co_def set_errno_def Let_def split: list.splits if_splits)

interpretation demo_loop: answering_loop demo_sys_env demo_net_env epoll_reg
proof (rule answering_loop.intro)
  show "mio_registry (ne_mio demo_net_env) epoll_reg"
    using epoll.mio_registry_axioms by (simp add: demo_net_env_def)
  show "answering_loop_axioms demo_sys_env demo_net_env"
    by unfold_locales (auto simp: demo_net_env_def epoll_mio_def demo_sys_env_def demo_wake_def moves_on_def)
qed


text \<open>
  C28. The result of a submitted operation reaches the caller who submitted it: when the operator
  reports completions, in any order and any number, the handle of each pending operation that
  completed holds its result and no other handle changes; the others stay pending.
\<close>

theorem ring_routes_results:
  assumes "\<And>t v. \<exists>v'. ne_try_resume N t v = Ok v'"
    and "ring_ok (sy_world s0)" and "map_of (nt_wait_table (sy_world s0)) IO_URING_TIMEOUT_USERDATA = None"
    and "el_token N n s0 = (Ok token, s0')" and "token \<noteq> IO_URING_TIMEOUT_USERDATA"
    and "el_submit N n s0 = (Ok arc, s)" and "distinct (map fst cq)"
  shows "\<exists>s'. el_dispatch_cqes N cq s = (Ok (), s') \<and> ring_ok (sy_world s')
    \<and> nt_arcs (sy_world s') ! arc = map_of cq token
    \<and> (map_of (nt_wait_table (sy_world s')) token = None \<longleftrightarrow> map_of cq token \<noteq> None)
    \<and> (\<forall>t a. map_of (nt_wait_table (sy_world s0)) t = Some a \<longrightarrow> nt_arcs (sy_world s') ! a = map_of cq t)"
proof -
  note sub = submit_pending [OF assms(2,6)]
  from sub(4) assms(4) have new: "map_of (nt_wait_table (sy_world s0)) token = None"
    and tab: "map_of (nt_wait_table (sy_world s)) token = Some arc" by auto
  have upd: "map_of (nt_wait_table (sy_world s)) = (map_of (nt_wait_table (sy_world s0)))(token \<mapsto> arc)"
    using submit_table [OF assms(6,4)] sub(2) by simp
  with assms(3,5) have "map_of (nt_wait_table (sy_world s)) IO_URING_TIMEOUT_USERDATA = None" by simp
  from dispatch_routes [OF assms(1) sub(1) assms(7) this] obtain s' where
    d: "el_dispatch_cqes N cq s = (Ok (), s')" "ring_ok (sy_world s')"
    "\<And>t. map_of (nt_wait_table (sy_world s')) t = (if map_of cq t = None then map_of (nt_wait_table (sy_world s)) t else None)"
    "\<And>t a. map_of (nt_wait_table (sy_world s)) t = Some a \<Longrightarrow> nt_arcs (sy_world s') ! a = map_of cq t"
    by blast
  have "nt_arcs (sy_world s') ! a = map_of cq t" if "map_of (nt_wait_table (sy_world s0)) t = Some a" for t a
    using that new d(4) [of t a] upd by (cases "t = token") auto
  with d(1,2) d(3) [of token] d(4) [OF tab] tab show ?thesis by auto
qed

theorem ring_routes_results_witness:
  "\<exists>arc s s'. el_submit demo_net_env Sn_recv (demo_sys 7 []) = (Ok arc, s)
     \<and> el_dispatch_cqes demo_net_env [(9, 1), (7, 42)] s = (Ok (), s') \<and> nt_arcs (sy_world s') ! arc = Some 42"
proof -
  let ?run = "el_submit demo_net_env Sn_recv (demo_sys 7 [])"
  have "fst ?run = Ok 0" by code_simp
  then have run: "?run = (Ok 0, snd ?run)" by (metis prod.collapse)
  have "\<exists>s'. el_dispatch_cqes demo_net_env [(9, 1), (7, 42)] (snd ?run) = (Ok (), s') \<and> nt_arcs (sy_world s') ! 0 = Some 42"
    using ring_routes_results [of demo_net_env "demo_sys 7 []" Sn_recv 7 _ 0 "snd ?run" "[(9, 1), (7, 42)]", OF _ _ _ _ _ run]
    by (simp add: demo_net_env_def demo_sys_def ring_ok_def el_token_def kern_co_def IO_URING_TIMEOUT_USERDATA_def) blast
  with run show ?thesis by blast
qed



text \<open>
  C31. An event finds the coroutine that waits for it exactly if the coroutine's id, a 64-bit hash, fits
  into 32 bits: the poller is given the id folded to 32 bits, and its events are looked up unfolded.
  Any other coroutine stays asleep until its deadline.
\<close>

theorem event_wakes_iff_id_small:
  assumes "mio_registry (ne_mio N) reg" and "\<And>t v. \<exists>v'. ne_try_resume N t v = Ok v'"
    and "sy_co s = Some co" and "fd \<notin> sl_readable (nt_selector (sy_world s))" "fd \<notin> sl_writable (nt_selector (sy_world s))"
    and "el_add_read_event N fd s = (Ok (), s1)"
    and "reg (sl_inner (nt_selector (sy_world s1))) fd = Some (ev_token ev, i)" and "ev_readable ev"
    and "co_id co \<in> nt_coroutine_tokens (sy_world s2)"
  shows "\<exists>s3. el_dispatch_events N [ev] s2 = (Ok (), s3)
    \<and> (co_id co \<in> nt_coroutine_tokens (sy_world s3) \<longleftrightarrow> 2 ^ 32 \<le> unat (co_id co))"
proof -
  obtain r sel where add: "sl_add_read_event (ne_mio N) fd (co_id co) (nt_selector (sy_world s)) = (r, sel)" by fastforce
  have "(r, on_world (\<lambda>w. w\<lparr>nt_coroutine_tokens := insert (co_id co) (nt_coroutine_tokens w), nt_selector := sel\<rparr>) s) = (Ok (), s1)"
    using assms(3,6) add by (simp add: el_add_read_event_def el_token_def on_selector_def call_bind_def)
  then have r: "r = Ok ()" and s1: "nt_selector (sy_world s1) = sel" by auto
  have "reg (sl_inner sel) fd = Some (fold_token (co_id co), I_read)"
    using mio_registry.add_read_registers [OF assms(1,4,5)] add r by simp
  with assms(7) s1 have tok: "ev_token ev = fold_token (co_id co)" by simp
  obtain s3 where s3: "el_resume N (ev_token ev) s2 = (Ok (), s3)"
    "nt_coroutine_tokens (sy_world s3) = nt_coroutine_tokens (sy_world s2) - {ev_token ev}"
    using resume_frame [OF assms(2), of "ev_token ev" s2] by blast
  have "el_dispatch_events N [ev] s2 = (Ok (), s3)" using s3(1) assms(8) by (simp add: call_bind_def)
  moreover have "co_id co \<in> nt_coroutine_tokens (sy_world s3) \<longleftrightarrow> ev_token ev \<noteq> co_id co"
    unfolding s3(2) using assms(9) by auto
  then have "co_id co \<in> nt_coroutine_tokens (sy_world s3) \<longleftrightarrow> 2 ^ 32 \<le> unat (co_id co)"
    unfolding tok fold_token_fixed by (simp only: not_less)
  ultimately show ?thesis by blast
qed

theorem event_wakes_iff_id_small_witness:
  "\<exists>s1 s3. el_add_read_event demo_net_env 3 (demo_sys (2 ^ 40) []) = (Ok (), s1)
     \<and> el_dispatch_events demo_net_env [\<lparr>ev_token = 256, ev_readable = True, ev_writable = False\<rparr>] s1 = (Ok (), s3)
     \<and> 2 ^ 40 \<in> nt_coroutine_tokens (sy_world s3)"
proof -
  let ?add = "el_add_read_event demo_net_env 3 (demo_sys (2 ^ 40) [])"
  let ?ev = "\<lparr>ev_token = 256, ev_readable = True, ev_writable = False\<rparr>"
  have "fst ?add = Ok ()" by code_simp
  then have add: "?add = (Ok (), snd ?add)" by (metis prod.collapse)
  have reg: "epoll_reg (sl_inner (nt_selector (sy_world (snd ?add)))) 3 = Some (ev_token ?ev, I_read)"
    "2 ^ 40 \<in> nt_coroutine_tokens (sy_world (snd ?add))"
    by code_simp+
  have "\<exists>s3. el_dispatch_events demo_net_env [?ev] (snd ?add) = (Ok (), s3) \<and>
      (co_id (kern_co\<lparr>co_id := 2 ^ 40\<rparr>) \<in> nt_coroutine_tokens (sy_world s3) \<longleftrightarrow> 2 ^ 32 \<le> unat (co_id (kern_co\<lparr>co_id := 2 ^ 40\<rparr>)))"
    by (rule event_wakes_iff_id_small [OF demo_loop.mio_registry_axioms _ _ _ _ add reg(1)])
      (use reg(2) in \<open>simp_all add: demo_sys_def demo_net_env_def epoll_selector_def\<close>)
  moreover have "2 ^ 32 \<le> unat (2 ^ 40 :: u64)" by simp
  ultimately show ?thesis using add by auto
qed

end
