(* ===== verification/OC_Operator.thy ===== *)
theory OC_Operator
  imports OC_Constants "HOL-Library.Multiset"
begin

text \<open>
  The completion operator of Linux (\<^verbatim>\<open>core/src/net/operator/linux/mod.rs\<close>): operations are described by an entry and put
  into the submission queue of an \<^verbatim>\<open>io_uring\<close>, or into a backlog when it is full; \<open>select\<close> submits, waits
  and moves the backlog on. The crate \<^verbatim>\<open>io_uring\<close> and the kernel behind it are a record of operations; what their
  documentation promises is the locale \<open>io_uring\<close>.
\<close>

section \<open>Data\<close>

datatype opcode =
    Oc_AsyncCancel | Oc_EpollCtl | Oc_PollAdd | Oc_PollRemove | Oc_Timeout | Oc_TimeoutUpdate | Oc_TimeoutRemove
  | Oc_OpenAt | Oc_MkDirAt | Oc_RenameAt | Oc_Fsync | Oc_Socket | Oc_Accept | Oc_Connect | Oc_Shutdown | Oc_Close
  | Oc_Recv | Oc_Read | Oc_Readv | Oc_RecvMsg | Oc_Send | Oc_SendZc | Oc_Write | Oc_Writev | Oc_SendMsg

text \<open>
  A submission entry: the arguments of the opcode's constructor in order (pointers are integers), and what the
  builder sets besides; \<open>None\<close> is the default of the crate.
\<close>

record sqe =
  en_code :: opcode
  en_args :: "int list"
  en_time :: "(nat \<times> nat) option"
  en_flags :: "int option"
  en_mode :: "int option"
  en_offset :: "int option"
  en_addr :: "(int \<times> int) option"
  en_user_data :: "u64 option"

definition sqe :: "opcode \<Rightarrow> int list \<Rightarrow> sqe" where
  "sqe code args = \<lparr>en_code = code, en_args = args, en_time = None, en_flags = None, en_mode = None, en_offset = None,
     en_addr = None, en_user_data = None\<rparr>"

datatype io_error = Os int | Kind error_kind

definition EBUSY :: int where
  "EBUSY = 16"

definition EINTR :: int where
  "EINTR = 4"

text \<open>
  The ring: \<open>push\<close> answers whether there was room, \<open>submit\<close> and \<open>submit_and_wait\<close> how many entries the kernel took or
  an error number, \<open>drain\<close> the completions (user data and result).
\<close>

record 'g uring =
  ur_kernel_ok :: bool
  ur_supported :: "opcode \<Rightarrow> bool"
  ur_push :: "sqe \<Rightarrow> 'g \<Rightarrow> bool \<times> 'g"
  ur_is_full :: "'g \<Rightarrow> bool"
  ur_submit :: "'g \<Rightarrow> (int, nat) rust \<times> 'g"
  ur_submit_and_wait :: "nat \<Rightarrow> 'g \<Rightarrow> (int, nat) rust \<times> 'g"
  ur_drain :: "'g \<Rightarrow> (u64 \<times> int) list \<times> 'g"

record 'g operator =
  op_inner :: 'g
  op_entering :: bool
  op_backlog :: "sqe list"

definition operator_new :: "'g \<Rightarrow> 'g operator" where
  "operator_new inner = \<lparr>op_inner = inner, op_entering = False, op_backlog = []\<rparr>"

section \<open>Submission\<close>

definition os_result :: "(int, 'a) rust \<Rightarrow> (io_error, 'a) rust" where
  "os_result r = (case r of Ok a \<Rightarrow> Ok a | Err e \<Rightarrow> Err (Os e) | Panic m \<Rightarrow> Panic m | Hang \<Rightarrow> Hang)"

definition push_sq :: "'g uring \<Rightarrow> sqe \<Rightarrow> 'g operator \<Rightarrow> (io_error, unit) rust \<times> 'g operator" where
  "push_sq U entry p =
     (case ur_push U entry (op_inner p) of (pushed, g) \<Rightarrow>
        let p1 = p\<lparr>op_inner := g, op_backlog := (if pushed then op_backlog p else op_backlog p @ [entry])\<rparr>
        in case ur_submit U g of (r, g1) \<Rightarrow>
             ((case r of
                 Ok n \<Rightarrow> Ok ()
               | Err e \<Rightarrow> (if e = EINTR then Ok () else Err (Os e))
               | Panic m \<Rightarrow> Panic m
               | Hang \<Rightarrow> Hang), p1\<lparr>op_inner := g1\<rparr>))"

text \<open>The macro \<open>support!\<close>: the entry is built only if the kernel supports the operation.\<close>

definition support ::
  "'g uring \<Rightarrow> opcode \<Rightarrow> (io_error, sqe) rust \<Rightarrow> 'g operator \<Rightarrow> (io_error, unit) rust \<times> 'g operator" where
  "support U code entry p =
     (if ur_kernel_ok U \<and> ur_supported U code
      then (case entry of
              Ok e \<Rightarrow> push_sq U e p
            | Err e \<Rightarrow> (Err e, p)
            | Panic m \<Rightarrow> (Panic m, p)
            | Hang \<Rightarrow> (Hang, p))
      else (Err (Kind EK_Unsupported), p))"

text \<open>\<open>try_into().expect(..)\<close> into \<open>u32\<close> and \<open>u64\<close>.\<close>

definition as_u32 :: "int \<Rightarrow> string \<Rightarrow> (io_error, unit) rust" where
  "as_u32 n msg = (if 0 \<le> n \<and> n < 2 ^ 32 then Ok () else Panic msg)"

definition as_u64 :: "int \<Rightarrow> string \<Rightarrow> (io_error, unit) rust" where
  "as_u64 n msg = (if 0 \<le> n \<and> n < 2 ^ 64 then Ok () else Panic msg)"

subsection \<open>Timeouts\<close>

definition timespec :: "nat \<Rightarrow> nat \<times> nat" where
  "timespec duration = (duration div 10 ^ 9, duration mod 10 ^ 9)"

definition timeout_add ::
  "'g uring \<Rightarrow> u64 \<Rightarrow> nat option \<Rightarrow> 'g operator \<Rightarrow> (io_error, unit) rust \<times> 'g operator" where
  "timeout_add U user_data timeout p =
     (case timeout of
        Some duration \<Rightarrow>
          support U Oc_Timeout (Ok ((sqe Oc_Timeout [])\<lparr>en_time := Some (timespec duration), en_user_data := Some user_data\<rparr>)) p
      | None \<Rightarrow> (Ok (), p))"

definition timeout_remove :: "'g uring \<Rightarrow> u64 \<Rightarrow> 'g operator \<Rightarrow> (io_error, unit) rust \<times> 'g operator" where
  "timeout_remove U user_data = support U Oc_TimeoutRemove (Ok (sqe Oc_TimeoutRemove [uint user_data]))"

definition timeout_update ::
  "'g uring \<Rightarrow> u64 \<Rightarrow> nat option \<Rightarrow> 'g operator \<Rightarrow> (io_error, unit) rust \<times> 'g operator" where
  "timeout_update U user_data timeout p =
     (case timeout of
        Some duration \<Rightarrow>
          support U Oc_TimeoutUpdate
            (Ok ((sqe Oc_TimeoutUpdate [uint user_data])\<lparr>en_time := Some (timespec duration), en_user_data := Some user_data\<rparr>)) p
      | None \<Rightarrow> timeout_remove U user_data p)"

subsection \<open>Operations\<close>

definition op_async_cancel :: "'g uring \<Rightarrow> u64 \<Rightarrow> 'g operator \<Rightarrow> (io_error, unit) rust \<times> 'g operator" where
  "op_async_cancel U user_data =
     support U Oc_AsyncCancel (Ok ((sqe Oc_AsyncCancel [uint user_data])\<lparr>en_user_data := Some user_data\<rparr>))"

definition op_epoll_ctl :: "'g uring \<Rightarrow> u64 \<Rightarrow> int \<Rightarrow> int \<Rightarrow> int \<Rightarrow> int \<Rightarrow> 'g operator \<Rightarrow> (io_error, unit) rust \<times> 'g operator" where
  "op_epoll_ctl U user_data epfd op fd event =
     support U Oc_EpollCtl (Ok ((sqe Oc_EpollCtl [epfd, fd, op, event])\<lparr>en_user_data := Some user_data\<rparr>))"

definition op_poll_add :: "'g uring \<Rightarrow> u64 \<Rightarrow> int \<Rightarrow> int \<Rightarrow> 'g operator \<Rightarrow> (io_error, unit) rust \<times> 'g operator" where
  "op_poll_add U user_data fd flags =
     support U Oc_PollAdd (rust_bind (as_u32 flags ''flags overflow'') (\<lambda>_. Ok ((sqe Oc_PollAdd [fd, flags])\<lparr>en_user_data := Some user_data\<rparr>)))"

definition op_poll_remove :: "'g uring \<Rightarrow> u64 \<Rightarrow> 'g operator \<Rightarrow> (io_error, unit) rust \<times> 'g operator" where
  "op_poll_remove U user_data =
     support U Oc_PollRemove (Ok ((sqe Oc_PollRemove [uint user_data])\<lparr>en_user_data := Some user_data\<rparr>))"

definition op_openat :: "'g uring \<Rightarrow> u64 \<Rightarrow> int \<Rightarrow> int \<Rightarrow> int \<Rightarrow> int \<Rightarrow> 'g operator \<Rightarrow> (io_error, unit) rust \<times> 'g operator" where
  "op_openat U user_data dir_fd pathname flags mode =
     support U Oc_OpenAt (Ok ((sqe Oc_OpenAt [dir_fd, pathname])\<lparr>en_flags := Some flags, en_mode := Some mode, en_user_data := Some user_data\<rparr>))"

definition op_mkdirat :: "'g uring \<Rightarrow> u64 \<Rightarrow> int \<Rightarrow> int \<Rightarrow> int \<Rightarrow> 'g operator \<Rightarrow> (io_error, unit) rust \<times> 'g operator" where
  "op_mkdirat U user_data dir_fd pathname mode =
     support U Oc_MkDirAt (Ok ((sqe Oc_MkDirAt [dir_fd, pathname])\<lparr>en_mode := Some mode, en_user_data := Some user_data\<rparr>))"

definition op_renameat :: "'g uring \<Rightarrow> u64 \<Rightarrow> int \<Rightarrow> int \<Rightarrow> int \<Rightarrow> int \<Rightarrow> 'g operator \<Rightarrow> (io_error, unit) rust \<times> 'g operator" where
  "op_renameat U user_data old_dir_fd old_path new_dir_fd new_path =
     support U Oc_RenameAt (Ok ((sqe Oc_RenameAt [old_dir_fd, old_path, new_dir_fd, new_path])\<lparr>en_user_data := Some user_data\<rparr>))"

definition op_renameat2 :: "'g uring \<Rightarrow> u64 \<Rightarrow> int \<Rightarrow> int \<Rightarrow> int \<Rightarrow> int \<Rightarrow> int \<Rightarrow> 'g operator \<Rightarrow> (io_error, unit) rust \<times> 'g operator" where
  "op_renameat2 U user_data old_dir_fd old_path new_dir_fd new_path flags =
     support U Oc_RenameAt (Ok ((sqe Oc_RenameAt [old_dir_fd, old_path, new_dir_fd, new_path])\<lparr>en_flags := Some flags, en_user_data := Some user_data\<rparr>))"

definition op_fsync :: "'g uring \<Rightarrow> u64 \<Rightarrow> int \<Rightarrow> 'g operator \<Rightarrow> (io_error, unit) rust \<times> 'g operator" where
  "op_fsync U user_data fd =
     support U Oc_Fsync (Ok ((sqe Oc_Fsync [fd])\<lparr>en_user_data := Some user_data\<rparr>))"

definition op_socket :: "'g uring \<Rightarrow> u64 \<Rightarrow> int \<Rightarrow> int \<Rightarrow> int \<Rightarrow> 'g operator \<Rightarrow> (io_error, unit) rust \<times> 'g operator" where
  "op_socket U user_data domain ty protocol =
     support U Oc_Socket (Ok ((sqe Oc_Socket [domain, ty, protocol])\<lparr>en_user_data := Some user_data\<rparr>))"

definition op_accept :: "'g uring \<Rightarrow> u64 \<Rightarrow> int \<Rightarrow> int \<Rightarrow> int \<Rightarrow> 'g operator \<Rightarrow> (io_error, unit) rust \<times> 'g operator" where
  "op_accept U user_data fd address address_len =
     support U Oc_Accept (Ok ((sqe Oc_Accept [fd, address, address_len])\<lparr>en_user_data := Some user_data\<rparr>))"

definition op_accept4 :: "'g uring \<Rightarrow> u64 \<Rightarrow> int \<Rightarrow> int \<Rightarrow> int \<Rightarrow> int \<Rightarrow> 'g operator \<Rightarrow> (io_error, unit) rust \<times> 'g operator" where
  "op_accept4 U user_data fd addr len flg =
     support U Oc_Accept (Ok ((sqe Oc_Accept [fd, addr, len])\<lparr>en_flags := Some flg, en_user_data := Some user_data\<rparr>))"

definition op_connect :: "'g uring \<Rightarrow> u64 \<Rightarrow> int \<Rightarrow> int \<Rightarrow> int \<Rightarrow> 'g operator \<Rightarrow> (io_error, unit) rust \<times> 'g operator" where
  "op_connect U user_data fd address len =
     support U Oc_Connect (Ok ((sqe Oc_Connect [fd, address, len])\<lparr>en_user_data := Some user_data\<rparr>))"

definition op_shutdown :: "'g uring \<Rightarrow> u64 \<Rightarrow> int \<Rightarrow> int \<Rightarrow> 'g operator \<Rightarrow> (io_error, unit) rust \<times> 'g operator" where
  "op_shutdown U user_data fd how =
     support U Oc_Shutdown (Ok ((sqe Oc_Shutdown [fd, how])\<lparr>en_user_data := Some user_data\<rparr>))"

definition op_close :: "'g uring \<Rightarrow> u64 \<Rightarrow> int \<Rightarrow> 'g operator \<Rightarrow> (io_error, unit) rust \<times> 'g operator" where
  "op_close U user_data fd =
     support U Oc_Close (Ok ((sqe Oc_Close [fd])\<lparr>en_user_data := Some user_data\<rparr>))"

definition op_recv :: "'g uring \<Rightarrow> u64 \<Rightarrow> int \<Rightarrow> int \<Rightarrow> int \<Rightarrow> int \<Rightarrow> 'g operator \<Rightarrow> (io_error, unit) rust \<times> 'g operator" where
  "op_recv U user_data fd buf len flags =
     support U Oc_Recv (rust_bind (as_u32 len ''len overflow'') (\<lambda>_. Ok ((sqe Oc_Recv [fd, buf, len])\<lparr>en_flags := Some flags, en_user_data := Some user_data\<rparr>)))"

definition op_read :: "'g uring \<Rightarrow> u64 \<Rightarrow> int \<Rightarrow> int \<Rightarrow> int \<Rightarrow> 'g operator \<Rightarrow> (io_error, unit) rust \<times> 'g operator" where
  "op_read U user_data fd buf cnt =
     support U Oc_Read (rust_bind (as_u32 cnt ''count overflow'') (\<lambda>_. Ok ((sqe Oc_Read [fd, buf, cnt])\<lparr>en_user_data := Some user_data\<rparr>)))"

definition op_pread :: "'g uring \<Rightarrow> u64 \<Rightarrow> int \<Rightarrow> int \<Rightarrow> int \<Rightarrow> int \<Rightarrow> 'g operator \<Rightarrow> (io_error, unit) rust \<times> 'g operator" where
  "op_pread U user_data fd buf cnt offset =
     support U Oc_Read (rust_bind (as_u32 cnt ''count overflow'') (\<lambda>_. rust_bind (as_u64 offset ''offset overflow'') (\<lambda>_. Ok ((sqe Oc_Read [fd, buf, cnt])\<lparr>en_offset := Some offset, en_user_data := Some user_data\<rparr>))))"

definition op_readv :: "'g uring \<Rightarrow> u64 \<Rightarrow> int \<Rightarrow> int \<Rightarrow> int \<Rightarrow> 'g operator \<Rightarrow> (io_error, unit) rust \<times> 'g operator" where
  "op_readv U user_data fd iov iovcnt =
     support U Oc_Readv (rust_bind (as_u32 iovcnt ''iovcnt overflow'') (\<lambda>_. Ok ((sqe Oc_Readv [fd, iov, iovcnt])\<lparr>en_user_data := Some user_data\<rparr>)))"

definition op_preadv :: "'g uring \<Rightarrow> u64 \<Rightarrow> int \<Rightarrow> int \<Rightarrow> int \<Rightarrow> int \<Rightarrow> 'g operator \<Rightarrow> (io_error, unit) rust \<times> 'g operator" where
  "op_preadv U user_data fd iov iovcnt offset =
     support U Oc_Readv (rust_bind (as_u32 iovcnt ''iovcnt overflow'') (\<lambda>_. rust_bind (as_u64 offset ''offset overflow'') (\<lambda>_. Ok ((sqe Oc_Readv [fd, iov, iovcnt])\<lparr>en_offset := Some offset, en_user_data := Some user_data\<rparr>))))"

definition op_recvmsg :: "'g uring \<Rightarrow> u64 \<Rightarrow> int \<Rightarrow> int \<Rightarrow> int \<Rightarrow> 'g operator \<Rightarrow> (io_error, unit) rust \<times> 'g operator" where
  "op_recvmsg U user_data fd msg flags =
     support U Oc_RecvMsg (rust_bind (as_u32 flags ''flags overflow'') (\<lambda>_. Ok ((sqe Oc_RecvMsg [fd, msg])\<lparr>en_flags := Some flags, en_user_data := Some user_data\<rparr>)))"

definition op_send :: "'g uring \<Rightarrow> u64 \<Rightarrow> int \<Rightarrow> int \<Rightarrow> int \<Rightarrow> int \<Rightarrow> 'g operator \<Rightarrow> (io_error, unit) rust \<times> 'g operator" where
  "op_send U user_data fd buf len flags =
     support U Oc_Send (rust_bind (as_u32 len ''len overflow'') (\<lambda>_. Ok ((sqe Oc_Send [fd, buf, len])\<lparr>en_flags := Some flags, en_user_data := Some user_data\<rparr>)))"

definition op_sendto :: "'g uring \<Rightarrow> u64 \<Rightarrow> int \<Rightarrow> int \<Rightarrow> int \<Rightarrow> int \<Rightarrow> int \<Rightarrow> int \<Rightarrow> 'g operator \<Rightarrow> (io_error, unit) rust \<times> 'g operator" where
  "op_sendto U user_data fd buf len flags addr addrlen =
     support U Oc_SendZc (rust_bind (as_u32 len ''len overflow'') (\<lambda>_. Ok ((sqe Oc_SendZc [fd, buf, len])\<lparr>en_flags := Some flags, en_addr := Some (addr, addrlen), en_user_data := Some user_data\<rparr>)))"

definition op_write :: "'g uring \<Rightarrow> u64 \<Rightarrow> int \<Rightarrow> int \<Rightarrow> int \<Rightarrow> 'g operator \<Rightarrow> (io_error, unit) rust \<times> 'g operator" where
  "op_write U user_data fd buf cnt =
     support U Oc_Write (rust_bind (as_u32 cnt ''count overflow'') (\<lambda>_. Ok ((sqe Oc_Write [fd, buf, cnt])\<lparr>en_user_data := Some user_data\<rparr>)))"

definition op_pwrite :: "'g uring \<Rightarrow> u64 \<Rightarrow> int \<Rightarrow> int \<Rightarrow> int \<Rightarrow> int \<Rightarrow> 'g operator \<Rightarrow> (io_error, unit) rust \<times> 'g operator" where
  "op_pwrite U user_data fd buf cnt offset =
     support U Oc_Write (rust_bind (as_u32 cnt ''count overflow'') (\<lambda>_. rust_bind (as_u64 offset ''offset overflow'') (\<lambda>_. Ok ((sqe Oc_Write [fd, buf, cnt])\<lparr>en_offset := Some offset, en_user_data := Some user_data\<rparr>))))"

definition op_writev :: "'g uring \<Rightarrow> u64 \<Rightarrow> int \<Rightarrow> int \<Rightarrow> int \<Rightarrow> 'g operator \<Rightarrow> (io_error, unit) rust \<times> 'g operator" where
  "op_writev U user_data fd iov iovcnt =
     support U Oc_Writev (rust_bind (as_u32 iovcnt ''iovcnt overflow'') (\<lambda>_. Ok ((sqe Oc_Writev [fd, iov, iovcnt])\<lparr>en_user_data := Some user_data\<rparr>)))"

definition op_pwritev :: "'g uring \<Rightarrow> u64 \<Rightarrow> int \<Rightarrow> int \<Rightarrow> int \<Rightarrow> int \<Rightarrow> 'g operator \<Rightarrow> (io_error, unit) rust \<times> 'g operator" where
  "op_pwritev U user_data fd iov iovcnt offset =
     support U Oc_Writev (rust_bind (as_u32 iovcnt ''iovcnt overflow'') (\<lambda>_. rust_bind (as_u64 offset ''offset overflow'') (\<lambda>_. Ok ((sqe Oc_Writev [fd, iov, iovcnt])\<lparr>en_offset := Some offset, en_user_data := Some user_data\<rparr>))))"

definition op_sendmsg :: "'g uring \<Rightarrow> u64 \<Rightarrow> int \<Rightarrow> int \<Rightarrow> int \<Rightarrow> 'g operator \<Rightarrow> (io_error, unit) rust \<times> 'g operator" where
  "op_sendmsg U user_data fd msg flags =
     support U Oc_SendMsg (rust_bind (as_u32 flags ''flags overflow'') (\<lambda>_. Ok ((sqe Oc_SendMsg [fd, msg])\<lparr>en_flags := Some flags, en_user_data := Some user_data\<rparr>)))"

section \<open>Selection\<close>

text \<open>The loop at the end of \<open>op_do_select\<close> that moves the backlog into the submission queue.\<close>

fun clean_backlog :: "'g uring \<Rightarrow> sqe list \<Rightarrow> 'g \<Rightarrow> (io_error, unit) rust \<times> 'g \<times> sqe list" where
  "clean_backlog U backlog g =
     (case (if ur_is_full U g then ur_submit U g else (Ok 0, g)) of
        (Ok n, g1) \<Rightarrow>
          (case backlog of
             [] \<Rightarrow> (Ok (), g1, [])
           | e # es \<Rightarrow>
               (case ur_push U e g1 of
                  (True, g2) \<Rightarrow> clean_backlog U es g2
                | (False, g2) \<Rightarrow> (Ok (), g2, e # es)))
      | (Err e, g1) \<Rightarrow> (if e = EBUSY \<or> e = EINTR then Ok () else Err (Os e), g1, backlog)
      | (Panic m, g1) \<Rightarrow> (Panic m, g1, backlog)
      | (Hang, g1) \<Rightarrow> (Hang, g1, backlog))"

text \<open>\<open>cost\<close> is the time the call takes. The result: the count, the completions and the time left.\<close>

definition op_do_select ::
  "'g uring \<Rightarrow> nat \<Rightarrow> nat option \<Rightarrow> nat \<Rightarrow> 'g operator
    \<Rightarrow> (io_error, nat \<times> (u64 \<times> int) list \<times> nat option) rust \<times> 'g operator" where
  "op_do_select U cost timeout want p =
     (case timeout_add U IO_URING_TIMEOUT_USERDATA timeout p of
        (Ok u, p1) \<Rightarrow>
          (case ur_submit_and_wait U want (op_inner p1) of (r, g) \<Rightarrow>
             let r1 = (case r of Err e \<Rightarrow> (if e = EBUSY \<or> e = EINTR then Ok 0 else Err e) | _ \<Rightarrow> r)
             in case os_result r1 of
                  Ok taken \<Rightarrow>
                    (case clean_backlog U (op_backlog p1) g of (r2, g2, backlog) \<Rightarrow>
                       let p2 = p1\<lparr>op_inner := g2, op_backlog := backlog\<rparr>
                       in case r2 of
                            Ok v \<Rightarrow>
                              (case ur_drain U g2 of (cq, g3) \<Rightarrow>
                                 (Ok (taken, cq, map_option (\<lambda>t. t - cost) timeout), p2\<lparr>op_inner := g3\<rparr>))
                          | Err e \<Rightarrow> (Err e, p2)
                          | Panic m \<Rightarrow> (Panic m, p2)
                          | Hang \<Rightarrow> (Hang, p2))
                | Err e \<Rightarrow> (Err e, p1\<lparr>op_inner := g\<rparr>)
                | Panic m \<Rightarrow> (Panic m, p1\<lparr>op_inner := g\<rparr>)
                | Hang \<Rightarrow> (Hang, p1\<lparr>op_inner := g\<rparr>))
      | (Err e, p1) \<Rightarrow> (Err e, p1)
      | (Panic m, p1) \<Rightarrow> (Panic m, p1)
      | (Hang, p1) \<Rightarrow> (Hang, p1))"

definition op_select ::
  "'g uring \<Rightarrow> nat \<Rightarrow> nat option \<Rightarrow> nat \<Rightarrow> 'g operator
    \<Rightarrow> (io_error, nat \<times> (u64 \<times> int) list \<times> nat option) rust \<times> 'g operator" where
  "op_select U cost timeout want p =
     (if ur_kernel_ok U
      then if op_entering p
           then (case ur_drain U (op_inner p) of (cq, g) \<Rightarrow> (Ok (0, cq, timeout), p\<lparr>op_inner := g\<rparr>))
           else (case op_do_select U cost timeout want (p\<lparr>op_entering := True\<rparr>) of
                   (r, p1) \<Rightarrow> (r, p1\<lparr>op_entering := False\<rparr>))
      else (Err (Kind EK_Unsupported), p))"

declare clean_backlog.simps [simp del]

section \<open>What the ring promises\<close>

text \<open>
  \<open>tape g\<close>: all entries the ring ever accepted, in order, whether the kernel has taken them or not. The kernel takes entries on
  its own (the ring is polled), so nothing is said of when a push finds room; but an entry that was accepted stays, and
  nothing else is.
\<close>

locale io_uring =
  fixes U :: "'g uring" and tape :: "'g \<Rightarrow> sqe list"
  assumes push_law: "ur_push U e g = (ok, g') \<Longrightarrow> tape g' = (if ok then tape g @ [e] else tape g)"
    and submit_law: "ur_submit U g = (r, g') \<Longrightarrow> tape g' = tape g \<and> ((\<exists>n. r = Ok n) \<or> (\<exists>e. r = Err e))"
    and wait_law: "ur_submit_and_wait U n g = (r, g') \<Longrightarrow> tape g' = tape g \<and> ((\<exists>n. r = Ok n) \<or> (\<exists>e. r = Err e))"
    and drain_law: "ur_drain U g = (cq, g') \<Longrightarrow> tape g' = tape g"
begin

definition contents :: "'g operator \<Rightarrow> sqe list" where
  "contents p = tape (op_inner p) @ op_backlog p"

lemma push_sq_contents:
  assumes "push_sq U e p = (r, p')"
  shows "mset (contents p') = add_mset e (mset (contents p))" "op_backlog p = [] \<Longrightarrow> contents p' = contents p @ [e]"
    "op_entering p' = op_entering p" "r = Ok () \<or> (\<exists>n. r = Err (Os n))"
proof -
  obtain ok g r1 g1 where eq: "ur_push U e (op_inner p) = (ok, g)" "ur_submit U g = (r1, g1)" by fastforce
  note laws = push_law [OF eq(1)] submit_law [OF eq(2)]
  have p': "p' = p\<lparr>op_inner := g1, op_backlog := (if ok then op_backlog p else op_backlog p @ [e])\<rparr>"
    using assms eq by (auto simp: push_sq_def Let_def)
  show "mset (contents p') = add_mset e (mset (contents p))" "op_backlog p = [] \<Longrightarrow> contents p' = contents p @ [e]"
    "op_entering p' = op_entering p"
    using laws by (auto simp: p' contents_def)
  show "r = Ok () \<or> (\<exists>n. r = Err (Os n))" using assms eq laws by (auto simp: push_sq_def Let_def split: rust.splits if_splits)
qed

lemma clean_backlog_tape:
  assumes "clean_backlog U backlog g = (r, g', backlog')"
  shows "tape g' @ backlog' = tape g @ backlog \<and> (r = Ok () \<or> (\<exists>n. r = Err (Os n)))"
  using assms
proof (induction backlog arbitrary: g)
  case Nil
  obtain r1 g1 where eq: "(if ur_is_full U g then ur_submit U g else (Ok 0, g)) = (r1, g1)" by fastforce
  then have "tape g1 = tape g \<and> ((\<exists>n. r1 = Ok n) \<or> (\<exists>e. r1 = Err e))" using submit_law by (auto split: if_splits)
  with Nil eq show ?case by (auto simp: clean_backlog.simps [of U "[]"] split: rust.splits if_splits)
next
  case (Cons e es)
  obtain r1 g1 where eq: "(if ur_is_full U g then ur_submit U g else (Ok 0, g)) = (r1, g1)" by fastforce
  then have t: "tape g1 = tape g" "(\<exists>n. r1 = Ok n) \<or> (\<exists>e. r1 = Err e)" using submit_law by (auto split: if_splits)
  show ?case
  proof (cases r1)
    case (Ok n)
    obtain ok g2 where push: "ur_push U e g1 = (ok, g2)" by fastforce
    show ?thesis
    proof (cases ok)
      case True
      with Cons.prems eq Ok push have "clean_backlog U es g2 = (r, g', backlog')"
        by (simp add: clean_backlog.simps [of U "e # es"])
      from Cons.IH [OF this] push_law [OF push] True t(1) show ?thesis by simp
    next
      case False
      with Cons.prems eq Ok push push_law [OF push] t(1) show ?thesis by (auto simp: clean_backlog.simps [of U "e # es"])
    qed
  next
    case (Err n)
    with Cons.prems eq t show ?thesis by (auto simp: clean_backlog.simps [of U "e # es"] split: if_splits)
  qed (use t(2) in auto)
qed

end

text \<open>A call of the operator: an operation, which is an instance of \<open>support\<close>, or a selection.\<close>

datatype op_call = Call_entry opcode "(io_error, sqe) rust" | Call_select nat "nat option" nat

fun exec_call :: "'g uring \<Rightarrow> op_call \<Rightarrow> 'g operator \<Rightarrow> (io_error, unit) rust \<times> 'g operator" where
  "exec_call U (Call_entry code entry) p = support U code entry p"
| "exec_call U (Call_select cost timeout want) p =
     (case op_select U cost timeout want p of (r, p1) \<Rightarrow> (rust_bind r (\<lambda>_. Ok ()), p1))"

text \<open>The entries a call has to hand on.\<close>

definition timeout_entry :: "nat \<Rightarrow> sqe" where
  "timeout_entry duration =
     (sqe Oc_Timeout [])\<lparr>en_time := Some (timespec duration), en_user_data := Some IO_URING_TIMEOUT_USERDATA\<rparr>"

fun accepted :: "'g uring \<Rightarrow> op_call \<Rightarrow> sqe list" where
  "accepted U (Call_entry code entry) =
     (case entry of Ok e \<Rightarrow> if ur_kernel_ok U \<and> ur_supported U code then [e] else [] | _ \<Rightarrow> [])"
| "accepted U (Call_select cost timeout want) =
     (case timeout of
        Some d \<Rightarrow> if ur_kernel_ok U \<and> ur_supported U Oc_Timeout then [timeout_entry d] else []
      | None \<Rightarrow> [])"

fun call_panics :: "op_call \<Rightarrow> bool" where
  "call_panics (Call_entry code entry) \<longleftrightarrow> (\<forall>e. entry \<noteq> Ok e) \<and> (\<forall>e. entry \<noteq> Err e)"
| "call_panics (Call_select cost timeout want) \<longleftrightarrow> False"

inductive op_reach :: "'g uring \<Rightarrow> 'g operator \<Rightarrow> op_call list \<Rightarrow> 'g operator \<Rightarrow> bool" for U where
  op_start: "op_reach U p [] p"
| op_step: "op_reach U p calls p1 \<Longrightarrow> exec_call U c p1 = (r, p2) \<Longrightarrow> op_reach U p (calls @ [c]) p2"

context io_uring
begin

lemma support_contents:
  assumes "support U code entry p = (r, p')"
  shows "mset (contents p') = mset (accepted U (Call_entry code entry)) + mset (contents p)"
    "op_entering p' = op_entering p" "\<not> call_panics (Call_entry code entry) \<Longrightarrow> r = Ok () \<or> (\<exists>e. r = Err e)"
proof -
  have "mset (contents p') = mset (accepted U (Call_entry code entry)) + mset (contents p) \<and> op_entering p' = op_entering p
      \<and> (\<not> call_panics (Call_entry code entry) \<longrightarrow> r = Ok () \<or> (\<exists>e. r = Err e))"
  proof (cases "ur_kernel_ok U \<and> ur_supported U code")
    case True
    then show ?thesis using assms push_sq_contents [of "case entry of Ok e \<Rightarrow> e" p r p']
      by (cases entry) (auto simp: support_def)
  next
    case False
    then show ?thesis using assms by (auto simp: support_def split: rust.splits)
  qed
  then show "mset (contents p') = mset (accepted U (Call_entry code entry)) + mset (contents p)"
    "op_entering p' = op_entering p" "\<not> call_panics (Call_entry code entry) \<Longrightarrow> r = Ok () \<or> (\<exists>e. r = Err e)" by blast+
qed

lemma timeout_add_contents:
  assumes "timeout_add U IO_URING_TIMEOUT_USERDATA timeout p = (r, p')"
  shows "mset (contents p') = mset (accepted U (Call_select cost timeout want)) + mset (contents p)
    \<and> (r = Ok () \<or> (\<exists>e. r = Err e))"
proof (cases timeout)
  case None
  with assms show ?thesis by (simp add: timeout_add_def)
next
  case (Some d)
  with assms have "support U Oc_Timeout (Ok (timeout_entry d)) p = (r, p')" by (simp add: timeout_add_def timeout_entry_def)
  from support_contents [OF this] Some show ?thesis by simp
qed

lemma do_select_contents:
  assumes "op_do_select U cost timeout want p = (r, p')"
  shows "mset (contents p') = mset (accepted U (Call_select cost timeout want)) + mset (contents p)"
    "(\<exists>v. r = Ok v) \<or> (\<exists>e. r = Err e)"
proof -
  obtain r1 p1 where t: "timeout_add U IO_URING_TIMEOUT_USERDATA timeout p = (r1, p1)" by fastforce
  note t' = timeout_add_contents [OF t, of cost want]
  obtain r2 g where w: "ur_submit_and_wait U want (op_inner p1) = (r2, g)" by fastforce
  obtain r3 g2 bl where c: "clean_backlog U (op_backlog p1) g = (r3, g2, bl)" by (metis prod_cases3)
  obtain cq g3 where d: "ur_drain U g2 = (cq, g3)" by fastforce
  note w' = wait_law [OF w]
  have c': "tape g2 @ bl = contents p1" "r3 = Ok () \<or> (\<exists>n. r3 = Err (Os n))"
    using clean_backlog_tape [OF c] w' by (auto simp: contents_def)
  have same: "mset (contents p') = mset (contents p1) \<and> ((\<exists>v. r = Ok v) \<or> (\<exists>e. r = Err e))"
  proof (cases "r1 = Ok ()")
    case True
    have "mset (tape g2) + mset bl = mset (tape (op_inner p1)) + mset (op_backlog p1)"
      using c'(1) unfolding contents_def by (metis mset_append)
    with True show ?thesis
      using assms(1) t w c d w' c'(2) drain_law [OF d]
      by (auto simp: op_do_select_def Let_def contents_def os_result_def split: rust.splits if_splits)
  next
    case False
    with t' assms(1) t show ?thesis by (auto simp: op_do_select_def)
  qed
  with t' show "mset (contents p') = mset (accepted U (Call_select cost timeout want)) + mset (contents p)"
    "(\<exists>v. r = Ok v) \<or> (\<exists>e. r = Err e)" by auto
qed

lemma exec_call_contents:
  assumes "exec_call U c p = (r, p')" and "\<not> op_entering p"
  shows "mset (contents p') = mset (accepted U c) + mset (contents p) \<and> \<not> op_entering p'
    \<and> (\<not> call_panics c \<longrightarrow> r = Ok () \<or> (\<exists>e. r = Err e))"
proof (cases c)
  case (Call_entry code entry)
  with assms support_contents [of code entry p r p'] show ?thesis by simp
next
  case (Call_select cost timeout want)
  show ?thesis
  proof (cases "ur_kernel_ok U")
    case True
    obtain r1 p1 where d: "op_do_select U cost timeout want (p\<lparr>op_entering := True\<rparr>) = (r1, p1)" by fastforce
    note d' = do_select_contents [OF d]
    have "p' = p1\<lparr>op_entering := False\<rparr>" "r = rust_bind r1 (\<lambda>_. Ok ())"
      using assms Call_select True d by (simp_all add: op_select_def)
    with d' Call_select show ?thesis by (auto simp: contents_def)
  next
    case False
    with assms Call_select show ?thesis by (auto simp: op_select_def split: option.splits)
  qed
qed

lemma reach_contents:
  assumes "op_reach U p calls p'" and "\<not> op_entering p"
  shows "mset (contents p') = mset (concat (map (accepted U) calls)) + mset (contents p) \<and> \<not> op_entering p'"
  using assms
proof (induction rule: op_reach.induct)
  case (op_step p calls p1 c r p2)
  with exec_call_contents [of c p1 r p2] show ?case by simp
qed simp

end

text \<open>
  An answer that says the call failed does not mean that the entry is gone: it is in the ring or in the backlog all
  the same, and the kernel will carry it out on buffers the caller may have given up.
\<close>

lemma failed_call_is_queued:
  assumes "io_uring U tape" and "push_sq U e p = (Err err, p')"
  shows "e \<in> set (tape (op_inner p') @ op_backlog p')"
proof -
  have "mset (io_uring.contents tape p') = add_mset e (mset (io_uring.contents tape p))"
    by (rule io_uring.push_sq_contents(1) [OF assms])
  then have "e \<in># mset (io_uring.contents tape p')" by simp
  then show ?thesis by (simp add: io_uring.contents_def [OF assms(1)])
qed

section \<open>A ring to run\<close>

record list_ring =
  lr_cap :: nat
  lr_kernel :: "sqe list"
  lr_sq :: "sqe list"

text \<open>A kernel that takes everything at \<open>submit_and_wait\<close> and refuses plain submissions while it is busy.\<close>

definition busy_ring :: "list_ring uring" where
  "busy_ring =
     \<lparr>ur_kernel_ok = True, ur_supported = (\<lambda>c. c \<noteq> Oc_SendZc),
      ur_push = (\<lambda>e g. if length (lr_sq g) < lr_cap g then (True, g\<lparr>lr_sq := lr_sq g @ [e]\<rparr>) else (False, g)),
      ur_is_full = (\<lambda>g. lr_cap g \<le> length (lr_sq g)),
      ur_submit = (\<lambda>g. (Err EBUSY, g)),
      ur_submit_and_wait = (\<lambda>n g. (Ok (length (lr_sq g)), g\<lparr>lr_kernel := lr_kernel g @ lr_sq g, lr_sq := []\<rparr>)),
      ur_drain = (\<lambda>g. (map (\<lambda>e. (case en_user_data e of None \<Rightarrow> 0 | Some u \<Rightarrow> u, 0)) (lr_kernel g), g))\<rparr>"

definition ring_tape :: "list_ring \<Rightarrow> sqe list" where
  "ring_tape g = lr_kernel g @ lr_sq g"

interpretation busy: io_uring busy_ring ring_tape
  by unfold_locales (auto simp: busy_ring_def ring_tape_def split: if_splits)

definition ring_start :: "list_ring operator" where
  "ring_start = operator_new \<lparr>lr_cap = 1, lr_kernel = [], lr_sq = []\<rparr>"

section \<open>Properties\<close>



end
