(* ===== verification/OC_Iocp.thy ===== *)
theory OC_Iocp
  imports OC_Common "HOL-Library.AList" "HOL-Library.Multiset"
begin

text \<open>
  The completion operator of Windows (\<^verbatim>\<open>core/src/net/operator/windows/mod.rs\<close>) on an I/O completion port. An operation in
  flight is a leaked \<open>Overlapped\<close>, whose address the port hands back with the completion; the port and the socket
  calls are a record of operations on its state, and what their documentation promises is the locale
  \<open>completion_port\<close>.
\<close>

section \<open>Data\<close>

record overlapped =
  ov_from_fd :: nat
  ov_token :: u64
  ov_name :: syscall_name
  ov_socket :: nat
  ov_result :: int

datatype 'a call_answer = Done 'a | Pending | Failed int

text \<open>\<open>Associated\<close>, or the port was \<open>Bound\<close> before, or another failure.\<close>

datatype associate = Associated | Bound | Not_associated

text \<open>\<open>Ie_add\<close>: the message that an operation could not be added, with the error number where it has one.\<close>

datatype iocp_error = Ie_os | Ie_socket_info | Ie_add syscall_name "int option" | Ie_invalid_input string

text \<open>Buffers are addresses with lengths.\<close>

type_synonym wsabuf = "nat \<times> nat"

text \<open>\<open>wp_dequeue\<close> answers the entries (address and bytes), nothing in time, or an error.\<close>

record 'g port =
  wp_associate :: "nat \<Rightarrow> 'g \<Rightarrow> associate \<times> 'g"
  wp_set_modes :: "nat \<Rightarrow> 'g \<Rightarrow> bool \<times> 'g"
  wp_socket_info :: "nat \<Rightarrow> 'g \<Rightarrow> bool"
  wp_new_socket :: "'g \<Rightarrow> nat option \<times> 'g"
  wp_accept_ex :: "nat \<Rightarrow> nat \<Rightarrow> nat \<Rightarrow> 'g \<Rightarrow> unit call_answer \<times> 'g"
  wp_recv :: "nat \<Rightarrow> wsabuf list \<Rightarrow> nat \<Rightarrow> nat \<Rightarrow> 'g \<Rightarrow> unit call_answer \<times> 'g"
  wp_send :: "nat \<Rightarrow> wsabuf list \<Rightarrow> nat \<Rightarrow> nat \<Rightarrow> 'g \<Rightarrow> unit call_answer \<times> 'g"
  wp_dequeue :: "nat \<Rightarrow> 'g \<Rightarrow> (nat \<times> nat) list call_answer \<times> 'g"
  wp_update_accept :: "overlapped \<Rightarrow> bool"

record 'g win_operator =
  wo_iocp :: 'g
  wo_entering :: bool
  wo_flights :: "(nat \<times> overlapped) list"
  wo_next :: nat

definition WSAENETDOWN :: int where
  "WSAENETDOWN = 10050"

definition WSAEINPROGRESS :: int where
  "WSAEINPROGRESS = 10036"

definition win_operator_new :: "'g option \<Rightarrow> (iocp_error, 'g win_operator) rust" where
  "win_operator_new iocp =
     (case iocp of
        None \<Rightarrow> Err Ie_os
      | Some g \<Rightarrow> Ok \<lparr>wo_iocp = g, wo_entering = False, wo_flights = [], wo_next = 0\<rparr>)"

section \<open>Submission\<close>

text \<open>An association that fails for another reason violates the debug assertion.\<close>

definition add_handle :: "'g port \<Rightarrow> nat \<Rightarrow> 'g win_operator \<Rightarrow> (iocp_error, unit) rust \<times> 'g win_operator" where
  "add_handle W fd p =
     (case wp_associate W fd (wo_iocp p) of (a, g) \<Rightarrow>
        let p1 = p\<lparr>wo_iocp := g\<rparr>
        in case a of
             Bound \<Rightarrow> (Ok (), p1)
           | Not_associated \<Rightarrow> (Panic ''debug_assert_eq'', p1)
           | Associated \<Rightarrow>
               (case wp_set_modes W fd g of (ok, g1) \<Rightarrow>
                  (if ok then Ok () else Err Ie_os, p1\<lparr>wo_iocp := g1\<rparr>)))"

text \<open>\<open>Box::leak\<close>: the next address is never one that is in flight.\<close>

definition leak_overlapped :: "overlapped \<Rightarrow> 'g win_operator \<Rightarrow> nat \<times> 'g win_operator" where
  "leak_overlapped ov p = (wo_next p, p\<lparr>wo_flights := (wo_next p, ov) # wo_flights p, wo_next := wo_next p + 1\<rparr>)"

text \<open>\<open>AcceptEx\<close> is called until it succeeds or is pending.\<close>

fun accept_ex_loop :: "'g port \<Rightarrow> nat \<Rightarrow> nat \<Rightarrow> nat \<Rightarrow> nat \<Rightarrow> 'g \<Rightarrow> (iocp_error, unit) rust \<times> 'g" where
  "accept_ex_loop W fd sock ptr 0 g = (Hang, g)"
| "accept_ex_loop W fd sock ptr (Suc fuel) g =
     (case wp_accept_ex W fd sock ptr g of
        (Done u, g1) \<Rightarrow> (Ok (), g1)
      | (Pending, g1) \<Rightarrow> (Ok (), g1)
      | (Failed e, g1) \<Rightarrow> accept_ex_loop W fd sock ptr fuel g1)"

definition acceptex ::
  "'g port \<Rightarrow> nat \<Rightarrow> u64 \<Rightarrow> nat \<Rightarrow> syscall_name \<Rightarrow> 'g win_operator \<Rightarrow> (iocp_error, unit) rust \<times> 'g win_operator" where
  "acceptex W fuel user_data fd name p =
     (if \<not> wp_socket_info W fd (wo_iocp p) then (Err Ie_socket_info, p)
      else case add_handle W fd p of
        (Ok u, p1) \<Rightarrow>
          (case wp_new_socket W (wo_iocp p1) of
             (None, g) \<Rightarrow> (Err (Ie_add name None), p1\<lparr>wo_iocp := g\<rparr>)
           | (Some sock, g) \<Rightarrow>
               (case leak_overlapped \<lparr>ov_from_fd = fd, ov_token = user_data, ov_name = name, ov_socket = sock,
                    ov_result = - WSAENETDOWN\<rparr> (p1\<lparr>wo_iocp := g\<rparr>) of (ptr, p2) \<Rightarrow>
                  (case accept_ex_loop W fd sock ptr fuel g of (r, g1) \<Rightarrow> (r, p2\<lparr>wo_iocp := g1\<rparr>))))
      | rs \<Rightarrow> rs)"

definition iocp_accept ::
  "'g port \<Rightarrow> nat \<Rightarrow> u64 \<Rightarrow> nat \<Rightarrow> 'g win_operator \<Rightarrow> (iocp_error, unit) rust \<times> 'g win_operator" where
  "iocp_accept W fuel user_data fd = acceptex W fuel user_data fd Sn_accept"

definition iocp_WSAAccept ::
  "'g port \<Rightarrow> nat \<Rightarrow> u64 \<Rightarrow> nat \<Rightarrow> bool \<Rightarrow> 'g win_operator \<Rightarrow> (iocp_error, unit) rust \<times> 'g win_operator" where
  "iocp_WSAAccept W fuel user_data fd condition p =
     (if condition then (Err (Ie_invalid_input ''lpfncondition''), p)
      else acceptex W fuel user_data fd Sn_WSAAccept p)"

text \<open>The transfers; the pointer for the byte count and the completion routine are handed on as they are.\<close>

definition wsarecv ::
  "'g port \<Rightarrow> u64 \<Rightarrow> nat \<Rightarrow> wsabuf list \<Rightarrow> nat \<Rightarrow> syscall_name \<Rightarrow> 'g win_operator
    \<Rightarrow> (iocp_error, unit) rust \<times> 'g win_operator" where
  "wsarecv W user_data fd bufs flags name p =
     (case add_handle W fd p of
        (Ok u, p1) \<Rightarrow>
          (case leak_overlapped \<lparr>ov_from_fd = fd, ov_token = user_data, ov_name = name, ov_socket = 0,
               ov_result = - WSAEINPROGRESS\<rparr> p1 of (ptr, p2) \<Rightarrow>
             (case wp_recv W fd bufs flags ptr (wo_iocp p2) of
                (Failed e, g) \<Rightarrow> (Err (Ie_add name (Some e)), p2\<lparr>wo_iocp := g\<rparr>)
              | (a, g) \<Rightarrow> (Ok (), p2\<lparr>wo_iocp := g\<rparr>)))
      | rs \<Rightarrow> rs)"

definition wsasend ::
  "'g port \<Rightarrow> u64 \<Rightarrow> nat \<Rightarrow> wsabuf list \<Rightarrow> nat \<Rightarrow> syscall_name \<Rightarrow> 'g win_operator
    \<Rightarrow> (iocp_error, unit) rust \<times> 'g win_operator" where
  "wsasend W user_data fd bufs flags name p =
     (case add_handle W fd p of
        (Ok u, p1) \<Rightarrow>
          (case leak_overlapped \<lparr>ov_from_fd = fd, ov_token = user_data, ov_name = name, ov_socket = 0,
               ov_result = - WSAEINPROGRESS\<rparr> p1 of (ptr, p2) \<Rightarrow>
             (case wp_send W fd bufs flags ptr (wo_iocp p2) of
                (Failed e, g) \<Rightarrow> (Err (Ie_add name (Some e)), p2\<lparr>wo_iocp := g\<rparr>)
              | (a, g) \<Rightarrow> (Ok (), p2\<lparr>wo_iocp := g\<rparr>)))
      | rs \<Rightarrow> rs)"

definition iocp_recv ::
  "'g port \<Rightarrow> u64 \<Rightarrow> nat \<Rightarrow> nat \<Rightarrow> int \<Rightarrow> int \<Rightarrow> 'g win_operator \<Rightarrow> (iocp_error, unit) rust \<times> 'g win_operator" where
  "iocp_recv W user_data fd buf len flags p =
     (if len < 0 then (Panic ''len overflow'', p)
      else if flags < 0 then (Panic ''overflow'', p)
      else wsarecv W user_data fd [(buf, nat len)] (nat flags) Sn_recv p)"

definition iocp_WSARecv ::
  "'g port \<Rightarrow> u64 \<Rightarrow> nat \<Rightarrow> wsabuf list \<Rightarrow> nat \<Rightarrow> bool \<Rightarrow> 'g win_operator \<Rightarrow> (iocp_error, unit) rust \<times> 'g win_operator" where
  "iocp_WSARecv W user_data fd bufs flags has_overlapped p =
     (if has_overlapped then (Err (Ie_invalid_input ''lpoverlapped''), p)
      else wsarecv W user_data fd bufs flags Sn_WSARecv p)"

definition iocp_send ::
  "'g port \<Rightarrow> u64 \<Rightarrow> nat \<Rightarrow> nat \<Rightarrow> int \<Rightarrow> int \<Rightarrow> 'g win_operator \<Rightarrow> (iocp_error, unit) rust \<times> 'g win_operator" where
  "iocp_send W user_data fd buf len flags p =
     (if len < 0 then (Panic ''len overflow'', p)
      else if flags < 0 then (Panic ''overflow'', p)
      else wsasend W user_data fd [(buf, nat len)] (nat flags) Sn_send p)"

definition iocp_WSASend ::
  "'g port \<Rightarrow> u64 \<Rightarrow> nat \<Rightarrow> wsabuf list \<Rightarrow> nat \<Rightarrow> bool \<Rightarrow> 'g win_operator \<Rightarrow> (iocp_error, unit) rust \<times> 'g win_operator" where
  "iocp_WSASend W user_data fd bufs flags has_overlapped p =
     (if has_overlapped then (Err (Ie_invalid_input ''lpoverlapped''), p)
      else wsasend W user_data fd bufs flags Sn_WSASend p)"

section \<open>Selection\<close>

text \<open>The result of a completed operation.\<close>

definition complete_overlapped :: "'g port \<Rightarrow> overlapped \<Rightarrow> nat \<Rightarrow> (iocp_error, overlapped) rust" where
  "complete_overlapped W ov bytes =
     (case ov_name ov of
        Sn_accept \<Rightarrow>
          (if \<not> wp_update_accept W ov then Ok (ov\<lparr>ov_result := - WSAENETDOWN\<rparr>)
           else if ov_socket ov < 2 ^ 63 then Ok (ov\<lparr>ov_result := int (ov_socket ov)\<rparr>)
           else Panic ''result overflow'')
      | Sn_recv \<Rightarrow> Ok (ov\<lparr>ov_result := int bytes\<rparr>)
      | Sn_WSARecv \<Rightarrow> Ok (ov\<lparr>ov_result := int bytes\<rparr>)
      | Sn_send \<Rightarrow> Ok (ov\<lparr>ov_result := int bytes\<rparr>)
      | Sn_WSASend \<Rightarrow> Ok (ov\<lparr>ov_result := int bytes\<rparr>)
      | _ \<Rightarrow> Panic ''unsupported'')"

text \<open>The entries of one dequeue: each is taken out of its box; taking an address that is not in flight would be undefined behaviour.\<close>

fun take_entries ::
  "'g port \<Rightarrow> (nat \<times> nat) list \<Rightarrow> (nat \<times> overlapped) list \<Rightarrow> overlapped list
    \<Rightarrow> (iocp_error, overlapped list) rust \<times> (nat \<times> overlapped) list" where
  "take_entries W [] flights cq = (Ok cq, flights)"
| "take_entries W ((ptr, bytes) # entries) flights cq =
     (case map_of flights ptr of
        None \<Rightarrow> (Panic ''undefined behaviour'', flights)
      | Some ov \<Rightarrow>
          (case complete_overlapped W ov bytes of
             Ok cqe \<Rightarrow> take_entries W entries (AList.delete ptr flights) (cq @ [cqe])
           | Err e \<Rightarrow> (Err e, AList.delete ptr flights)
           | Panic m \<Rightarrow> (Panic m, AList.delete ptr flights)
           | Hang \<Rightarrow> (Hang, AList.delete ptr flights)))"

text \<open>\<open>clk k\<close> is the \<open>k\<close>-th reading of the clock; the port waits in whole milliseconds.\<close>

fun iocp_select_loop ::
  "'g port \<Rightarrow> (nat \<Rightarrow> u64) \<Rightarrow> nat \<Rightarrow> u64 \<Rightarrow> nat \<Rightarrow> nat \<Rightarrow> overlapped list \<Rightarrow> 'g win_operator
    \<Rightarrow> (iocp_error, overlapped list) rust \<times> 'g win_operator" where
  "iocp_select_loop W clk k timeout_time want 0 cq p = (Hang, p)"
| "iocp_select_loop W clk k timeout_time want (Suc fuel) cq p =
     (let left_ns = sat_sub timeout_time (clk k)
      in if left_ns = 0 then (Ok cq, p)
         else case wp_dequeue W (min (unat left_ns div 1000000) (2 ^ 32 - 1)) (wo_iocp p) of
           (Pending, g) \<Rightarrow> iocp_select_loop W clk (Suc k) timeout_time want fuel cq (p\<lparr>wo_iocp := g\<rparr>)
         | (Failed e, g) \<Rightarrow> (Err Ie_os, p\<lparr>wo_iocp := g\<rparr>)
         | (Done entries, g) \<Rightarrow>
             (case take_entries W entries (wo_flights p) cq of (r, flights) \<Rightarrow>
                let p1 = p\<lparr>wo_iocp := g, wo_flights := flights\<rparr>
                in case r of
                     Ok cq1 \<Rightarrow>
                       (if want \<le> length cq1 then (Ok cq1, p1)
                        else iocp_select_loop W clk (Suc k) timeout_time want fuel cq1 p1)
                   | Err e \<Rightarrow> (Err e, p1)
                   | Panic m \<Rightarrow> (Panic m, p1)
                   | Hang \<Rightarrow> (Hang, p1)))"

definition iocp_do_select ::
  "'g port \<Rightarrow> (nat \<Rightarrow> u64) \<Rightarrow> nat \<Rightarrow> nat \<Rightarrow> nat option \<Rightarrow> nat \<Rightarrow> 'g win_operator
    \<Rightarrow> (iocp_error, nat \<times> overlapped list \<times> nat option) rust \<times> 'g win_operator" where
  "iocp_do_select W clk cost fuel timeout want p =
     (case (case timeout of None \<Rightarrow> (u64_max, 0) | Some d \<Rightarrow> (get_timeout_time (clk 0) d, 1)) of (timeout_time, k) \<Rightarrow>
        (case iocp_select_loop W clk k timeout_time want fuel [] p of
           (Ok cq, p1) \<Rightarrow> (Ok (length cq, cq, map_option (\<lambda>t. t - cost) timeout), p1)
         | (Err e, p1) \<Rightarrow> (Err e, p1)
         | (Panic m, p1) \<Rightarrow> (Panic m, p1)
         | (Hang, p1) \<Rightarrow> (Hang, p1)))"

text \<open>A panic passes the reset of the flag.\<close>

definition iocp_select ::
  "'g port \<Rightarrow> (nat \<Rightarrow> u64) \<Rightarrow> nat \<Rightarrow> nat \<Rightarrow> nat option \<Rightarrow> nat \<Rightarrow> 'g win_operator
    \<Rightarrow> (iocp_error, nat \<times> overlapped list \<times> nat option) rust \<times> 'g win_operator" where
  "iocp_select W clk cost fuel timeout want p =
     (if wo_entering p then (Ok (0, [], timeout), p)
      else case iocp_do_select W clk cost fuel timeout want (p\<lparr>wo_entering := True\<rparr>) of
        (Ok a, p1) \<Rightarrow> (Ok a, p1\<lparr>wo_entering := False\<rparr>)
      | (Err e, p1) \<Rightarrow> (Err e, p1\<lparr>wo_entering := False\<rparr>)
      | rs \<Rightarrow> rs)"


section \<open>Panics and loops\<close>

text \<open>\<open>AcceptEx\<close> is retried for ever while it fails for another reason than being pending.\<close>

lemma accept_ex_spins:
  assumes "\<And>g'. \<exists>e g''. wp_accept_ex W fd sock ptr g' = (Failed e, g'')"
  shows "fst (accept_ex_loop W fd sock ptr fuel g) = Hang"
proof (induction fuel arbitrary: g)
  case (Suc fuel)
  obtain e g' where "wp_accept_ex W fd sock ptr g = (Failed e, g')" using assms by blast
  with Suc show ?case by simp
qed simp

text \<open>
  The completion of an operation that \<open>WSAAccept\<close> started is not among those \<open>do_select\<close> knows: the first one makes the
  selection panic, and since the panic passes the reset of the flag, every later selection answers at once that
  nothing has happened.
\<close>

lemma wsaaccept_completion_panics:
  assumes "\<not> wo_entering p" and "\<And>ms. wp_dequeue W ms (wo_iocp p) = (Done ((ptr, bytes) # entries), g)"
    and "map_of (wo_flights p) ptr = Some ov" and "ov_name ov = Sn_WSAAccept" and "clk 0 < u64_max"
    and "iocp_select W clk cost (Suc fuel) None want p = (r, p')"
  shows "r = Panic ''unsupported'' \<and> iocp_select W clk' cost' fuel' timeout want' p' = (Ok (0, [], timeout), p')"
proof -
  have left: "sat_sub u64_max (clk 0) \<noteq> 0" using assms(5) by (auto simp: sat_sub_def)
  have "take_entries W ((ptr, bytes) # entries) (wo_flights p) [] = (Panic ''unsupported'', AList.delete ptr (wo_flights p))"
    using assms(3,4) by (simp add: complete_overlapped_def)
  then have "iocp_select_loop W clk 0 u64_max want (Suc fuel) [] (p\<lparr>wo_entering := True\<rparr>)
      = (Panic ''unsupported'', p\<lparr>wo_entering := True, wo_iocp := g, wo_flights := AList.delete ptr (wo_flights p)\<rparr>)"
    using assms(2) left by (simp add: Let_def)
  then have "r = Panic ''unsupported'' \<and> wo_entering p'"
    using assms(1,6) by (auto simp: iocp_select_def iocp_do_select_def simp del: iocp_select_loop.simps)
  then show ?thesis by (simp add: iocp_select_def)
qed

section \<open>What the port promises\<close>

text \<open>
  \<open>owed g\<close>: the addresses of the operations that were started and not yet reported. A call that succeeds or is
  pending queues one completion (the code leaves the notification on success on), a call that fails none; a dequeue reports
  completions that are owed, each once.
\<close>

locale completion_port =
  fixes W :: "'g port" and owed :: "'g \<Rightarrow> nat multiset"
  assumes associate_law: "wp_associate W fd g = (st, g') \<Longrightarrow> owed g' = owed g"
    and modes_law: "wp_set_modes W fd g = (ok, g') \<Longrightarrow> owed g' = owed g"
    and socket_law: "wp_new_socket W g = (so, g') \<Longrightarrow> owed g' = owed g"
    and accept_law: "wp_accept_ex W fd sock ptr g = (a, g') \<Longrightarrow> owed g' = (case a of Failed e \<Rightarrow> owed g | _ \<Rightarrow> add_mset ptr (owed g))"
    and recv_law: "wp_recv W fd bufs flags ptr g = (a, g') \<Longrightarrow> owed g' = (case a of Failed e \<Rightarrow> owed g | _ \<Rightarrow> add_mset ptr (owed g))"
    and send_law: "wp_send W fd bufs flags ptr g = (a, g') \<Longrightarrow> owed g' = (case a of Failed e \<Rightarrow> owed g | _ \<Rightarrow> add_mset ptr (owed g))"
    and dequeue_law: "wp_dequeue W ms g = (ans, g') \<Longrightarrow> owed g = owed g' + (case ans of Done es \<Rightarrow> mset (map fst es) | _ \<Rightarrow> {#})"
begin

text \<open>Every completion the port owes is that of an operation in flight, once.\<close>

definition covered :: "'g win_operator \<Rightarrow> bool" where
  "covered p \<longleftrightarrow> distinct (map fst (wo_flights p)) \<and> (\<forall>ptr \<in> fst ` set (wo_flights p). ptr < wo_next p)
     \<and> owed (wo_iocp p) \<subseteq># mset (map fst (wo_flights p))"

lemma add_handle_keeps:
  assumes "add_handle W fd p = (r, p')"
  shows "owed (wo_iocp p') = owed (wo_iocp p)" "wo_flights p' = wo_flights p" "wo_next p' = wo_next p"
    "wo_entering p' = wo_entering p"
proof -
  obtain st g ok g1 where eq: "wp_associate W fd (wo_iocp p) = (st, g)" "wp_set_modes W fd g = (ok, g1)" by fastforce
  have "p' = p\<lparr>wo_iocp := g\<rparr> \<or> p' = p\<lparr>wo_iocp := g1\<rparr>"
    using assms eq by (cases st) (auto simp: add_handle_def Let_def)
  then show "owed (wo_iocp p') = owed (wo_iocp p)" "wo_flights p' = wo_flights p" "wo_next p' = wo_next p"
    "wo_entering p' = wo_entering p"
    using associate_law [OF eq(1)] modes_law [OF eq(2)] by auto
qed

lemma add_handle_covered: "covered p \<Longrightarrow> add_handle W fd p = (r, p') \<Longrightarrow> covered p'"
  using add_handle_keeps [of fd p r p'] by (simp add: covered_def)

text \<open>The address is fresh, so that the port may owe it once more.\<close>

lemma leak_covered:
  assumes "covered p" and "leak_overlapped ov p = (ptr, p1)" and "owed g \<subseteq># add_mset ptr (owed (wo_iocp p))"
  shows "covered (p1\<lparr>wo_iocp := g\<rparr>)"
proof -
  have p1: "ptr = wo_next p" "p1 = p\<lparr>wo_flights := (wo_next p, ov) # wo_flights p, wo_next := wo_next p + 1\<rparr>"
    using assms(2) by (auto simp: leak_overlapped_def)
  have "add_mset ptr (owed (wo_iocp p)) \<subseteq># add_mset ptr (mset (map fst (wo_flights p)))"
    using assms(1) by (simp add: covered_def)
  then have "owed g \<subseteq># add_mset ptr (mset (map fst (wo_flights p)))" using assms(3) subset_mset.order_trans by blast
  with assms(1) show ?thesis by (auto simp: covered_def p1)
qed

lemma accept_ex_owed:
  assumes "accept_ex_loop W fd sock ptr fuel g = (r, g')"
  shows "owed g' \<subseteq># add_mset ptr (owed g)"
  using assms
proof (induction fuel arbitrary: g)
  case 0
  then show ?case by simp
next
  case (Suc fuel)
  obtain a g1 where eq: "wp_accept_ex W fd sock ptr g = (a, g1)" by fastforce
  show ?case
  proof (cases a)
    case (Failed e)
    with Suc.prems eq have "accept_ex_loop W fd sock ptr fuel g1 = (r, g')" by simp
    from Suc.IH [OF this] accept_law [OF eq] Failed show ?thesis by simp
  qed (use Suc.prems eq accept_law [OF eq] in auto)
qed

lemma acceptex_covered:
  assumes "covered p" and "acceptex W fuel user_data fd name p = (r, p')"
  shows "covered p'"
proof -
  obtain r1 p1 where a: "add_handle W fd p = (r1, p1)" by fastforce
  obtain so g where n: "wp_new_socket W (wo_iocp p1) = (so, g)" by fastforce
  have c: "covered p1" "covered (p1\<lparr>wo_iocp := g\<rparr>)"
    using add_handle_covered [OF assms(1) a] socket_law [OF n] by (simp_all add: covered_def)
  show ?thesis
  proof (cases "\<exists>sock. wp_socket_info W fd (wo_iocp p) \<and> r1 = Ok () \<and> so = Some sock")
    case True
    then obtain sock where t: "wp_socket_info W fd (wo_iocp p)" "r1 = Ok ()" "so = Some sock" by blast
    let ?ov = "\<lparr>ov_from_fd = fd, ov_token = user_data, ov_name = name, ov_socket = sock, ov_result = - WSAENETDOWN\<rparr>"
    obtain ptr p2 where l: "leak_overlapped ?ov (p1\<lparr>wo_iocp := g\<rparr>) = (ptr, p2)" by fastforce
    obtain r2 g1 where x: "accept_ex_loop W fd sock ptr fuel g = (r2, g1)" by fastforce
    have "p' = p2\<lparr>wo_iocp := g1\<rparr>" using assms(2) a n t l x by (simp add: acceptex_def)
    with leak_covered [OF c(2) l, of g1] accept_ex_owed [OF x] show ?thesis by simp
  next
    case False
    with assms a n c show ?thesis by (auto simp: acceptex_def split: if_splits rust.splits option.splits prod.splits)
  qed
qed

text \<open>Both transfers: after the handle is added, the call owes at most the new address.\<close>

lemma transfer_covered:
  assumes "covered p" and "add_handle W fd p = (Ok (), p1)" and "leak_overlapped ov p1 = (ptr, p2)"
    and "owed g = (case a of Failed e \<Rightarrow> owed (wo_iocp p2) | _ \<Rightarrow> add_mset ptr (owed (wo_iocp p2)))"
  shows "covered (p2\<lparr>wo_iocp := g\<rparr>)"
proof (rule leak_covered [OF add_handle_covered [OF assms(1,2)] assms(3)])
  have "wo_iocp p2 = wo_iocp p1" using assms(3) by (auto simp: leak_overlapped_def)
  with assms(4) show "owed g \<subseteq># add_mset ptr (owed (wo_iocp p1))" by (cases a) auto
qed

lemma wsarecv_covered:
  assumes "covered p" and "wsarecv W user_data fd bufs flags name p = (r, p')"
  shows "covered p'"
proof -
  obtain r1 p1 where a: "add_handle W fd p = (r1, p1)" by fastforce
  let ?ov = "\<lparr>ov_from_fd = fd, ov_token = user_data, ov_name = name, ov_socket = 0, ov_result = - WSAEINPROGRESS\<rparr>"
  obtain ptr p2 where l: "leak_overlapped ?ov p1 = (ptr, p2)" by fastforce
  obtain b g where x: "wp_recv W fd bufs flags ptr (wo_iocp p2) = (b, g)" by fastforce
  show ?thesis
  proof (cases "r1 = Ok ()")
    case True
    have "p' = p2\<lparr>wo_iocp := g\<rparr>" using assms(2) a True l x by (cases b) (auto simp: wsarecv_def)
    with transfer_covered [OF assms(1) _ l recv_law [OF x]] a True show ?thesis by simp
  next
    case False
    with assms(2) a have "p' = p1" by (cases r1) (auto simp: wsarecv_def)
    with add_handle_covered [OF assms(1) a] show ?thesis by simp
  qed
qed

lemma wsasend_covered:
  assumes "covered p" and "wsasend W user_data fd bufs flags name p = (r, p')"
  shows "covered p'"
proof -
  obtain r1 p1 where a: "add_handle W fd p = (r1, p1)" by fastforce
  let ?ov = "\<lparr>ov_from_fd = fd, ov_token = user_data, ov_name = name, ov_socket = 0, ov_result = - WSAEINPROGRESS\<rparr>"
  obtain ptr p2 where l: "leak_overlapped ?ov p1 = (ptr, p2)" by fastforce
  obtain b g where x: "wp_send W fd bufs flags ptr (wo_iocp p2) = (b, g)" by fastforce
  show ?thesis
  proof (cases "r1 = Ok ()")
    case True
    have "p' = p2\<lparr>wo_iocp := g\<rparr>" using assms(2) a True l x by (cases b) (auto simp: wsasend_def)
    with transfer_covered [OF assms(1) _ l send_law [OF x]] a True show ?thesis by simp
  next
    case False
    with assms(2) a have "p' = p1" by (cases r1) (auto simp: wsasend_def)
    with add_handle_covered [OF assms(1) a] show ?thesis by simp
  qed
qed

end

text \<open>One completion less in flight.\<close>

lemma complete_overlapped_token: "complete_overlapped W ov bytes = Ok cqe \<Longrightarrow> ov_token cqe = ov_token ov"
  by (auto simp: complete_overlapped_def split: syscall_name.splits if_splits)

lemma complete_overlapped_answers:
  "(\<exists>cqe. complete_overlapped W ov bytes = Ok cqe) \<or> complete_overlapped W ov bytes = Panic ''unsupported''
    \<or> complete_overlapped W ov bytes = Panic ''result overflow''"
  by (simp add: complete_overlapped_def split: syscall_name.splits)

lemma delete_flight:
  assumes "distinct (map fst flights)" and "map_of flights ptr = Some ov"
  shows "mset flights = add_mset (ptr, ov) (mset (AList.delete ptr flights))"
  using assms
proof (induction flights)
  case (Cons f flights)
  show ?case
  proof (cases "fst f = ptr")
    case True
    with Cons.prems have "f = (ptr, ov)" "ptr \<notin> fst ` set flights" by (auto simp: prod_eq_iff)
    then show ?thesis using AList.delete_id [of ptr flights] by simp
  qed (use Cons in \<open>cases f; simp\<close>)
qed simp

lemma take_entries_accounts:
  assumes "take_entries W entries flights cq = (r, flights')" and "distinct (map fst flights)"
    and "mset (map fst entries) + rest \<subseteq># mset (map fst flights)"
  shows "rest \<subseteq># mset (map fst flights') \<and> distinct (map fst flights') \<and> set flights' \<subseteq> set flights
    \<and> (case r of
         Ok cq' \<Rightarrow> mset (map ov_token cq') + mset (map (\<lambda>f. ov_token (snd f)) flights')
                   = mset (map ov_token cq) + mset (map (\<lambda>f. ov_token (snd f)) flights)
       | Panic m \<Rightarrow> m = ''unsupported'' \<or> m = ''result overflow''
       | _ \<Rightarrow> False)"
  using assms
proof (induction entries arbitrary: flights cq)
  case Nil
  then show ?case by auto
next
  case (Cons e entries)
  obtain ptr bytes where e: "e = (ptr, bytes)" by fastforce
  have "ptr \<in># mset (map fst flights)" using Cons.prems(3) by (auto simp: e dest: mset_subset_eqD)
  then obtain ov where ov: "map_of flights ptr = Some ov"
    using weak_map_of_SomeI by fastforce
  let ?d = "AList.delete ptr flights"
  note del = delete_flight [OF Cons.prems(2) ov]
  have keys: "mset (map fst flights) = add_mset ptr (mset (map fst ?d))" using arg_cong [OF del, of "image_mset fst"] by simp
  have toks: "mset (map (\<lambda>f. ov_token (snd f)) flights) = add_mset (ov_token ov) (mset (map (\<lambda>f. ov_token (snd f)) ?d))"
    using arg_cong [OF del, of "image_mset (\<lambda>f. ov_token (snd f))"] by simp
  have sub: "mset (map fst entries) + rest \<subseteq># mset (map fst ?d)" using Cons.prems(3) keys by (simp add: e)
  then have rest: "rest \<subseteq># mset (map fst ?d)" using subset_mset.order_trans mset_subset_eq_add_right by blast
  have dist: "distinct (map fst ?d)" "set ?d \<subseteq> set flights"
    using Cons.prems(2) by (auto simp: AList.delete_eq distinct_map inj_on_def)
  from complete_overlapped_answers [of W ov bytes] show ?case
  proof (elim disjE exE)
    fix cqe assume c: "complete_overlapped W ov bytes = Ok cqe"
    with Cons.prems(1) ov have "take_entries W entries ?d (cq @ [cqe]) = (r, flights')" by (simp add: e)
    from Cons.IH [OF this dist(1) sub] dist(2) complete_overlapped_token [OF c] toks show ?thesis
      by (auto split: rust.splits)
  qed (use Cons.prems(1) ov rest dist in \<open>auto simp: e\<close>)
qed

context completion_port
begin

lemma select_loop_accounts:
  assumes "covered p" and "iocp_select_loop W clk k timeout_time want fuel cq p = (r, p')"
  shows "covered p' \<and> wo_entering p' = wo_entering p
    \<and> (case r of
         Ok cq' \<Rightarrow> mset (map ov_token cq') + mset (map (\<lambda>f. ov_token (snd f)) (wo_flights p'))
                   = mset (map ov_token cq) + mset (map (\<lambda>f. ov_token (snd f)) (wo_flights p))
       | Err e \<Rightarrow> e = Ie_os
       | Panic m \<Rightarrow> m = ''unsupported'' \<or> m = ''result overflow''
       | Hang \<Rightarrow> True)"
  using assms
proof (induction fuel arbitrary: k cq p)
  case 0
  then show ?case by auto
next
  case (Suc fuel)
  let ?ms = "min (unat (sat_sub timeout_time (clk k)) div 1000000) (2 ^ 32 - 1)"
  obtain a g where d: "wp_dequeue W ?ms (wo_iocp p) = (a, g)" by fastforce
  note law = dequeue_law [OF d]
  show ?case
  proof (cases "sat_sub timeout_time (clk k) = 0")
    case True
    with Suc.prems show ?thesis by auto
  next
    case busy: False
    show ?thesis
    proof (cases a)
      case (Done entries)
      obtain r1 flights where t: "take_entries W entries (wo_flights p) cq = (r1, flights)" by fastforce
      let ?p = "p\<lparr>wo_iocp := g, wo_flights := flights\<rparr>"
      have acc: "owed g \<subseteq># mset (map fst flights) \<and> distinct (map fst flights) \<and> set flights \<subseteq> set (wo_flights p)
          \<and> (case r1 of
               Ok cq' \<Rightarrow> mset (map ov_token cq') + mset (map (\<lambda>f. ov_token (snd f)) flights)
                         = mset (map ov_token cq) + mset (map (\<lambda>f. ov_token (snd f)) (wo_flights p))
             | Panic m \<Rightarrow> m = ''unsupported'' \<or> m = ''result overflow''
             | _ \<Rightarrow> False)"
        using Suc.prems(1) law by (intro take_entries_accounts [OF t]) (auto simp: covered_def Done ac_simps)
      have cov: "covered ?p" using acc Suc.prems(1) by (auto simp: covered_def)
      show ?thesis
      proof (cases "\<exists>cq1. r1 = Ok cq1 \<and> length cq1 < want")
        case True
        then obtain cq1 where c: "r1 = Ok cq1" "length cq1 < want" by blast
        with Suc.prems(2) busy d Done t have "iocp_select_loop W clk (Suc k) timeout_time want fuel cq1 ?p = (r, p')"
          by (simp add: Let_def)
        from Suc.IH [OF cov this] acc c show ?thesis by (auto split: rust.splits)
      next
        case False
        with Suc.prems(2) busy d Done t have "p' = ?p" "r = r1" by (auto simp: Let_def split: rust.splits if_splits)
        with acc cov show ?thesis by (auto split: rust.splits)
      qed
    next
      case Pending
      have cov: "covered (p\<lparr>wo_iocp := g\<rparr>)" using Suc.prems(1) law by (simp add: covered_def Pending)
      from Suc.prems(2) busy d Pending have "iocp_select_loop W clk (Suc k) timeout_time want fuel cq (p\<lparr>wo_iocp := g\<rparr>) = (r, p')"
        by (simp add: Let_def)
      from Suc.IH [OF cov this] show ?thesis by (auto split: rust.splits)
    next
      case (Failed e)
      with Suc.prems(2) busy d have "r = Err Ie_os" "p' = p\<lparr>wo_iocp := g\<rparr>" by (simp_all add: Let_def)
      moreover have "covered (p\<lparr>wo_iocp := g\<rparr>)" using Suc.prems(1) law by (simp add: covered_def Failed)
      ultimately show ?thesis by simp
    qed
  qed
qed

lemma select_accounts:
  assumes "covered p" and "iocp_select W clk cost fuel timeout want p = (r, p')"
  shows "covered p' \<and> (wo_entering p' \<longrightarrow> wo_entering p \<or> (\<exists>m. r = Panic m) \<or> r = Hang)
    \<and> (case r of
         Ok (n, cq, left) \<Rightarrow> n = length cq \<and> mset (map ov_token cq) + mset (map (\<lambda>f. ov_token (snd f)) (wo_flights p'))
                              = mset (map (\<lambda>f. ov_token (snd f)) (wo_flights p))
       | Err e \<Rightarrow> e = Ie_os
       | Panic m \<Rightarrow> m = ''unsupported'' \<or> m = ''result overflow''
       | Hang \<Rightarrow> True)"
proof (cases "wo_entering p")
  case True
  with assms show ?thesis by (auto simp: iocp_select_def)
next
  case False
  let ?p = "p\<lparr>wo_entering := True\<rparr>"
  obtain timeout_time and k :: nat where tk: "(case timeout of None \<Rightarrow> (u64_max, 0) | Some d \<Rightarrow> (get_timeout_time (clk 0) d, 1)) = (timeout_time, k)"
    by fastforce
  obtain r1 p1 where l: "iocp_select_loop W clk k timeout_time want fuel [] ?p = (r1, p1)" by fastforce
  have "covered ?p" using assms(1) by (simp add: covered_def)
  note acc = select_loop_accounts [OF this l]
  have "covered (p1\<lparr>wo_entering := False\<rparr>)" using acc by (simp add: covered_def)
  with False assms(2) l tk acc show ?thesis
    by (cases r1) (auto simp: iocp_select_def iocp_do_select_def)
qed

end

text \<open>The calls of the operator, and the states any sequence of them reaches.\<close>

datatype iocp_call =
    Io_accept u64 nat | Io_WSAAccept u64 nat bool
  | Io_recv u64 nat nat int int | Io_WSARecv u64 nat "wsabuf list" nat bool
  | Io_send u64 nat nat int int | Io_WSASend u64 nat "wsabuf list" nat bool
  | Io_select "nat \<Rightarrow> u64" nat "nat option" nat

fun exec_iocp :: "'g port \<Rightarrow> nat \<Rightarrow> iocp_call \<Rightarrow> 'g win_operator \<Rightarrow> 'g win_operator" where
  "exec_iocp W fuel (Io_accept u fd) p = snd (iocp_accept W fuel u fd p)"
| "exec_iocp W fuel (Io_WSAAccept u fd condition) p = snd (iocp_WSAAccept W fuel u fd condition p)"
| "exec_iocp W fuel (Io_recv u fd buf len flags) p = snd (iocp_recv W u fd buf len flags p)"
| "exec_iocp W fuel (Io_WSARecv u fd bufs flags ov) p = snd (iocp_WSARecv W u fd bufs flags ov p)"
| "exec_iocp W fuel (Io_send u fd buf len flags) p = snd (iocp_send W u fd buf len flags p)"
| "exec_iocp W fuel (Io_WSASend u fd bufs flags ov) p = snd (iocp_WSASend W u fd bufs flags ov p)"
| "exec_iocp W fuel (Io_select clk cost timeout want) p = snd (iocp_select W clk cost fuel timeout want p)"

inductive iocp_reach :: "'g port \<Rightarrow> 'g win_operator \<Rightarrow> 'g win_operator \<Rightarrow> bool" for W p where
  iocp_start: "iocp_reach W p p"
| iocp_step: "iocp_reach W p q \<Longrightarrow> iocp_reach W p (exec_iocp W fuel c q)"

context completion_port
begin

lemma exec_iocp_covered: "covered p \<Longrightarrow> covered (exec_iocp W fuel c p)"
  using acceptex_covered [OF _ prod.collapse [symmetric]] wsarecv_covered [OF _ prod.collapse [symmetric]]
    wsasend_covered [OF _ prod.collapse [symmetric]] select_accounts [OF _ prod.collapse [symmetric]]
  by (cases c) (simp_all add: iocp_accept_def iocp_WSAAccept_def iocp_recv_def iocp_WSARecv_def iocp_send_def iocp_WSASend_def)

lemma iocp_reach_covered: "iocp_reach W p q \<Longrightarrow> covered p \<Longrightarrow> covered q"
  by (induction rule: iocp_reach.induct) (auto intro: exec_iocp_covered)

end

section \<open>A port to run\<close>

text \<open>A port that starts every operation and completes the oldest with eight bytes.\<close>

definition fifo_port :: "nat list port" where
  "fifo_port =
     \<lparr>wp_associate = (\<lambda>fd g. (Associated, g)), wp_set_modes = (\<lambda>fd g. (True, g)), wp_socket_info = (\<lambda>fd g. True),
      wp_new_socket = (\<lambda>g. (Some 7, g)), wp_accept_ex = (\<lambda>fd sock ptr g. (Pending, g @ [ptr])),
      wp_recv = (\<lambda>fd bufs flags ptr g. (Pending, g @ [ptr])), wp_send = (\<lambda>fd bufs flags ptr g. (Done (), g @ [ptr])),
      wp_dequeue = (\<lambda>ms g. case g of [] \<Rightarrow> (Pending, []) | ptr # g' \<Rightarrow> (Done [(ptr, 8)], g')),
      wp_update_accept = (\<lambda>ov. True)\<rparr>"

interpretation fifo: completion_port fifo_port mset
  by unfold_locales (auto simp: fifo_port_def split: list.splits)

section \<open>Properties\<close>



end
