(* ===== verification/OC_Win_Net.thy ===== *)
theory OC_Win_Net
  imports OC_Event_Loop OC_Operator OC_Iocp
begin

text \<open>
  The event loop on its operators. \<^verbatim>\<open>net/event_loop.rs\<close> with the operator for \<^verbatim>\<open>io_uring\<close> (\<open>OC_Operator\<close>) and its variant for
  completion ports (\<open>adapt_iocp\<close> and \<open>impl_iocp\<close>, on \<open>OC_Iocp\<close>), and the adapter for the crate \<^verbatim>\<open>polling\<close>
  (\<^verbatim>\<open>net/selector/polling_adapter.rs\<close>), which takes the place of that for \<^verbatim>\<open>mio\<close> on Windows.
\<close>

section \<open>The loop on io\_uring\<close>

text \<open>\<open>support_io_uring\<close> decides whether the loop uses the operator; an error number becomes a kind.\<close>

definition io_error_kind :: "io_error \<Rightarrow> error_kind" where
  "io_error_kind e = (case e of Os n \<Rightarrow> if n = OC_Operator.EINTR then EK_Interrupted else EK_Other | Kind k \<Rightarrow> k)"

definition io_kind :: "(io_error, 'a) rust \<Rightarrow> (error_kind, 'a) rust" where
  "io_kind r = (case r of Ok a \<Rightarrow> Ok a | Err e \<Rightarrow> Err (io_error_kind e) | Panic m \<Rightarrow> Panic m | Hang \<Rightarrow> Hang)"

definition on_io_uring ::
  "'g uring \<Rightarrow> nat \<Rightarrow> (u64 \<Rightarrow> 'g operator \<Rightarrow> (io_error, unit) rust \<times> 'g operator)
    \<Rightarrow> ('p, 'g operator, 'v) net_env \<Rightarrow> ('p, 'g operator, 'v) net_env" where
  "on_io_uring U cost op N = N\<lparr>
     ne_select := (if ur_kernel_ok U
       then Some (\<lambda>left_time p. case op_select U cost left_time 0 p of
              (r, p') \<Rightarrow> (io_kind (rust_bind r (\<lambda>(taken, cq, left). Ok (cq, left))), p'))
       else None),
     ne_push := (\<lambda>token p. case op token p of (r, p') \<Rightarrow> (io_kind r, p'))\<rparr>"

section \<open>The loop on completion ports\<close>

definition iocp_error_kind :: "iocp_error \<Rightarrow> error_kind" where
  "iocp_error_kind e = (case e of Ie_invalid_input m \<Rightarrow> EK_InvalidInput | _ \<Rightarrow> EK_Other)"

definition iocp_kind :: "(iocp_error, 'a) rust \<Rightarrow> (error_kind, 'a) rust" where
  "iocp_kind r = (case r of Ok a \<Rightarrow> Ok a | Err e \<Rightarrow> Err (iocp_error_kind e) | Panic m \<Rightarrow> Panic m | Hang \<Rightarrow> Hang)"

fun el_dispatch_overlapped :: "('p, 'o, 'v) net_env \<Rightarrow> overlapped list \<Rightarrow> ('k, 'l, 'p, 'o, 'v, unit) net_call" where
  "el_dispatch_overlapped N [] = Pair (Ok ())"
| "el_dispatch_overlapped N (cqe # cq) =
     call_bind (\<lambda>s. el_resume N (ov_token cqe) (on_world (el_complete (ov_token cqe) (ov_result cqe)) s))
       (\<lambda>_. el_dispatch_overlapped N cq)"

definition adapt_iocp ::
  "'g port \<Rightarrow> (nat \<Rightarrow> u64) \<Rightarrow> nat \<Rightarrow> nat \<Rightarrow> ('p, 'g win_operator, 'v) net_env \<Rightarrow> nat option
    \<Rightarrow> ('k, 'l, 'p, 'g win_operator, 'v, nat option) net_call" where
  "adapt_iocp W clk cost fuel N left_time =
     call_bind (on_operator (\<lambda>p. case iocp_select W clk cost fuel left_time 0 p of (r, p') \<Rightarrow> (iocp_kind r, p')))
       (\<lambda>(cnt, cq, left). call_bind (if cnt > 0 then el_dispatch_overlapped N cq else Pair (Ok ()))
          (\<lambda>_. Pair (Ok (if left \<noteq> left_time then Some (case left of None \<Rightarrow> 0 | Some d \<Rightarrow> d) else left_time))))"

text \<open>\<open>impl_iocp\<close>: submission. The operation is started before its handle is in the table.\<close>

definition iocp_submit ::
  "('p, 'g win_operator, 'v) net_env \<Rightarrow> syscall_name \<Rightarrow> (u64 \<Rightarrow> 'g win_operator \<Rightarrow> (iocp_error, unit) rust \<times> 'g win_operator)
    \<Rightarrow> ('k, 'l, 'p, 'g win_operator, 'v, nat) net_call" where
  "iocp_submit N n op =
     call_bind (el_token N n) (\<lambda>token.
       call_bind (on_operator (\<lambda>p. case op token p of (r, p') \<Rightarrow> (iocp_kind r, p'))) (\<lambda>_. el_enlist token))"

text \<open>The environment in which the loop of Linux does what that of Windows does.\<close>

definition on_iocp ::
  "'g port \<Rightarrow> (nat \<Rightarrow> u64) \<Rightarrow> nat \<Rightarrow> nat \<Rightarrow> (u64 \<Rightarrow> 'g win_operator \<Rightarrow> (iocp_error, unit) rust \<times> 'g win_operator)
    \<Rightarrow> ('p, 'g win_operator, 'v) net_env \<Rightarrow> ('p, 'g win_operator, 'v) net_env" where
  "on_iocp W clk cost fuel op N = N\<lparr>
     ne_select := Some (\<lambda>left_time p. case iocp_select W clk cost fuel left_time 0 p of
       (r, p') \<Rightarrow> (rust_bind (iocp_kind r) (\<lambda>(cnt, cq, left). Ok (map (\<lambda>c. (ov_token c, ov_result c)) cq, left)), p')),
     ne_push := (\<lambda>token p. case op token p of (r, p') \<Rightarrow> (iocp_kind r, p'))\<rparr>"

lemma iocp_select_count:
  assumes "iocp_select W clk cost fuel timeout want p = (Ok (n, cq, left), p')"
  shows "n = length cq"
  using assms by (auto simp: iocp_select_def iocp_do_select_def split: if_splits prod.splits rust.splits)

lemma dispatch_overlapped_cqes:
  assumes "\<forall>c\<in>set cq. ov_token c \<noteq> IO_URING_TIMEOUT_USERDATA"
  shows "el_dispatch_overlapped N cq = el_dispatch_cqes N (map (\<lambda>c. (ov_token c, ov_result c)) cq)"
  using assms by (induction cq) simp_all


lemma on_iocp_sel:
  "ne_select (on_iocp W clk cost fuel op N) = Some (\<lambda>left_time p. case iocp_select W clk cost fuel left_time 0 p of
     (r, p') \<Rightarrow> (rust_bind (iocp_kind r) (\<lambda>(cnt, cq, left). Ok (map (\<lambda>c. (ov_token c, ov_result c)) cq, left)), p'))"
  "ne_push (on_iocp W clk cost fuel op N) = (\<lambda>token p. case op token p of (r, p') \<Rightarrow> (iocp_kind r, p'))"
  "ne_try_resume (on_iocp W clk cost fuel op N) = ne_try_resume N"
  "ne_thread_token (on_iocp W clk cost fuel op N) = ne_thread_token N"
  by (simp_all add: on_iocp_def)

lemma resume_on_iocp: "el_resume (on_iocp W clk cost fuel op N) = el_resume N"
  by (simp add: el_resume_def on_iocp_sel fun_eq_iff)

lemma dispatch_on_iocp: "el_dispatch_cqes (on_iocp W clk cost fuel op N) cq = el_dispatch_cqes N cq"
proof (induction cq)
  case (Cons c cq)
  then show ?case by (cases c) (simp add: resume_on_iocp)
qed simp

text \<open>
  The loop on completion ports is the loop on a ring whose completions are those of the port, as long as none of them carries
  the mark of a timeout, which the loop of Linux skips.
\<close>

lemma adapt_iocp_is_adapt:
  assumes "\<And>n cq left p'. iocp_select W clk cost fuel left_time 0 (nt_operator (sy_world s)) = (Ok (n, cq, left), p')
      \<Longrightarrow> \<forall>c\<in>set cq. ov_token c \<noteq> IO_URING_TIMEOUT_USERDATA"
  shows "adapt_iocp W clk cost fuel N left_time s = adapt_io_uring (on_iocp W clk cost fuel op N) left_time s"
proof -
  obtain r p' where sel: "iocp_select W clk cost fuel left_time 0 (nt_operator (sy_world s)) = (r, p')" by fastforce
  show ?thesis
  proof (cases r)
    case (Ok a)
    obtain n cq left where a: "a = (n, cq, left)" by (cases a)
    have n: "n = length cq" using iocp_select_count sel Ok a by blast
    have "\<forall>c\<in>set cq. ov_token c \<noteq> IO_URING_TIMEOUT_USERDATA" using assms sel Ok a by blast
    note disp = dispatch_overlapped_cqes [OF this, of N]
    show ?thesis using sel Ok a
      by (cases "cq = []") (simp_all add: adapt_iocp_def adapt_io_uring_def call_bind_def on_operator_def iocp_kind_def
          on_iocp_sel dispatch_on_iocp n disp)
  qed (use sel in \<open>simp_all add: adapt_iocp_def adapt_io_uring_def call_bind_def on_operator_def iocp_kind_def on_iocp_sel\<close>)
qed

lemma token_on_iocp: "el_token (on_iocp W clk cost fuel op N) n = el_token N n"
  by (auto simp: el_token_def on_iocp_sel fun_eq_iff split: option.splits)

lemma iocp_submit_is_submit: "iocp_submit N n op = el_submit (on_iocp W clk cost fuel op N) n"
  by (simp add: iocp_submit_def el_submit_def on_iocp_sel token_on_iocp)

section \<open>Results reach their callers\<close>

text \<open>One selection of any operator, with the dispatch of what it reports.\<close>

lemma adapt_routes:
  assumes "\<And>t v. \<exists>v'. ne_try_resume N t v = Ok v'" and "ring_ok (sy_world s)"
    and "map_of (nt_wait_table (sy_world s)) IO_URING_TIMEOUT_USERDATA = None"
    and "ne_select N = Some sel" and "sel left_time (nt_operator (sy_world s)) = (Ok (cq, left), op')" and "distinct (map fst cq)"
  shows "\<exists>d s'. adapt_io_uring N left_time s = (Ok d, s') \<and> ring_ok (sy_world s')
    \<and> (\<forall>t a. map_of (nt_wait_table (sy_world s)) t = Some a \<longrightarrow> nt_arcs (sy_world s') ! a = map_of cq t)"
proof -
  let ?s = "on_world (\<lambda>w. w\<lparr>nt_operator := op'\<rparr>) s"
  have "ring_ok (sy_world ?s)" "map_of (nt_wait_table (sy_world ?s)) IO_URING_TIMEOUT_USERDATA = None"
    using assms(2,3) by (simp_all add: ring_ok_def)
  from dispatch_routes [OF assms(1) this(1) assms(6) this(2)] obtain s' where
    d: "el_dispatch_cqes N cq ?s = (Ok (), s')" "ring_ok (sy_world s')"
    "\<And>t a. map_of (nt_wait_table (sy_world ?s)) t = Some a \<Longrightarrow> nt_arcs (sy_world s') ! a = map_of cq t" by blast
  then have "\<exists>d. adapt_io_uring N left_time s = (Ok d, s')"
    using assms(4,5) by (simp add: adapt_io_uring_def call_bind_def)
  with d show ?thesis by auto
qed

text \<open>On a completion port: what the port reports for the token of a pending operation is in the handle of the caller.\<close>

lemma iocp_routes:
  assumes "\<And>t v. \<exists>v'. ne_try_resume N t v = Ok v'" and "ring_ok (sy_world s)"
    and "map_of (nt_wait_table (sy_world s)) IO_URING_TIMEOUT_USERDATA = None"
    and "iocp_select W clk cost fuel left_time 0 (nt_operator (sy_world s)) = (Ok (n, cq, left), p')"
    and "distinct (map ov_token cq)" and "\<forall>c\<in>set cq. ov_token c \<noteq> IO_URING_TIMEOUT_USERDATA"
  shows "\<exists>d s'. adapt_iocp W clk cost fuel N left_time s = (Ok d, s') \<and> ring_ok (sy_world s')
    \<and> (\<forall>t a. map_of (nt_wait_table (sy_world s)) t = Some a
         \<longrightarrow> nt_arcs (sy_world s') ! a = map_of (map (\<lambda>c. (ov_token c, ov_result c)) cq) t)"
proof -
  let ?N = "on_iocp W clk cost fuel (\<lambda>token p. (Ok (), p)) N" and ?cq = "map (\<lambda>c. (ov_token c, ov_result c)) cq"
  have r: "\<And>t v. \<exists>v'. ne_try_resume ?N t v = Ok v'" using assms(1) by (simp add: on_iocp_def)
  have d: "distinct (map fst ?cq)" using assms(5) by (simp add: comp_def)
  have "adapt_iocp W clk cost fuel N left_time s = adapt_io_uring ?N left_time s"
    by (rule adapt_iocp_is_adapt) (use assms(4,6) in auto)
  with adapt_routes [OF r assms(2,3) on_iocp_sel(1), of left_time ?cq left p'] assms(4) d show ?thesis
    by (simp add: iocp_kind_def)
qed

text \<open>On a ring: the completions the operator drained reach the callers of the pending operations.\<close>

lemma uring_routes:
  assumes "\<And>t v. \<exists>v'. ne_try_resume N t v = Ok v'" and "ring_ok (sy_world s)"
    and "map_of (nt_wait_table (sy_world s)) IO_URING_TIMEOUT_USERDATA = None" and "ur_kernel_ok U"
    and "op_select U cost left_time 0 (nt_operator (sy_world s)) = (Ok (n, cq, left), p')" and "distinct (map fst cq)"
  shows "\<exists>d s'. adapt_io_uring (on_io_uring U cost op N) left_time s = (Ok d, s') \<and> ring_ok (sy_world s')
    \<and> (\<forall>t a. map_of (nt_wait_table (sy_world s)) t = Some a \<longrightarrow> nt_arcs (sy_world s') ! a = map_of cq t)"
proof (rule adapt_routes [where op' = p' and left = left])
  show "ne_select (on_io_uring U cost op N) = Some (\<lambda>left_time p. case op_select U cost left_time 0 p of
      (r, p') \<Rightarrow> (io_kind (rust_bind r (\<lambda>(taken, cq, left). Ok (cq, left))), p'))"
    using assms(4) by (simp add: on_io_uring_def)
qed (use assms in \<open>simp_all add: on_io_uring_def io_kind_def\<close>)


section \<open>The adapter for polling\<close>

text \<open>
  The operations of the crate: the token is the key of the event that says what to watch, and the poller reports in edge mode where
  it can. \<open>Interest::read\<close>, \<open>write\<close> and \<open>read_and_write\<close> fold the token as \<open>do_register\<close> does.
\<close>

record 'p polling_ops =
  pl_supports_edge :: bool
  pl_add :: "int \<Rightarrow> u64 \<Rightarrow> interest \<Rightarrow> bool \<Rightarrow> 'p \<Rightarrow> (error_kind, unit) rust \<times> 'p"
  pl_modify :: "int \<Rightarrow> u64 \<Rightarrow> interest \<Rightarrow> bool \<Rightarrow> 'p \<Rightarrow> (error_kind, unit) rust \<times> 'p"
  pl_delete :: "int \<Rightarrow> 'p \<Rightarrow> (error_kind, unit) rust \<times> 'p"
  pl_wait :: "nat option \<Rightarrow> 'p \<Rightarrow> (error_kind, unit) rust \<times> event list \<times> 'p"

definition polling_register :: "'p polling_ops \<Rightarrow> int \<Rightarrow> u64 \<Rightarrow> interest \<Rightarrow> 'p \<Rightarrow> (error_kind, unit) rust \<times> 'p" where
  "polling_register P fd key i p =
     (if fd < 0 then (Panic ''overflow'', p) else pl_add P fd key i (pl_supports_edge P) p)"

definition polling_reregister :: "'p polling_ops \<Rightarrow> int \<Rightarrow> u64 \<Rightarrow> interest \<Rightarrow> 'p \<Rightarrow> (error_kind, unit) rust \<times> 'p" where
  "polling_reregister P fd key i p =
     (if fd < 0 then (Panic ''overflow'', p) else pl_modify P fd key i (pl_supports_edge P) p)"

definition polling_deregister :: "'p polling_ops \<Rightarrow> int \<Rightarrow> 'p \<Rightarrow> (error_kind, unit) rust \<times> 'p" where
  "polling_deregister P fd p = (if fd < 0 then (Panic ''overflow'', p) else pl_delete P fd p)"

definition polling_select :: "'p polling_ops \<Rightarrow> nat option \<Rightarrow> 'p \<Rightarrow> (error_kind, unit) rust \<times> event list \<times> 'p" where
  "polling_select P timeout p = pl_wait P timeout p"

definition polling_adapter :: "'p polling_ops \<Rightarrow> 'p mio_ops" where
  "polling_adapter P =
     \<lparr>mi_register = polling_register P, mi_reregister = polling_reregister P, mi_deregister = polling_deregister P,
      mi_poll = polling_select P\<rparr>"

text \<open>The same without the check of the descriptor: a registry if the crate keeps one.\<close>

definition polling_raw :: "'p polling_ops \<Rightarrow> 'p mio_ops" where
  "polling_raw P =
     \<lparr>mi_register = (\<lambda>fd key i. pl_add P fd key i (pl_supports_edge P)),
      mi_reregister = (\<lambda>fd key i. pl_modify P fd key i (pl_supports_edge P)),
      mi_deregister = pl_delete P, mi_poll = pl_wait P\<rparr>"

lemma polling_nonneg:
  assumes "0 \<le> fd"
  shows "do_register (polling_adapter P) fd = do_register (polling_raw P) fd"
    "do_reregister (polling_adapter P) fd = do_reregister (polling_raw P) fd"
    "do_deregister (polling_adapter P) fd = do_deregister (polling_raw P) fd"
  using assms
  by (simp_all add: fun_eq_iff do_register_def do_reregister_def do_deregister_def polling_adapter_def polling_raw_def
      polling_register_def polling_reregister_def polling_deregister_def)

text \<open>
  For descriptors of the operating system every operation of the selector does on \<^verbatim>\<open>polling\<close> what it does on a poller without the
  check, so that what is proved of the selector holds of it.
\<close>

lemma polling_selector:
  assumes "0 \<le> fd"
  shows "sl_add_read_event (polling_adapter P) fd = sl_add_read_event (polling_raw P) fd"
    "sl_add_write_event (polling_adapter P) fd = sl_add_write_event (polling_raw P) fd"
    "sl_del_event (polling_adapter P) fd = sl_del_event (polling_raw P) fd"
    "sl_del_read_event (polling_adapter P) fd = sl_del_read_event (polling_raw P) fd"
    "sl_del_write_event (polling_adapter P) fd = sl_del_write_event (polling_raw P) fd"
    "sl_select (polling_adapter P) = sl_select (polling_raw P)"
proof -
  note eqs = polling_nonneg [OF assms, of P]
  have reg: "sl_register (polling_adapter P) fd = sl_register (polling_raw P) fd"
    "sl_reregister (polling_adapter P) fd = sl_reregister (polling_raw P) fd"
    "sl_deregister (polling_adapter P) fd = sl_deregister (polling_raw P) fd"
    by (simp_all add: fun_eq_iff sl_register_def sl_reregister_def sl_deregister_def eqs)
  show del: "sl_del_event (polling_adapter P) fd = sl_del_event (polling_raw P) fd"
    by (simp add: fun_eq_iff sl_del_event_def reg)
  show "sl_add_read_event (polling_adapter P) fd = sl_add_read_event (polling_raw P) fd"
    "sl_add_write_event (polling_adapter P) fd = sl_add_write_event (polling_raw P) fd"
    "sl_del_read_event (polling_adapter P) fd = sl_del_read_event (polling_raw P) fd"
    "sl_del_write_event (polling_adapter P) fd = sl_del_write_event (polling_raw P) fd"
    by (simp_all add: fun_eq_iff sl_add_read_event_def sl_add_write_event_def sl_del_read_event_def sl_del_write_event_def reg del)
  show "sl_select (polling_adapter P) = sl_select (polling_raw P)"
    by (simp add: fun_eq_iff sl_select_def do_select_def polling_adapter_def polling_raw_def polling_select_def)
qed

end
