(* ===== verification/OC_Public.thy ===== *)
theory OC_Public
  imports OC_Event_Loops OC_Beans
begin

text \<open>
  The public crate (\<^verbatim>\<open>open-coroutine/src/lib.rs\<close>): typed tasks over the C interface, which passes the closure and its result
  as addresses of leaked boxes (\<open>boxes\<close> of \<open>OC_Beans\<close>), joining one or any of several handles, growing the stack and
  connecting with a timeout.
\<close>

section \<open>Tasks\<close>

text \<open>What is boxed: a closure with its parameter, the result of a task, or a value.\<close>

datatype ('f, 'p, 'r) boxed = Bx_task 'f 'p | Bx_result "string + 'r" | Bx_closure 'f | Bx_value 'r

datatype box_type = Ty_task | Ty_result | Ty_closure | Ty_value

fun box_ty :: "('f, 'p, 'r) boxed \<Rightarrow> box_type" where
  "box_ty (Bx_task f p) = Ty_task"
| "box_ty (Bx_result r) = Ty_result"
| "box_ty (Bx_closure f) = Ty_closure"
| "box_ty (Bx_value v) = Ty_value"

text \<open>
  \<open>task_main\<close>: the pair is read from its address, which leaves the box allocated, and called; a panic becomes an error
  with its message. Addresses of boxes are positive: allocation \<open>k\<close> has address \<open>k + 1\<close>.
\<close>

definition addr :: "nat \<Rightarrow> nat" where
  "addr k = k + 1"

definition task_outcome :: "(string option, 'r) rust \<Rightarrow> string + 'r" where
  "task_outcome r =
     (case r of
        Ok v \<Rightarrow> Inr v
      | Err (Some msg) \<Rightarrow> Inl msg
      | _ \<Rightarrow> Inl ''task failed without message'')"

definition task_main ::
  "('f \<Rightarrow> 'p \<Rightarrow> (string option, 'r) rust) \<Rightarrow> nat \<Rightarrow> ('f, 'p, 'r) boxed boxes
    \<Rightarrow> (undefined_behaviour, nat) rust \<times> ('f, 'p, 'r) boxed boxes" where
  "task_main call input b =
     (case deref box_ty Ty_task (input - 1) b of
        Ok (Bx_task f p) \<Rightarrow>
          (case leak (Bx_result (task_outcome (call f p))) b of (k, b1) \<Rightarrow> (Ok (addr k), b1))
      | Err e \<Rightarrow> (Err e, b)
      | _ \<Rightarrow> (Err Wrong_type, b))"

text \<open>\<open>crate_task\<close>: the pair is leaked and its address is the parameter of the C task.\<close>

definition crate_task :: "'f \<Rightarrow> 'p \<Rightarrow> ('f, 'p, 'r) boxed boxes \<Rightarrow> nat \<times> ('f, 'p, 'r) boxed boxes" where
  "crate_task f param b = (case leak (Bx_task f param) b of (k, b1) \<Rightarrow> (addr k, b1))"

datatype public_error = Join_failed | Task_error string | Cancel_failed | Bad undefined_behaviour

text \<open>What \<open>join\<close> and \<open>timeout_join\<close> make of the number the C interface answers.\<close>

definition join_ptr ::
  "int \<Rightarrow> ('f, 'p, 'r) boxed boxes \<Rightarrow> (public_error, 'r option) rust \<times> ('f, 'p, 'r) boxed boxes" where
  "join_ptr ptr b =
     (if ptr < 0 then (Err Join_failed, b)
      else if ptr = 0 then (Ok None, b)
      else case unbox box_ty Ty_result (nat ptr - 1) b of
        (Ok (Bx_result (Inr r)), b1) \<Rightarrow> (Ok (Some r), b1)
      | (Ok (Bx_result (Inl msg)), b1) \<Rightarrow> (Err (Task_error msg), b1)
      | (Err e, b1) \<Rightarrow> (Err (Bad e), b1)
      | (_, b1) \<Rightarrow> (Err (Bad Wrong_type), b1))"

text \<open>\<open>cjoin\<close> is \<open>task_join\<close> or \<open>task_timeout_join\<close> of the hook library on the rest \<open>'s\<close> of the world.\<close>

definition public_join ::
  "('s \<Rightarrow> (unit, int) rust \<times> 's) \<Rightarrow> 's \<times> ('f, 'p, 'r) boxed boxes
    \<Rightarrow> (public_error, 'r option) rust \<times> 's \<times> ('f, 'p, 'r) boxed boxes" where
  "public_join cjoin st =
     (case st of (s, b) \<Rightarrow>
        (case cjoin s of
           (Ok ptr, s1) \<Rightarrow> (case join_ptr ptr b of (r, b1) \<Rightarrow> (r, s1, b1))
         | (Panic m, s1) \<Rightarrow> (Panic m, s1, b)
         | (_, s1) \<Rightarrow> (Hang, s1, b)))"

definition public_timeout_join ::
  "(u64 \<Rightarrow> 's \<Rightarrow> (unit, int) rust \<times> 's) \<Rightarrow> nat \<Rightarrow> 's \<times> ('f, 'p, 'r) boxed boxes
    \<Rightarrow> (public_error, 'r option) rust \<times> 's \<times> ('f, 'p, 'r) boxed boxes" where
  "public_timeout_join cjoin dur st =
     (case u64_try_from dur of
        None \<Rightarrow> (Panic ''overflow'', st)
      | Some ns \<Rightarrow> public_join (cjoin ns) st)"

definition try_cancel :: "int \<Rightarrow> (public_error, unit) rust" where
  "try_cancel r = (if r = 0 then Ok () else Err Cancel_failed)"

text \<open>Starting and stopping the framework.\<close>

definition public_init ::
  "config \<Rightarrow> (nat \<Rightarrow> ('f, 'q) pool_sys) \<Rightarrow> ('f, 'q) event_loops option \<times> bool option
    \<Rightarrow> (unit, unit) rust \<times> ('f, 'q) event_loops option \<times> bool option" where
  "public_init config pool st =
     (case open_coroutine_init config pool st of
        (code, st1) \<Rightarrow> (if code = 0 then Ok () else Panic ''open-coroutine init failed !'', st1))"

definition public_shutdown ::
  "(nat \<Rightarrow> ('f, 'q) loop_sys \<Rightarrow> ('f, 'q) loop_sys) \<Rightarrow> (('f, 'q) event_loops \<Rightarrow> ('f, 'q) event_loops)
    \<Rightarrow> ('f, 'q) event_loops option \<Rightarrow> (unit, unit) rust \<times> ('f, 'q) event_loops option" where
  "public_shutdown meanwhile leave inst =
     (case open_coroutine_stop meanwhile leave inst of (r, i) \<Rightarrow> (rust_bind r (\<lambda>_. Ok ()), i))"

section \<open>Joining any of several tasks\<close>

text \<open>\<open>clk\<close> reads the clock, \<open>tj d h\<close> is \<open>timeout_join\<close> of the handle \<open>h\<close>. \<open>None\<close>: no handle answered in this round.\<close>

fun any_round ::
  "('s \<Rightarrow> u64 \<times> 's) \<Rightarrow> (nat \<Rightarrow> 'h \<Rightarrow> 's \<Rightarrow> (public_error, 'r option) rust \<times> 's) \<Rightarrow> u64 \<Rightarrow> 'h list \<Rightarrow> 's
    \<Rightarrow> (public_error, 'r option) rust option \<times> 's" where
  "any_round clk tj timeout_time [] s = (None, s)"
| "any_round clk tj timeout_time (h # hs) s =
     (case clk s of (t, s1) \<Rightarrow>
        let left_time = sat_sub timeout_time t
        in if left_time = 0 then (Some (Err Join_failed), s1)
           else case tj (min (unat left_time) SLICE) h s1 of
             (Ok x, s2) \<Rightarrow> (Some (Ok x), s2)
           | (Err e, s2) \<Rightarrow> any_round clk tj timeout_time hs s2
           | (Panic m, s2) \<Rightarrow> (Some (Panic m), s2)
           | (Hang, s2) \<Rightarrow> (Some Hang, s2))"

fun any_loop ::
  "('s \<Rightarrow> u64 \<times> 's) \<Rightarrow> (nat \<Rightarrow> 'h \<Rightarrow> 's \<Rightarrow> (public_error, 'r option) rust \<times> 's) \<Rightarrow> u64 \<Rightarrow> 'h list \<Rightarrow> nat \<Rightarrow> 's
    \<Rightarrow> (public_error, 'r option) rust \<times> 's" where
  "any_loop clk tj timeout_time hs 0 s = (Hang, s)"
| "any_loop clk tj timeout_time hs (Suc fuel) s =
     (case any_round clk tj timeout_time hs s of
        (Some r, s1) \<Rightarrow> (r, s1)
      | (None, s1) \<Rightarrow> any_loop clk tj timeout_time hs fuel s1)"

definition any_timeout_join ::
  "('s \<Rightarrow> u64 \<times> 's) \<Rightarrow> (nat \<Rightarrow> 'h \<Rightarrow> 's \<Rightarrow> (public_error, 'r option) rust \<times> 's) \<Rightarrow> nat \<Rightarrow> nat \<Rightarrow> 'h list \<Rightarrow> 's
    \<Rightarrow> (public_error, 'r option) rust \<times> 's" where
  "any_timeout_join clk tj fuel dur hs s =
     (if hs = [] then (Ok None, s)
      else case clk s of (t, s1) \<Rightarrow> any_loop clk tj (get_timeout_time t dur) hs fuel s1)"

text \<open>\<open>any_join\<close>: without a limit, and the other tasks are cancelled after a success. \<open>Duration::MAX\<close> does not fit into 64 bits of nanoseconds.\<close>

definition duration_max :: nat where
  "duration_max = (2 ^ 64 - 1) * 10 ^ 9 + 999999999"

definition any_join ::
  "('s \<Rightarrow> u64 \<times> 's) \<Rightarrow> (nat \<Rightarrow> 'h \<Rightarrow> 's \<Rightarrow> (public_error, 'r option) rust \<times> 's) \<Rightarrow> ('h \<Rightarrow> 's \<Rightarrow> 's) \<Rightarrow> nat \<Rightarrow> 'h list \<Rightarrow> 's
    \<Rightarrow> (public_error, 'r option) rust \<times> 's" where
  "any_join clk tj cancel fuel hs s =
     (case any_timeout_join clk tj fuel duration_max hs s of
        (Ok x, s1) \<Rightarrow> (Ok x, fold cancel hs s1)
      | rs \<Rightarrow> rs)"

section \<open>Growing the stack and connecting\<close>

definition execute_on_stack ::
  "('f \<Rightarrow> 'r) \<Rightarrow> nat \<Rightarrow> ('f, 'p, 'r) boxed boxes \<Rightarrow> (undefined_behaviour, nat) rust \<times> ('f, 'p, 'r) boxed boxes" where
  "execute_on_stack call input b =
     (case deref box_ty Ty_closure (input - 1) b of
        Ok (Bx_closure f) \<Rightarrow> (case leak (Bx_value (call f)) b of (k, b1) \<Rightarrow> (Ok (addr k), b1))
      | Err e \<Rightarrow> (Err e, b)
      | _ \<Rightarrow> (Err Wrong_type, b))"

text \<open>\<open>grow input b\<close> is \<open>maybe_grow_stack\<close> on \<open>execute_on_stack\<close>.\<close>

definition maybe_grow ::
  "(nat \<Rightarrow> ('f, 'p, 'r) boxed boxes \<Rightarrow> (unit, int) rust \<times> ('f, 'p, 'r) boxed boxes) \<Rightarrow> 'f \<Rightarrow> ('f, 'p, 'r) boxed boxes
    \<Rightarrow> (error_kind, 'r) rust \<times> ('f, 'p, 'r) boxed boxes" where
  "maybe_grow grow f b =
     (case leak (Bx_closure f) b of (k, b1) \<Rightarrow>
        (case grow (addr k) b1 of
           (Ok ptr, b2) \<Rightarrow>
             (if ptr < 0 then (Err EK_InvalidInput, b2)
              else case unbox box_ty Ty_value (nat ptr - 1) b2 of
                (Ok (Bx_value r), b3) \<Rightarrow> (Ok r, b3)
              | (_, b3) \<Rightarrow> (Panic ''undefined behaviour'', b3))
         | (Panic m, b2) \<Rightarrow> (Panic m, b2)
         | (_, b2) \<Rightarrow> (Hang, b2)))"

text \<open>\<open>connect d a\<close> is \<open>TcpStream::connect_timeout\<close>. The last error is remembered.\<close>

fun connect_one ::
  "('s \<Rightarrow> u64 \<times> 's) \<Rightarrow> (nat \<Rightarrow> 'a \<Rightarrow> 's \<Rightarrow> ('e, 'c) rust \<times> 's) \<Rightarrow> u64 \<Rightarrow> nat \<Rightarrow> 'a \<Rightarrow> 'e option \<Rightarrow> 's
    \<Rightarrow> ('e option, 'c) rust \<times> 's" where
  "connect_one clk connect timeout_time 0 a last_err s = (Hang, s)"
| "connect_one clk connect timeout_time (Suc fuel) a last_err s =
     (case clk s of (t, s1) \<Rightarrow>
        let left_time = sat_sub timeout_time t
        in if left_time = 0 then (Err last_err, s1)
           else case connect (min (unat left_time) SLICE) a s1 of
             (Ok l, s2) \<Rightarrow> (Ok l, s2)
           | (Err e, s2) \<Rightarrow> connect_one clk connect timeout_time fuel a (Some e) s2
           | (Panic m, s2) \<Rightarrow> (Panic m, s2)
           | (Hang, s2) \<Rightarrow> (Hang, s2))"

fun connect_each ::
  "('s \<Rightarrow> u64 \<times> 's) \<Rightarrow> (nat \<Rightarrow> 'a \<Rightarrow> 's \<Rightarrow> ('e, 'c) rust \<times> 's) \<Rightarrow> u64 \<Rightarrow> nat \<Rightarrow> 'a list \<Rightarrow> 'e option \<Rightarrow> 's
    \<Rightarrow> ('e option, 'c) rust \<times> 's" where
  "connect_each clk connect timeout_time fuel [] last_err s = (Err last_err, s)"
| "connect_each clk connect timeout_time fuel (a # rest) last_err s =
     (case connect_one clk connect timeout_time fuel a last_err s of
        (Err last_err1, s1) \<Rightarrow> connect_each clk connect timeout_time fuel rest last_err1 s1
      | rs \<Rightarrow> rs)"

datatype 'e connect_error = Last_error 'e | Could_not_resolve

definition connect_timeout ::
  "('s \<Rightarrow> u64 \<times> 's) \<Rightarrow> (nat \<Rightarrow> 'a \<Rightarrow> 's \<Rightarrow> ('e, 'c) rust \<times> 's) \<Rightarrow> nat \<Rightarrow> 'a list \<Rightarrow> nat \<Rightarrow> 's
    \<Rightarrow> ('e connect_error, 'c) rust \<times> 's" where
  "connect_timeout clk connect fuel addrs timeout s =
     (case clk s of (t, s1) \<Rightarrow>
        (case connect_each clk connect (get_timeout_time t timeout) fuel addrs None s1 of
           (Ok l, s2) \<Rightarrow> (Ok l, s2)
         | (Err (Some e), s2) \<Rightarrow> (Err (Last_error e), s2)
         | (Err None, s2) \<Rightarrow> (Err Could_not_resolve, s2)
         | (Panic m, s2) \<Rightarrow> (Panic m, s2)
         | (Hang, s2) \<Rightarrow> (Hang, s2)))"

section \<open>Lemmas\<close>

text \<open>
  A task's way: what \<open>crate_task\<close> leaks, \<open>task_main\<close> runs, and joining its address takes out and frees. Of the two boxes
  only that of the closure remains.
\<close>

lemma task_round_trip:
  assumes "crate_task f param b = (input, b1)" and "\<forall>k\<in>dom (map_of (bx_heap b)). k < bx_next b"
  shows "\<exists>ptr b2 b3. task_main call input b1 = (Ok ptr, b2) \<and> 0 < ptr
    \<and> join_ptr (int ptr) b2 = ((case task_outcome (call f param) of Inr r \<Rightarrow> Ok (Some r) | Inl msg \<Rightarrow> Err (Task_error msg)), b3)
    \<and> map_of (bx_heap b3) = (map_of (bx_heap b))(bx_next b \<mapsto> Bx_task f param)"
proof -
  have b1: "input = bx_next b + 1" "bx_next b1 = bx_next b + 1" "map_of (bx_heap b1) = (map_of (bx_heap b))(bx_next b \<mapsto> Bx_task f param)"
    using assms(1) by (auto simp: crate_task_def leak_def addr_def AList.update_conv')
  let ?r = "Bx_result (task_outcome (call f param)) :: ('a, 'b, 'c) boxed"
  let ?b2 = "b1\<lparr>bx_next := bx_next b1 + 1, bx_heap := AList.update (bx_next b1) ?r (bx_heap b1)\<rparr>"
  have main: "task_main call input b1 = (Ok (bx_next b1 + 1), ?b2)"
    using b1 by (simp add: task_main_def deref_def leak_def addr_def)
  have h2: "map_of (bx_heap ?b2) = (map_of (bx_heap b1))(bx_next b1 \<mapsto> ?r)" by (simp add: AList.update_conv')
  have fresh: "map_of (bx_heap b) (bx_next b1) = None"
  proof (rule ccontr)
    assume "map_of (bx_heap b) (bx_next b1) \<noteq> None"
    then have "bx_next b1 < bx_next b" using assms(2) by (simp add: domIff)
    with b1(2) show False by simp
  qed
  let ?b3 = "?b2\<lparr>bx_heap := AList.delete (bx_next b1) (bx_heap ?b2)\<rparr>"
  have "map_of (bx_heap ?b3) = (map_of (bx_heap b1))(bx_next b1 := None)"
    by (simp add: AList.delete_conv' AList.update_conv')
  also have "\<dots> = map_of (bx_heap b1)" using fresh b1(2,3) by (auto simp: fun_eq_iff)
  finally have h3: "map_of (bx_heap ?b3) = (map_of (bx_heap b))(bx_next b \<mapsto> Bx_task f param)" using b1(3) by simp
  have "join_ptr (int (bx_next b1 + 1)) ?b2
      = ((case task_outcome (call f param) of Inr r \<Rightarrow> Ok (Some r) | Inl msg \<Rightarrow> Err (Task_error msg)), ?b3)"
    using h2 by (auto simp: join_ptr_def unbox_def deref_def nat_add_distrib split: sum.splits)
  with main h3 show ?thesis by (intro exI [of _ "bx_next b1 + 1"] exI [of _ ?b2] exI [of _ ?b3] conjI) simp_all
qed

text \<open>If every join fails, for instance because every task panicked, \<open>any_join\<close> goes on for ever.\<close>

lemma any_round_all_fail:
  assumes "\<And>d h s. \<exists>e s1. tj d h s = (Err e, s1)" and "\<And>s. fst (clk s) < timeout_time"
  shows "\<exists>s1. any_round clk tj timeout_time hs s = (None, s1)"
proof (induction hs arbitrary: s)
  case (Cons h hs)
  obtain t s1 where n: "clk s = (t, s1)" by fastforce
  then have "\<not> timeout_time \<le> t" using assms(2) [of s] by simp
  obtain e s2 where "tj (min (unat (sat_sub timeout_time t)) SLICE) h s1 = (Err e, s2)" using assms(1) by blast
  with n Cons.IH [of s2] \<open>\<not> timeout_time \<le> t\<close> show ?case by simp
qed simp

lemma any_join_spins:
  assumes "\<And>d h s. \<exists>e s1. tj d h s = (Err e, s1)" and "\<And>s. fst (clk s) < u64_max" and "hs \<noteq> []"
  shows "fst (any_join clk tj cancel fuel hs s) = Hang"
proof -
  have loop: "fst (any_loop clk tj u64_max hs fuel s) = Hang" for s
  proof (induction fuel arbitrary: s)
    case (Suc fuel)
    from any_round_all_fail [of tj clk u64_max hs s] assms obtain s1 where "any_round clk tj u64_max hs s = (None, s1)" by blast
    with Suc show ?case by simp
  qed simp
  have "get_timeout_time t duration_max = u64_max" for t
    by (simp add: get_timeout_time_def u64_try_from_def duration_max_def)
  then show ?thesis
    using assms(3) loop by (auto simp: any_join_def any_timeout_join_def split: prod.splits rust.splits) (metis fst_conv rust.distinct)+
qed

text \<open>A timeout of 0 is reported as a failure to resolve the address.\<close>

lemma connect_zero:
  "clk s = (t, s1) \<Longrightarrow> clk s1 = (t, s2) \<Longrightarrow> connect_timeout clk connect (Suc fuel) [a] 0 s = (Err Could_not_resolve, s2)"
proof -
  assume now: "clk s = (t, s1)" "clk s1 = (t, s2)"
  have "unat t < 2 ^ 64" using unsigned_less [of t] by simp
  then have "get_timeout_time t 0 = t" by (simp add: get_timeout_time_def u64_try_from_def sat_add_def)
  with now show ?thesis by (simp add: connect_timeout_def)
qed

end
