(* ===== verification/OC_Entry.thy ===== *)
theory OC_Entry
  imports OC_Public
begin

text \<open>
  How the framework gets into a program: the hooks of Windows (\<^verbatim>\<open>hook/src/syscall/windows.rs\<close>), which are created when the library
  is attached to the process, and the attribute macro \<open>main\<close> (\<^verbatim>\<open>macros/src/lib.rs\<close>), which wraps a function into the start and
  the stop of the framework.
\<close>

section \<open>Hooks of Windows\<close>

text \<open>The crate \<^verbatim>\<open>minhook\<close>: creating a hook answers the address of the original function or an error.\<close>

record 'm minhook =
  mh_create :: "string \<Rightarrow> syscall_name \<Rightarrow> 'm \<Rightarrow> nat option \<times> 'm"
  mh_enable_all :: "'m \<Rightarrow> bool \<times> 'm"
  mh_disable_all :: "'m \<Rightarrow> bool \<times> 'm"

definition hook_table :: "(string \<times> syscall_name) list" where
  "hook_table =
     [(''kernel32.dll'', Sn_Sleep), (''kernel32.dll'', Sn_CreateFileW), (''kernel32.dll'', Sn_SetFilePointerEx),
      (''ws2_32.dll'', Sn_accept), (''ws2_32.dll'', Sn_WSAAccept), (''ws2_32.dll'', Sn_connect),
      (''ws2_32.dll'', Sn_ioctlsocket), (''ws2_32.dll'', Sn_listen), (''ws2_32.dll'', Sn_recv), (''ws2_32.dll'', Sn_send),
      (''ws2_32.dll'', Sn_shutdown), (''ws2_32.dll'', Sn_socket), (''ws2_32.dll'', Sn_setsockopt),
      (''ws2_32.dll'', Sn_WSARecv), (''ws2_32.dll'', Sn_WSASend), (''ws2_32.dll'', Sn_WSASocketW),
      (''ws2_32.dll'', Sn_select), (''ws2_32.dll'', Sn_WSAPoll)]"

text \<open>\<open>impl_hook\<close>: the original address is kept in a cell that is written once. The cells outlive a detach.\<close>

fun create_hooks ::
  "'m minhook \<Rightarrow> (string \<times> syscall_name) list \<Rightarrow> (syscall_name \<times> nat) list \<times> 'm
    \<Rightarrow> (error_kind, unit) rust \<times> (syscall_name \<times> nat) list \<times> 'm" where
  "create_hooks H [] (cells, m) = (Ok (), cells, m)"
| "create_hooks H ((module, n) # hooks) (cells, m) =
     (case map_of cells n of
        Some ptr \<Rightarrow> create_hooks H hooks (cells, m)
      | None \<Rightarrow>
          (case mh_create H module n m of
             (None, m1) \<Rightarrow> (Panic ''hook failed !'', cells, m1)
           | (Some ptr, m1) \<Rightarrow>
               (if ptr = 0 then (Panic ''syscall not found !'', cells, m1)
                else create_hooks H hooks ((n, ptr) # cells, m1))))"

definition attach ::
  "'m minhook \<Rightarrow> (syscall_name \<times> nat) list \<times> 'm \<Rightarrow> (error_kind, unit) rust \<times> (syscall_name \<times> nat) list \<times> 'm" where
  "attach H st =
     (case create_hooks H hook_table st of
        (Ok u, cells, m) \<Rightarrow> (case mh_enable_all H m of (ok, m1) \<Rightarrow> (if ok then Ok () else Err EK_Other, cells, m1))
      | rs \<Rightarrow> rs)"

definition DllMain ::
  "'m minhook \<Rightarrow> nat \<Rightarrow> (syscall_name \<times> nat) list \<times> 'm \<Rightarrow> (error_kind, bool) rust \<times> (syscall_name \<times> nat) list \<times> 'm" where
  "DllMain H call_reason st =
     (if call_reason = 1
      then (case attach H st of
              (Ok u, st1) \<Rightarrow> (Ok True, st1)
            | (Err e, st1) \<Rightarrow> (Ok False, st1)
            | (Panic msg, st1) \<Rightarrow> (Panic msg, st1)
            | (Hang, st1) \<Rightarrow> (Hang, st1))
      else if call_reason = 0
      then (case st of (cells, m) \<Rightarrow> (case mh_disable_all H m of (ok, m1) \<Rightarrow> (Ok ok, cells, m1)))
      else (Ok True, st))"

text \<open>What a hooked symbol does: it needs its cell, then chooses as on Unix.\<close>

definition win_hooked ::
  "(syscall_name \<times> nat) list \<Rightarrow> syscall_name \<Rightarrow> bool option \<Rightarrow> bool \<Rightarrow> bool \<Rightarrow> (nat \<Rightarrow> (error_kind, 'a) rust) \<Rightarrow> (nat \<Rightarrow> (error_kind, 'a) rust)
    \<Rightarrow> (error_kind, 'a) rust" where
  "win_hooked cells n hook in_co ci through raw =
     (case map_of cells n of
        None \<Rightarrow> Panic ''hook failed !''
      | Some ptr \<Rightarrow> hooked hook in_co ci (through ptr) (raw ptr))"

text \<open>After a successful attach every hooked symbol finds an original function, also the cells that were there before.\<close>

lemma create_hooks_cells:
  assumes "create_hooks H hooks (cells, m) = (Ok (), cells', m')"
  shows "map_of cells n = Some ptr \<Longrightarrow> map_of cells' n = Some ptr" and "(d, n) \<in> set hooks \<Longrightarrow> map_of cells' n \<noteq> None"
    and "(\<And>k. map_of cells k \<noteq> Some 0) \<Longrightarrow> map_of cells' k \<noteq> Some 0"
proof -
  have "(\<forall>n ptr. map_of cells n = Some ptr \<longrightarrow> map_of cells' n = Some ptr) \<and> (\<forall>d n. (d, n) \<in> set hooks \<longrightarrow> map_of cells' n \<noteq> None)
    \<and> ((\<forall>k. map_of cells k \<noteq> Some 0) \<longrightarrow> (\<forall>k. map_of cells' k \<noteq> Some 0))"
    using assms
  proof (induction hooks arbitrary: cells m)
    case (Cons h hooks)
    obtain d n where h: "h = (d, n)" by fastforce
    show ?case
    proof (cases "map_of cells n")
      case (Some ptr)
      with Cons.prems h have "create_hooks H hooks (cells, m) = (Ok (), cells', m')" by simp
      note ih = Cons.IH [OF this]
      with Some have "map_of cells' n = Some ptr" by blast
      with ih h show ?thesis by auto
    next
      case None
      obtain p m1 where cr: "mh_create H d n m = (p, m1)" by fastforce
      obtain ptr where p: "p = Some ptr" "ptr \<noteq> 0" and c: "create_hooks H hooks ((n, ptr) # cells, m1) = (Ok (), cells', m')"
        using Cons.prems h None cr by (cases p) (auto split: if_splits)
      note ih = Cons.IH [OF c]
      have "map_of ((n, ptr) # cells) n = Some ptr" by simp
      with ih have new: "map_of cells' n = Some ptr" by blast
      have keep: "map_of cells' k = Some q" if "map_of cells k = Some q" for k q
      proof -
        from that None have "map_of ((n, ptr) # cells) k = Some q" by auto
        with ih show ?thesis by blast
      qed
      have "map_of cells' k \<noteq> Some 0" if "\<forall>k. map_of cells k \<noteq> Some 0" for k
      proof -
        from that p(2) have "\<forall>k. map_of ((n, ptr) # cells) k \<noteq> Some 0" by auto
        with ih show ?thesis by blast
      qed
      with new keep ih h show ?thesis by auto
    qed
  qed simp
  then show "map_of cells n = Some ptr \<Longrightarrow> map_of cells' n = Some ptr" "(d, n) \<in> set hooks \<Longrightarrow> map_of cells' n \<noteq> None"
    "(\<And>k. map_of cells k \<noteq> Some 0) \<Longrightarrow> map_of cells' k \<noteq> Some 0" by blast+
qed

lemma attach_hooks_all:
  assumes "attach H ([], m) = (Ok (), cells, m')" and "(d, n) \<in> set hook_table"
  shows "\<exists>ptr. ptr \<noteq> 0 \<and> win_hooked cells n hook in_co ci through raw = hooked hook in_co ci (through ptr) (raw ptr)"
proof -
  obtain r c m1 where run: "create_hooks H hook_table ([], m) = (r, c, m1)" by (cases "create_hooks H hook_table ([], m)") auto
  with assms(1) have "r = Ok ()" "c = cells"
    by (cases r; auto simp: attach_def split: prod.splits)+
  with run have ok: "create_hooks H hook_table ([], m) = (Ok (), cells, m1)" by simp
  obtain ptr where ptr: "map_of cells n = Some ptr" using create_hooks_cells(2) [OF ok assms(2)] by blast
  moreover have "ptr \<noteq> 0"
  proof
    assume "ptr = 0"
    with create_hooks_cells(3) [OF ok, of n] ptr show False by simp
  qed
  ultimately show ?thesis by (auto simp: win_hooked_def)
qed

section \<open>The macro \<open>main\<close>\<close>

datatype lit = Lit_int nat | Lit_bool bool

text \<open>What the arguments are parsed into; the largest value of a type stands for an argument that was not given.\<close>

record macro_args =
  ma_event_loop_size :: nat
  ma_stack_size :: nat
  ma_min_size :: nat
  ma_max_size :: nat
  ma_keep_alive_time :: nat
  ma_min_memory_count :: nat
  ma_memory_keep_alive_time :: nat
  ma_hook :: bool

definition max64 :: nat where
  "max64 = 2 ^ 64 - 1"

definition macro_no_args :: macro_args where
  "macro_no_args = \<lparr>ma_event_loop_size = max64, ma_stack_size = max64, ma_min_size = max64, ma_max_size = max64,
     ma_keep_alive_time = max64, ma_min_memory_count = max64, ma_memory_keep_alive_time = max64, ma_hook = True\<rparr>"

text \<open>An error is one of the compiler: a value of the wrong kind, too large, or of a name that does not exist, whose value is left unread.\<close>

definition parse_int :: "lit \<Rightarrow> (string, nat) rust" where
  "parse_int l = (case l of Lit_int n \<Rightarrow> if n \<le> max64 then Ok n else Err ''number too large'' | Lit_bool b \<Rightarrow> Err ''expected integer literal'')"

definition macro_arg :: "string \<Rightarrow> lit \<Rightarrow> macro_args \<Rightarrow> (string, macro_args) rust" where
  "macro_arg name l a =
     (if name = ''event_loop_size'' then rust_bind (parse_int l) (\<lambda>n. Ok (a\<lparr>ma_event_loop_size := n\<rparr>))
      else if name = ''stack_size'' then rust_bind (parse_int l) (\<lambda>n. Ok (a\<lparr>ma_stack_size := n\<rparr>))
      else if name = ''min_size'' then rust_bind (parse_int l) (\<lambda>n. Ok (a\<lparr>ma_min_size := n\<rparr>))
      else if name = ''max_size'' then rust_bind (parse_int l) (\<lambda>n. Ok (a\<lparr>ma_max_size := n\<rparr>))
      else if name = ''keep_alive_time'' then rust_bind (parse_int l) (\<lambda>n. Ok (a\<lparr>ma_keep_alive_time := n\<rparr>))
      else if name = ''min_memory_count'' then rust_bind (parse_int l) (\<lambda>n. Ok (a\<lparr>ma_min_memory_count := n\<rparr>))
      else if name = ''memory_keep_alive_time'' then rust_bind (parse_int l) (\<lambda>n. Ok (a\<lparr>ma_memory_keep_alive_time := n\<rparr>))
      else if name = ''hook''
      then (case l of Lit_bool b \<Rightarrow> Ok (a\<lparr>ma_hook := b\<rparr>) | Lit_int n \<Rightarrow> Err ''expected boolean literal'')
      else Err ''expected `,`'')"

fun macro_parse :: "(string \<times> lit) list \<Rightarrow> macro_args \<Rightarrow> (string, macro_args) rust" where
  "macro_parse [] a = Ok a"
| "macro_parse ((name, l) # args) a = rust_bind (macro_arg name l a) (macro_parse args)"

text \<open>The generated function: the configuration, each setter called where its argument was given.\<close>

definition unless_max :: "nat \<Rightarrow> (nat \<Rightarrow> config \<Rightarrow> (unit, config) rust) \<Rightarrow> config \<Rightarrow> (unit, config) rust" where
  "unless_max n setter c = (if n \<noteq> max64 then setter n c else Ok c)"

definition macro_config :: "nat \<Rightarrow> macro_args \<Rightarrow> (unit, config) rust" where
  "macro_config cpus a =
     rust_bind (unless_max (ma_event_loop_size a) set_event_loop_size (config_default cpus))
     (\<lambda>c. rust_bind (unless_max (ma_stack_size a) set_stack_size c)
     (\<lambda>c. rust_bind (unless_max (ma_min_size a) set_min_size c)
     (\<lambda>c. rust_bind (unless_max (ma_max_size a) set_max_size c)
     (\<lambda>c. rust_bind (unless_max (ma_keep_alive_time a) (\<lambda>n. set_keep_alive_time (of_nat n)) c)
     (\<lambda>c. rust_bind (unless_max (ma_min_memory_count a) set_min_memory_count c)
     (\<lambda>c. rust_bind (unless_max (ma_memory_keep_alive_time a) (\<lambda>n. set_memory_keep_alive_time (of_nat n)) c)
     (\<lambda>c. if \<not> ma_hook a then set_hook (ma_hook a) c else Ok c)))))))"

text \<open>The block of the function, which is pasted in: it ends with a value, leaves the function by \<open>return\<close> or \<open>?\<close>, or panics.\<close>

datatype 'a body_end = Falls 'a | Returns 'a | Body_panics string

definition macro_main ::
  "nat \<Rightarrow> macro_args \<Rightarrow> (nat \<Rightarrow> ('f, 'q) pool_sys) \<Rightarrow> (nat \<Rightarrow> ('f, 'q) loop_sys \<Rightarrow> ('f, 'q) loop_sys)
    \<Rightarrow> (('f, 'q) event_loops \<Rightarrow> ('f, 'q) event_loops)
    \<Rightarrow> (('f, 'q) event_loops option \<times> bool option \<Rightarrow> 'a body_end \<times> ('f, 'q) event_loops option \<times> bool option)
    \<Rightarrow> ('f, 'q) event_loops option \<times> bool option
    \<Rightarrow> (unit, 'a) rust \<times> ('f, 'q) event_loops option \<times> bool option" where
  "macro_main cpus a pool meanwhile leave block st =
     (case macro_config cpus a of
        Ok c \<Rightarrow>
          (case public_init c pool st of
             (Ok u, st1) \<Rightarrow>
               (case block st1 of
                  (Falls v, inst, hook) \<Rightarrow>
                    (case public_shutdown meanwhile leave inst of (r, inst1) \<Rightarrow> (rust_bind r (\<lambda>_. Ok v), inst1, hook))
                | (Returns v, st2) \<Rightarrow> (Ok v, st2)
                | (Body_panics msg, st2) \<Rightarrow> (Panic msg, st2))
           | (Err e, st1) \<Rightarrow> (Err e, st1)
           | (Panic msg, st1) \<Rightarrow> (Panic msg, st1)
           | (Hang, st1) \<Rightarrow> (Hang, st1))
      | Err e \<Rightarrow> (Err e, st)
      | Panic msg \<Rightarrow> (Panic msg, st)
      | Hang \<Rightarrow> (Hang, st))"

text \<open>Without arguments the framework is started with its defaults.\<close>

lemma macro_defaults: "macro_parse [] macro_no_args = Ok a \<Longrightarrow> macro_config cpus a = Ok (config_default cpus)"
  by (auto simp: macro_no_args_def macro_config_def unless_max_def)

text \<open>Arguments in any order set their field and no other; the setters' assertions see the minimum before the maximum.\<close>

lemma macro_sizes:
  assumes "macro_parse args macro_no_args = Ok a" and "set args = {(''min_size'', Lit_int m), (''max_size'', Lit_int n)}"
    and "distinct args" and "0 < n" and "m \<le> n" and "n < max64"
  shows "macro_config cpus a = Ok ((config_default cpus)\<lparr>cf_min_size := m, cf_max_size := n\<rparr>)"
proof -
  have "args = [(''min_size'', Lit_int m), (''max_size'', Lit_int n)] \<or> args = [(''max_size'', Lit_int n), (''min_size'', Lit_int m)]"
  proof -
    have "length args = 2" using distinct_card [OF assms(3)] assms(2) by simp
    then obtain x y where "args = [x, y]" by (metis length_0_conv length_Suc_conv numeral_2_eq_2)
    with assms(2,3) show ?thesis by (auto simp: doubleton_eq_iff)
  qed
  then have "a = macro_no_args\<lparr>ma_min_size := m, ma_max_size := n\<rparr> \<or> a = macro_no_args\<lparr>ma_max_size := n, ma_min_size := m\<rparr>"
    using assms(1,5,6) by (elim disjE) (simp_all add: macro_arg_def parse_int_def)
  then show ?thesis using assms(4-6)
    by (elim disjE) (simp_all add: macro_no_args_def macro_config_def unless_max_def set_min_size_def set_max_size_def
        config_default_def config_new_def)
qed

text \<open>A minimum above the default maximum is accepted: the setter of the minimum does not look at the maximum.\<close>

lemma macro_min_above_max:
  assumes "65536 < m" and "m < max64"
  shows "\<exists>c. rust_bind (macro_parse [(''min_size'', Lit_int m)] macro_no_args) (\<lambda>a. Ok (macro_config cpus a)) = Ok (Ok c)
    \<and> cf_max_size c < cf_min_size c"
  using assms by (simp add: macro_arg_def parse_int_def macro_no_args_def macro_config_def unless_max_def set_min_size_def
      config_default_def config_new_def)

text \<open>A function that leaves by \<open>return\<close> or \<open>?\<close> leaves the framework running.\<close>

lemma macro_return_skips_shutdown:
  assumes "macro_config cpus a = Ok c" and "block (snd (public_init c pool st)) = (Returns v, st2)"
  shows "macro_main cpus a pool meanwhile leave block st = (Ok v, st2)"
  using assms by (auto simp: macro_main_def public_init_def open_coroutine_init_def split: prod.splits)

end
