(* ===== verification/Spec2Isabelle.thy ===== *)
theory Spec2Isabelle
  imports OC_Work_Steal OC_Event_Loops OC_Monitor OC_Preempt OC_Trap OC_Win_Calls OC_Win_Net OC_Entry
begin

text \<open>
  Verification of \<^verbatim>\<open>open-coroutine\<close>, a coroutine library with preemptive work-stealing scheduling
  that hooks blocking system calls.

  \<^bold>\<open>The program.\<close> A \<^emph>\<open>coroutine\<close> (\<^verbatim>\<open>core/src/coroutine\<close>) is a body on a stack of its own with a state
  machine and listeners. A \<^emph>\<open>scheduler\<close> (\<^verbatim>\<open>core/src/scheduler.rs\<close>) resumes the coroutines of a thread,
  taking them from a \<^emph>\<open>ready queue\<close> that threads steal from (\<^verbatim>\<open>core/src/common/ordered_work_steal.rs\<close>,
  and \<^verbatim>\<open>work_steal.rs\<close> without priorities), keeps those that wait in a heap of deadlines or in the
  table of system calls, and collects results. A \<^emph>\<open>pool\<close> (\<^verbatim>\<open>core/src/co_pool\<close>) runs tasks on worker
  coroutines of a scheduler and delivers their results to waiting threads. A \<^emph>\<open>hooked system call\<close>
  (\<^verbatim>\<open>core/src/syscall/unix\<close>) is a stack of layers that turns a blocking call of the current coroutine
  into non-blocking ones between which the thread runs other coroutines. An \<^emph>\<open>event loop\<close>
  (\<^verbatim>\<open>core/src/net\<close>) is a pool with a \<^emph>\<open>selector\<close> of ready descriptors and a \<^emph>\<open>completion operator\<close> for
  submitted operations; its thread alternates between scheduling and waiting, and a manager spreads
  tasks over the loops. The \<^emph>\<open>monitor\<close> (\<^verbatim>\<open>core/src/monitor.rs\<close>) preempts coroutines that run too long. The
  hook library (\<^verbatim>\<open>hook/src\<close>) and the public crate (\<^verbatim>\<open>open-coroutine/src\<close>) are the interfaces.

  \<^bold>\<open>Theories.\<close>
  \<^item> \<open>OC_Prelude\<close>: machine integers with the saturating operations of the standard library, the
    outcome \<open>rust\<close> of a computation (\<open>Ok\<close>, \<open>Err\<close>, \<open>Panic\<close>, \<open>Hang\<close> for not returning), collections of
    simplification rules, facts on lists, maps and multisets.
  \<^item> \<open>OC_Constants\<close>, \<open>OC_Common\<close>: \<^verbatim>\<open>common/constants.rs\<close>, \<^verbatim>\<open>common/mod.rs\<close>, \<^verbatim>\<open>config.rs\<close>.
  \<^item> \<open>OC_Deques\<close>: the containers of the crates \<^verbatim>\<open>st3\<close> and \<^verbatim>\<open>crossbeam-deque\<close> as records of operations;
    the locales \<open>st3_worker\<close>, \<open>crossbeam_injector\<close> and \<open>deques\<close> state what their documentation promises,
    and are interpreted on bounded and unbounded FIFO lists.
  \<^item> \<open>OC_Ordered_Work_Steal\<close>: \<open>OrderedWorkStealQueue\<close> as record \<open>owsq\<close>, \<open>OrderedLocalQueue\<close> as record
    \<open>olq\<close>, one definition per method, and the transition system \<open>ows_reach\<close> of any number of handles
    whose operations interleave.
  \<^item> \<open>OC_Work_Steal\<close>: the same for \<open>WorkStealQueue\<close> and \<open>LocalQueue\<close> (\<open>wsq\<close>, \<open>wlq\<close>, \<open>wss_reach\<close>).
  \<^item> \<open>OC_Coroutine\<close>: record \<open>coroutine\<close> and the thread-local stacks of a \<open>thread\<close>; the state operations of
    \<^verbatim>\<open>state.rs\<close>, the listeners of \<^verbatim>\<open>listener.rs\<close>, the suspender of \<^verbatim>\<open>suspender.rs\<close>, \<open>new\<close>, \<open>resume_with\<close>,
    \<open>raw_resume\<close> and \<open>maybe_grow_with\<close> of \<^verbatim>\<open>korosensei.rs\<close> and \<^verbatim>\<open>mod.rs\<close>. A body is a function from the
    coroutine to the segment it runs until it leaves, because the context switch is a foreign crate.
    The documented state machine is the inductive relation \<open>co_trans\<close>.
  \<^item> \<open>OC_Scheduler\<close>: record \<open>scheduler\<close> inside a \<open>sched_sys\<close> with the process-wide tables; every method.
    The ready queue is an interface (locale \<open>ready_queue\<close>), which the ordered queue provides by a
    \<open>sublocale\<close> of \<open>deques\<close>; the client's invariants are proved once in the locale \<open>scheduling\<close>.
  \<^item> \<open>OC_Co_Pool\<close>: tasks, the pool's life cycle, the creating listener, workers, waiting and stopping;
    \<open>pool_reach\<close> interleaves the steps of submitting threads, workers and waiters.
  \<^item> \<open>OC_Nio\<close>: the layers of \<^verbatim>\<open>syscall/unix/mod.rs\<close>. The operating system is a record \<open>sys_env\<close> of functions
    on a world; the locale \<open>io_frame\<close> carries everything a call leaves alone, the locale \<open>transfer\<close> what
    it moves.
  \<^item> \<open>OC_Unix_Calls\<close>: one definition per file of \<^verbatim>\<open>syscall/unix\<close>.
  \<^item> \<open>OC_Selector\<close>: the trait \<open>Selector\<close> and its adapter for \<^verbatim>\<open>mio\<close>; the process-wide tables of watched
    descriptors are the record \<open>selector\<close>, the poller is the locale \<open>mio_registry\<close>, interpreted on an
    interest list as \<open>epoll\<close> keeps it.
  \<^item> \<open>OC_Event_Loop\<close>: the waiting half of \<^verbatim>\<open>net/event_loop.rs\<close> as world of the system calls: tokens, events,
    completions, submissions. The layers of \<open>OC_Nio\<close> run on it; the locale \<open>answering_loop\<close> collects what
    makes a hooked call return.
  \<^item> \<open>OC_Event_Loops\<close>: the life cycle of a loop, the manager of \<^verbatim>\<open>net/mod.rs\<close>, join handles and the C interface
    of \<^verbatim>\<open>hook/src/lib.rs\<close>.
  \<^item> \<open>OC_Operator\<close>: the operator for \<^verbatim>\<open>io_uring\<close> with every operation; the ring is the locale \<open>io_uring\<close>.
  \<^item> \<open>OC_Iocp\<close>: the operator for completion ports of Windows; the port is the locale \<open>completion_port\<close>.
  \<^item> \<open>OC_Win\<close>, \<open>OC_Win_Calls\<close>: the layers and the calls of \<^verbatim>\<open>syscall/windows\<close>, on the state of \<open>OC_Nio\<close> with the table of
    non-blocking sockets in its world. The locale \<open>win_frame\<close> extends \<open>io_frame\<close>, \<open>win_transfer\<close> is the contract of a raw call.
  \<^item> \<open>OC_Win_Net\<close>: the event loop on either operator, and the adapter for \<^verbatim>\<open>polling\<close>.
  \<^item> \<open>OC_Beans\<close>: the bean factory and the coroutine-local table, on boxes that are allocated, cast and freed.
  \<^item> \<open>OC_Monitor\<close>: the monitor's life cycle, queue and thread, its listener (a listener in the sense of
    \<open>OC_Coroutine\<close>) and the signal handlers.
  \<^item> \<open>OC_Preempt\<close>: the assembly stubs of \<^verbatim>\<open>monitor.rs\<close> on a model of the processor, and \<open>preempt_thread\<close>.
  \<^item> \<open>OC_Trap\<close>: the handlers of memory faults and cancellation.
  \<^item> \<open>OC_Public\<close>: typed tasks, joining any of several, connecting with a timeout.
  \<^item> \<open>OC_Entry\<close>: the hooks of Windows and the attribute macro \<open>main\<close>.

  \<^bold>\<open>What is shown.\<close> The queues neither lose nor duplicate an item under any interleaving, refine a
  stable priority queue, are fair to the global queue, and every pop returns; a push can hang, and
  exactly when is characterised. A coroutine moves only along its documented machine, reports every
  move, and a resume restores the thread's stacks. The scheduling loop keeps the scheduler
  well-formed, loses no coroutine, wakes exactly who is due and returns at its deadline. The pool
  neither loses nor duplicates a task, bounds its workers and delivers every result once. A hooked
  read or write reports exactly the bytes it moved, restores the descriptor's flags and brings the
  coroutine back to \<open>Running\<close>; the time limits saturate correctly; \<open>poll\<close> waits its timeout. On Windows,
  too, a receive or send reports the bytes it moved, and a failed one shows its error. On the event
  loop a hooked call with a time limit returns at its deadline, the selector's tables refine two sets
  of watched descriptors, completions reach the caller who submitted the operation, a wait for time is
  exact, and stopping a loop ends. The operator hands on every entry once; that for Windows
  takes back exactly the operations it started. Joining a task yields its
  result. The monitor signals exactly the threads whose coroutine has been running for 10 ms; a
  thread preempted through the stub goes on with its registers and stack. Untyped tables are
  safe if every name has one type. Lemmas outside the properties exhibit behaviours the code does not mean
  to have; each is a reachable state or a run.

  \<^bold>\<open>Bounds and fuel.\<close> Integers keep their width (\<open>u64\<close>, \<open>u32\<close>, \<open>i32\<close> are words), sizes and lengths are
  \<open>nat\<close> with the wrap-around or saturation written out. A loop over a list is structural. A loop that
  may not end is a \<open>partial_function\<close> whose value \<open>None\<close> means that it does not return (stealing from
  an injector, moving half a queue, cutting slices), or has a fuel argument and the value \<open>Hang\<close>
  when it is spent (the scheduling loop, workers, waits, the input and output loops). That enough
  fuel gives a result is a theorem where the loop ends: the scheduling loop needs as much as the
  clock needs to pass the deadline, a worker one more than the queued tasks, \<open>poll\<close> one more than its
  timeout. Where it does not end, \<open>Hang\<close> for every fuel is the theorem.

  Stopping a loop, too, needs as much as the clock needs to pass the deadline.

  \<^bold>\<open>Not modelled.\<close> The context switch and the allocation of stacks (a foreign crate); \<open>async_cancel\<close> of the operator for Windows,
  whose body is missing; the lookup of the original symbols on Unix; the parsing of tokens in the macro; the build script, logging,
  and the display of values.
\<close>

end
